(* ===== verification/Port_Ranges.thy ===== *)
theory Port_Ranges
  imports Nono_Prelude "HOL-Library.Multiset"
begin

text \<open>
  \<open>merge_port_ranges\<close> of \<open>crates/nono/src/capability.rs\<close>: port ranges are pairs of 16-bit ports,
  both ends included. \<open>sort_unstable_by_key\<close> leaves the order of ranges with the same start open;
  the model takes the stable order, and \<open>merge_port_ranges_correct\<close> states that no other order
  gives another result.
\<close>

section \<open>Definitions\<close>

definition MACOS_PORT_RANGE_LIMIT :: u32 where
  "MACOS_PORT_RANGE_LIMIT = push_bit 14 1"

fun merge_loop ::
  "u16 \<Rightarrow> u16 \<Rightarrow> (u16 \<times> u16) list \<Rightarrow> (u16 \<times> u16) list \<Rightarrow> (u16 \<times> u16) list" where
  "merge_loop cur_start cur_end [] merged = merged @ [(cur_start, cur_end)]"
| "merge_loop cur_start cur_end ((start, end') # rest) merged =
     (if start \<le> sat_add cur_end 1
      then merge_loop cur_start (if end' > cur_end then end' else cur_end) rest merged
      else merge_loop start end' rest (merged @ [(cur_start, cur_end)]))"

definition merge_sorted :: "(u16 \<times> u16) list \<Rightarrow> (u16 \<times> u16) list" where
  "merge_sorted rs = (case rs of [] \<Rightarrow> [] | (s, e) # rest \<Rightarrow> merge_loop s e rest [])"

definition merge_port_ranges :: "(u16 \<times> u16) list \<Rightarrow> (u16 \<times> u16) list" where
  "merge_port_ranges ranges = (if ranges = [] then [] else merge_sorted (sort_key fst ranges))"

section \<open>Canonical range lists\<close>

text \<open>The ports of a list of ranges, and the canonical form of such a set: increasing ranges with
  at least one port free between two of them.\<close>

definition valid_range :: "u16 \<times> u16 \<Rightarrow> bool" where
  "valid_range r = (fst r \<le> snd r)"

definition range_ports :: "u16 \<times> u16 \<Rightarrow> nat set" where
  "range_ports r = {unat (fst r) .. unat (snd r)}"

definition ports :: "(u16 \<times> u16) list \<Rightarrow> nat set" where
  "ports rs = (\<Union>r \<in> set rs. range_ports r)"

fun canonical_ranges :: "(u16 \<times> u16) list \<Rightarrow> bool" where
  "canonical_ranges [] = True"
| "canonical_ranges (r # rs) =
     (valid_range r \<and> (\<forall>q \<in> set rs. unat (snd r) + 1 < unat (fst q)) \<and> canonical_ranges rs)"

lemma ports_simps [simp]:
  "ports [] = {}" "ports (r # rs) = range_ports r \<union> ports rs"
  "ports (rs @ qs) = ports rs \<union> ports qs"
  by (auto simp: ports_def)

lemma ports_above:
  "\<forall>q \<in> set rs. n < unat (fst q) \<Longrightarrow> p \<in> ports rs \<Longrightarrow> n < p"
  by (fastforce simp: ports_def range_ports_def)

lemma canonical_ranges_le:
  assumes "canonical_ranges (r # rs)" "canonical_ranges (q # qs)" "ports (r # rs) \<subseteq> ports (q # qs)"
  shows "unat (fst q) \<le> unat (fst r)"
proof -
  have "unat (fst r) \<in> ports (q # qs)"
    using assms by (auto simp: range_ports_def valid_range_def word_le_nat_alt)
  with assms(2) show ?thesis
    using ports_above [of qs "unat (snd q) + 1" "unat (fst r)"]
    by (auto simp: range_ports_def valid_range_def word_le_nat_alt)
qed

lemma canonical_ranges_end:
  assumes "canonical_ranges (r # rs)" "canonical_ranges (q # qs)" "ports (r # rs) = ports (q # qs)"
    and "fst r = fst q"
  shows "unat (snd q) \<le> unat (snd r)"
proof (rule ccontr)
  assume less: "\<not> unat (snd q) \<le> unat (snd r)"
  then have "unat (snd r) + 1 \<in> ports (q # qs)"
    using assms(1,4) by (auto simp: range_ports_def valid_range_def word_le_nat_alt)
  then have "unat (snd r) + 1 \<in> ports (r # rs)" by (simp only: assms(3))
  then have "unat (snd r) + 1 \<in> ports rs" by (simp add: range_ports_def)
  with assms(1) show False using ports_above [of rs "unat (snd r) + 1"] by auto
qed

lemma canonical_ranges_unique:
  assumes "canonical_ranges rs" "canonical_ranges qs" "ports rs = ports qs"
  shows "rs = qs"
  using assms
proof (induction rs arbitrary: qs)
  case Nil
  then show ?case
    by (cases qs) (auto simp: range_ports_def valid_range_def word_le_nat_alt)
next
  case (Cons r rs)
  from Cons.prems obtain q qs' where qs: "qs = q # qs'"
    by (cases qs) (auto simp: range_ports_def valid_range_def word_le_nat_alt)
  have "fst r = fst q"
    using Cons.prems canonical_ranges_le unfolding qs by (metis antisym order_refl word_unat_eq_iff)
  moreover from this have "snd r = snd q"
    using Cons.prems canonical_ranges_end unfolding qs by (metis antisym word_unat_eq_iff)
  ultimately have rq: "r = q" by (simp add: prod_eq_iff)
  have "range_ports r \<inter> ports rs = {}" "range_ports q \<inter> ports qs' = {}"
    using Cons.prems ports_above [of rs "unat (snd r) + 1"] ports_above [of qs' "unat (snd q) + 1"]
    unfolding qs by (fastforce simp: range_ports_def)+
  with Cons.prems(3) have "ports rs = ports qs'" unfolding qs rq by auto
  with Cons.prems Cons.IH [of qs'] show ?case unfolding qs rq by simp
qed

section \<open>The merge loop\<close>

lemma merge_loop_acc: "merge_loop s e rs m = m @ merge_loop s e rs []"
proof (induction rs arbitrary: s e m)
  case (Cons r rs)
  show ?case
    by (cases r) (simp, metis Cons.IH append.assoc append_Nil)
qed simp

lemma sat_add_1_le: "start \<le> sat_add (e :: u16) 1 \<longleftrightarrow> unat start \<le> unat e + 1"
proof -
  have "unat start < 65536" by (rule order.strict_trans2 [OF unsigned_less]) simp
  then show ?thesis by (auto simp: word_le_nat_alt unat_sat_add)
qed

lemma merge_loop_canonical:
  assumes "s \<le> e" "list_all valid_range rs" "sorted (map fst rs)" "\<forall>r \<in> set rs. s \<le> fst r"
  shows "canonical_ranges (merge_loop s e rs [])
    \<and> ports (merge_loop s e rs []) = range_ports (s, e) \<union> ports rs
    \<and> (\<forall>q \<in> set (merge_loop s e rs []). unat s \<le> unat (fst q))"
  using assms
proof (induction rs arbitrary: s e)
  case Nil
  then show ?case by (simp add: valid_range_def)
next
  case (Cons r rs)
  obtain start end' where r: "r = (start, end')" by (cases r)
  let ?e = "if end' > e then end' else e"
  have v: "s \<le> start" "start \<le> end'" "\<forall>r \<in> set rs. start \<le> fst r" "\<forall>r \<in> set rs. s \<le> fst r"
    using Cons.prems by (auto simp: r valid_range_def)
  show ?case
  proof (cases "start \<le> sat_add e 1")
    case True
    then have "unat start \<le> unat e + 1" by (simp add: sat_add_1_le)
    with v Cons.prems(1) have "range_ports (s, ?e) = range_ports (s, e) \<union> range_ports r"
      by (auto simp: r range_ports_def word_le_nat_alt word_less_nat_alt)
    with True v Cons.prems Cons.IH [of s ?e] show ?thesis by (auto simp: r)
  next
    case False
    then have g: "unat e + 1 < unat start" by (simp add: sat_add_1_le)
    have IH: "canonical_ranges (merge_loop start end' rs [])"
      "ports (merge_loop start end' rs []) = range_ports r \<union> ports rs"
      "\<forall>q \<in> set (merge_loop start end' rs []). unat start \<le> unat (fst q)"
      using Cons.IH [of start end'] Cons.prems v by (auto simp: r)
    have "merge_loop s e (r # rs) [] = (s, e) # merge_loop start end' rs []"
      using False merge_loop_acc [of start end' rs "[(s, e)]"] by (simp add: r)
    moreover have "unat e + 1 < unat (fst q) \<and> unat s \<le> unat (fst q)"
      if "q \<in> set (merge_loop start end' rs [])" for q
      using IH(3) that g v(1) by (auto simp: word_le_nat_alt)
    ultimately show ?thesis using IH(1,2) Cons.prems(1) by (simp add: valid_range_def)
  qed
qed

lemma merge_sorted_canonical:
  assumes "list_all valid_range rs" "sorted (map fst rs)"
  shows "canonical_ranges (merge_sorted rs) \<and> ports (merge_sorted rs) = ports rs"
  using assms merge_loop_canonical
  by (cases rs) (auto simp: merge_sorted_def valid_range_def)

lemma ports_mset: "set rs = set qs \<Longrightarrow> ports rs = ports qs"
  by (simp add: ports_def)

lemma list_all_sort_key [simp]: "list_all P (sort_key f xs) \<longleftrightarrow> list_all P xs"
  by (simp add: list_all_iff)

lemma merge_port_ranges_canonical:
  assumes "list_all valid_range rs"
  shows "canonical_ranges (merge_port_ranges rs) \<and> ports (merge_port_ranges rs) = ports rs"
  using merge_sorted_canonical [of "sort_key fst rs"] assms ports_mset [of "sort_key fst rs" rs]
  by (auto simp: merge_port_ranges_def)

text \<open>
  On ranges whose start is at most their end, \<open>merge_port_ranges\<close> returns the canonical form
  of the set of ports: exactly the ports of the input, in increasing ranges with a free port
  between any two, and therefore the same list for every input with these ports and for every
  order in which the unstable sort leaves ranges of equal start.
\<close>

theorem merge_port_ranges_correct:
  assumes "list_all valid_range ranges"
  shows "ports (merge_port_ranges ranges) = ports ranges
    \<and> canonical_ranges (merge_port_ranges ranges)
    \<and> (\<forall>rs. canonical_ranges rs \<and> ports rs = ports ranges \<longrightarrow> rs = merge_port_ranges ranges)
    \<and> (\<forall>rs. mset rs = mset ranges \<and> sorted (map fst rs) \<longrightarrow>
         merge_sorted rs = merge_port_ranges ranges)"
proof -
  note canon = merge_port_ranges_canonical [OF assms]
  have "merge_sorted rs = merge_port_ranges ranges"
    if "mset rs = mset ranges" "sorted (map fst rs)" for rs
  proof -
    from that(1) have "set rs = set ranges" by (rule mset_eq_setD)
    with assms that(2) have "canonical_ranges (merge_sorted rs)" "ports (merge_sorted rs) = ports ranges"
      using merge_sorted_canonical [of rs] ports_mset [of rs ranges] by (auto simp: list_all_iff)
    with canon show ?thesis by (metis canonical_ranges_unique)
  qed
  moreover have "rs = merge_port_ranges ranges"
    if "canonical_ranges rs" "ports rs = ports ranges" for rs
    using that canon by (intro canonical_ranges_unique) simp_all
  ultimately show ?thesis using canon by blast
qed

theorem merge_port_ranges_correct_witness:
  "ports (merge_port_ranges [(8000, 8010), (3000, 3005), (8011, 8020), (8005, 8007)])
     = ports [(3000, 3005), (8000, 8020)]
   \<and> merge_port_ranges [(8000, 8010), (3000, 3005), (8011, 8020), (8005, 8007)]
     = [(3000, 3005), (8000, 8020)]"
proof -
  have m: "merge_port_ranges [(8000, 8010), (3000, 3005), (8011, 8020), (8005, 8007)]
     = [(3000, 3005), (8000, 8020)]"
    by (simp add: merge_port_ranges_def merge_sorted_def sat_add_def)
  have "list_all valid_range [(8000, 8010), (3000, 3005), (8011, 8020), (8005, 8007)]"
    by (simp add: valid_range_def)
  from merge_port_ranges_correct [OF this] m show ?thesis by simp
qed

end
