(* ===== verification/Rust_Path.thy ===== *)
theory Rust_Path
  imports Nono_Prelude
begin

text \<open>
  \<open>std::path\<close> on Unix. A \<open>Path\<close> is its byte string; everything the sources decide on paths goes
  through \<open>components\<close>, so equality, order, \<open>starts_with\<close> and hashing of paths are those of the
  component lists, while \<open>as_os_str\<close>, \<open>display\<close> and \<open>to_str\<close> read the bytes.
\<close>

type_synonym path = string

datatype component = RootDir | CurDir | ParentDir | Normal string

abbreviation slash :: char where
  "slash \<equiv> CHR ''/''"

section \<open>Components\<close>

definition has_root :: "path \<Rightarrow> bool" where
  "has_root p = (case p of [] \<Rightarrow> False | c # _ \<Rightarrow> c = slash)"

definition include_cur_dir :: "path \<Rightarrow> bool" where
  "include_cur_dir p = (p = ''.'' \<or> starts_with p ''./'')"

text \<open>Length of the part before the body: the root separator or a leading \<open>.\<close>.\<close>

definition front_len :: "path \<Rightarrow> nat" where
  "front_len p = (if has_root p \<or> include_cur_dir p then 1 else 0)"

definition front_comps :: "path \<Rightarrow> component list" where
  "front_comps p = (if has_root p then [RootDir] else if include_cur_dir p then [CurDir] else [])"

text \<open>An empty segment and \<open>.\<close> are skipped inside the body.\<close>

definition skip_seg :: "string \<Rightarrow> bool" where
  "skip_seg s = (s = [] \<or> s = ''.'')"

definition seg_comp :: "string \<Rightarrow> component" where
  "seg_comp s = (if s = ''..'' then ParentDir else Normal s)"

definition body_segs :: "path \<Rightarrow> string list" where
  "body_segs p = split_on slash (drop (front_len p) p)"

definition components :: "path \<Rightarrow> component list" where
  "components p = front_comps p @ map seg_comp (filter (\<lambda>s. \<not> skip_seg s) (body_segs p))"

definition path_eq :: "path \<Rightarrow> path \<Rightarrow> bool" where
  "path_eq p q = (components p = components q)"

definition path_starts_with :: "path \<Rightarrow> path \<Rightarrow> bool" where
  "path_starts_with p q = (strip_prefix (components q) (components p) \<noteq> None)"

abbreviation is_absolute :: "path \<Rightarrow> bool" where
  "is_absolute p \<equiv> has_root p"

section \<open>parent, file\_name, join, pop\<close>

definition parent :: "path \<Rightarrow> path option" where
  "parent p =
     (case dropWhile skip_seg (rev (body_segs p)) of
        [] \<Rightarrow> if has_root p then None else if include_cur_dir p then Some [] else None
      | _ # rest \<Rightarrow>
          Some (take (front_len p) p @ join_with [slash] (rev (dropWhile skip_seg rest))))"

definition file_name :: "path \<Rightarrow> string option" where
  "file_name p =
     (if components p = [] then None
      else (case last (components p) of Normal s \<Rightarrow> Some s | _ \<Rightarrow> None))"

definition join :: "path \<Rightarrow> path \<Rightarrow> path" where
  "join p q =
     (if has_root q then q
      else if p = [] \<or> last p = slash then p @ q
      else p @ [slash] @ q)"

text \<open>The components left after \<open>strip_prefix\<close>, \<open>None\<close> when the prefix does not match.\<close>

definition strip_prefix_comps :: "path \<Rightarrow> path \<Rightarrow> component list option" where
  "strip_prefix_comps p base = strip_prefix (components base) (components p)"

section \<open>Facts\<close>

lemma path_eq_refl [simp]: "path_eq p p"
  by (simp add: path_eq_def)

lemma path_eq_sym: "path_eq p q \<longleftrightarrow> path_eq q p"
  by (auto simp: path_eq_def)

lemma path_eq_trans: "path_eq p q \<Longrightarrow> path_eq q r \<Longrightarrow> path_eq p r"
  by (simp add: path_eq_def)

lemma path_starts_with_iff: "path_starts_with p q \<longleftrightarrow> prefix (components q) (components p)"
  unfolding path_starts_with_def by (metis strip_prefix_None)

lemma path_starts_with_refl [simp]: "path_starts_with p p"
  by (simp add: path_starts_with_iff)

lemma path_starts_with_trans:
  "path_starts_with p q \<Longrightarrow> path_starts_with q r \<Longrightarrow> path_starts_with p r"
  by (auto simp: path_starts_with_iff intro: prefix_order.trans)

lemma path_starts_with_antisym:
  "path_starts_with p q \<Longrightarrow> path_starts_with q p \<Longrightarrow> path_eq p q"
  by (auto simp: path_starts_with_iff path_eq_def intro: prefix_order.antisym)

lemma path_starts_with_cong:
  "path_eq p p' \<Longrightarrow> path_eq q q' \<Longrightarrow> path_starts_with p q \<longleftrightarrow> path_starts_with p' q'"
  by (simp add: path_starts_with_iff path_eq_def)

lemma has_root_components: "has_root p \<longleftrightarrow> (\<exists>cs. components p = RootDir # cs)"
  by (auto simp: components_def front_comps_def seg_comp_def split: if_splits)

lemma not_has_root_Nil [simp]: "\<not> has_root []"
  by (simp add: has_root_def)

lemma include_not_root: "include_cur_dir p \<Longrightarrow> \<not> has_root p"
  by (auto simp: include_cur_dir_def has_root_def starts_with_iff prefix_def)

lemma has_root_append: "p \<noteq> [] \<Longrightarrow> has_root (p @ q) = has_root p"
  by (cases p) (simp_all add: has_root_def)

text \<open>A proper component: what \<open>file_name\<close> yields and \<open>join\<close> appends.\<close>

definition normal_seg :: "string \<Rightarrow> bool" where
  "normal_seg s = (s \<noteq> [] \<and> s \<noteq> ''.'' \<and> s \<noteq> ''..'' \<and> slash \<notin> set s)"

lemma normal_seg_skip: "normal_seg s \<Longrightarrow> \<not> skip_seg s \<and> seg_comp s = Normal s"
  by (simp add: normal_seg_def skip_seg_def seg_comp_def)

lemma include_cur_dir_cases:
  "include_cur_dir p \<longleftrightarrow>
     (case p of [] \<Rightarrow> False
      | c # cs \<Rightarrow> c = CHR ''.'' \<and> (case cs of [] \<Rightarrow> True | d # _ \<Rightarrow> d = slash))"
  by (auto simp: include_cur_dir_def starts_with_iff prefix_def split: list.splits)

lemma front_len_le: "front_len p \<le> length p"
  by (cases p) (auto simp: front_len_def include_cur_dir_cases)

lemma join_relative:
  assumes "\<not> has_root q"
  shows "join p q = p @ (if p = [] \<or> last p = slash then [] else [slash]) @ q"
  using assms by (simp add: join_def)

text \<open>Extending a non-empty path on the right does not change what its front is.\<close>

lemma front_extend:
  assumes "p \<noteq> []" "p = p' @ [slash] \<or> r = slash # r'"
  shows "has_root (p @ r) = has_root p" "include_cur_dir (p @ r) = include_cur_dir p"
proof -
  show "has_root (p @ r) = has_root p" using assms(1) by (rule has_root_append)
  show "include_cur_dir (p @ r) = include_cur_dir p"
  proof (cases p)
    case Nil
    with assms(1) show ?thesis by simp
  next
    case (Cons c cs)
    with assms show ?thesis
      by (cases cs; cases p') (auto simp: include_cur_dir_cases split: list.splits)
  qed
qed

lemma body_segs_extend:
  assumes "p \<noteq> []" "last p \<noteq> slash"
  shows "body_segs (p @ slash # q) = body_segs p @ split_on slash q"
proof -
  have "front_len (p @ slash # q) = front_len p"
    using front_extend [OF assms(1), of undefined "slash # q" q] by (simp add: front_len_def)
  then show ?thesis
    using front_len_le [of p] by (simp add: body_segs_def split_on_append)
qed

lemma body_segs_extend_slash:
  assumes "p \<noteq> []" "last p = slash"
  shows "filter (\<lambda>s. \<not> skip_seg s) (body_segs (p @ q)) =
         filter (\<lambda>s. \<not> skip_seg s) (body_segs p) @ filter (\<lambda>s. \<not> skip_seg s) (split_on slash q)"
proof -
  obtain p' where p': "p = p' @ [slash]" using assms by (metis append_butlast_last_id)
  have fl: "front_len (p @ q) = front_len p"
    using front_extend [OF assms(1), of p' q undefined] p' by (simp add: front_len_def)
  show ?thesis
  proof (cases "front_len p \<le> length p'")
    case True
    with p' fl show ?thesis
      by (simp add: body_segs_def split_on_append skip_seg_def)
  next
    case False
    with p' have "front_len p = length p" using front_len_le [of p] by simp
    with fl show ?thesis by (simp add: body_segs_def skip_seg_def)
  qed
qed

lemma components_Nil [simp]: "components [] = []"
  by (simp add: components_def front_comps_def body_segs_def front_len_def include_cur_dir_def
      skip_seg_def starts_with_iff)

text \<open>Joining a relative path appends its components.\<close>

theorem components_join:
  assumes "\<not> has_root q" "\<not> include_cur_dir q"
  shows "components (join p q) = components p @ components q"
proof (cases "p = []")
  case True
  with assms(1) show ?thesis by (simp add: join_relative)
next
  case False
  have q: "components q = map seg_comp (filter (\<lambda>s. \<not> skip_seg s) (split_on slash q))"
    using assms by (simp add: components_def front_comps_def body_segs_def front_len_def)
  show ?thesis
  proof (cases "last p = slash")
    case True
    then obtain p' where p': "p = p' @ [slash]" using False by (metis append_butlast_last_id)
    have "front_comps (p @ q) = front_comps p"
      using front_extend [OF False, of p' q undefined] p' by (simp add: front_comps_def)
    then show ?thesis
      using False True assms(1) q
      by (simp add: join_relative components_def body_segs_extend_slash)
  next
    case nt: False
    have "front_comps (p @ slash # q) = front_comps p"
      using front_extend [OF False, of undefined "slash # q" q] by (simp add: front_comps_def)
    then show ?thesis
      using False nt assms(1) q
      by (simp add: join_relative components_def body_segs_extend)
  qed
qed

lemma normal_seg_relative: "normal_seg s \<Longrightarrow> \<not> has_root s \<and> \<not> include_cur_dir s"
  by (auto simp: normal_seg_def has_root_def include_cur_dir_cases split: list.splits)

lemma components_normal: "normal_seg s \<Longrightarrow> components s = [Normal s]"
  using normal_seg_relative [of s] normal_seg_skip [of s]
  by (simp add: components_def front_comps_def body_segs_def front_len_def normal_seg_def split_on_free)

lemma components_join_normal [simp]:
  "normal_seg s \<Longrightarrow> components (join p s) = components p @ [Normal s]"
  using components_join [of s p] by (simp add: normal_seg_relative components_normal)

lemma file_name_normal:
  assumes "file_name p = Some s"
  shows "normal_seg s \<and> last (components p) = Normal s \<and> components p \<noteq> []"
proof -
  from assms have ne: "components p \<noteq> []" and l: "last (components p) = Normal s"
    by (auto simp: file_name_def split: if_splits component.splits)
  then have "Normal s \<in> set (components p)" by (metis last_in_set)
  then obtain t where "t \<in> set (body_segs p)" "\<not> skip_seg t" "seg_comp t = Normal s"
    by (auto simp: components_def front_comps_def split: if_splits)
  then show ?thesis
    using ne l split_on_parts [of t slash "drop (front_len p) p"]
    by (auto simp: normal_seg_def skip_seg_def seg_comp_def body_segs_def split: if_splits)
qed

subsection \<open>The parent of a path\<close>

lemma join_with_prefix: "prefix xs ys \<Longrightarrow> prefix (join_with sep xs) (join_with sep ys)"
proof (induction sep xs arbitrary: ys rule: join_with.induct)
  case (1 sep)
  then show ?case by simp
next
  case (2 sep x)
  then obtain ys' where "ys = x # ys'" by (auto simp: prefix_def)
  then show ?case by (cases ys') simp_all
next
  case (3 sep x y zs)
  then obtain ys' where ys: "ys = x # ys'" "prefix (y # zs) ys'"
    by (auto simp: prefix_def)
  then have "ys' \<noteq> []" by auto
  with ys 3 show ?case by (simp add: join_with_Cons)
qed

lemma length_join_with:
  "length (join_with [c] xs) = sum_list (map length xs) + (length xs - 1)"
  by (induction "[c]" xs rule: join_with.induct) auto

lemma parent_decomp:
  assumes "parent p = Some q"
  obtains (cur) "include_cur_dir p" "q = []" "components p = [CurDir]"
  | (body) pre x skips where "body_segs p = pre @ x # skips" "\<not> skip_seg x"
      "list_all skip_seg skips"
      "q = take (front_len p) p @ join_with [slash] (rev (dropWhile skip_seg (rev pre)))"
proof (cases "dropWhile skip_seg (rev (body_segs p))")
  case Nil
  with assms have "include_cur_dir p" "q = []" "\<not> has_root p"
    by (auto simp: parent_def split: if_splits)
  moreover from Nil have "filter (\<lambda>s. \<not> skip_seg s) (body_segs p) = []"
    by (auto simp: dropWhile_eq_Nil_conv filter_empty_conv)
  ultimately show thesis by (intro cur) (simp_all add: components_def front_comps_def)
next
  case (Cons x rest)
  then have x: "\<not> skip_seg x" by (metis hd_dropWhile list.distinct(1) list.sel(1))
  have "rev (body_segs p) = takeWhile skip_seg (rev (body_segs p)) @ x # rest"
    using Cons by (metis takeWhile_dropWhile_id)
  then have 1: "body_segs p = rev rest @ x # rev (takeWhile skip_seg (rev (body_segs p)))"
    by (metis append.assoc append_Cons append_Nil rev.simps(2) rev_append rev_rev_ident)
  have 2: "list_all skip_seg (rev (takeWhile skip_seg (rev (body_segs p))))"
    by (auto simp: list_all_iff dest: set_takeWhileD)
  have 3: "q = take (front_len p) p @ join_with [slash] (rev (dropWhile skip_seg (rev (rev rest))))"
    using assms Cons by (simp add: parent_def)
  show thesis by (rule body [OF 1 x 2 3])
qed

lemma take_front_body: "p = take (front_len p) p @ join_with [slash] (body_segs p)"
  by (simp add: body_segs_def)

lemma parent_shrinks:
  assumes "parent p = Some q"
  shows "prefix q p \<and> length q < length p"
  using assms
proof (cases rule: parent_decomp)
  case cur
  then show ?thesis by (cases p) simp_all
next
  case (body pre x skips)
  let ?r = "rev (dropWhile skip_seg (rev pre))"
  have "prefix ?r pre"
    by (metis suffix_dropWhile suffix_to_prefix rev_rev_ident)
  then have pr: "prefix ?r (pre @ x # skips)" by (rule prefix_prefix)
  have "p = take (front_len p) p @ join_with [slash] (pre @ x # skips)"
    using take_front_body [of p] body(1) by simp
  moreover have "prefix (join_with [slash] ?r) (join_with [slash] (pre @ x # skips))"
    using pr by (rule join_with_prefix)
  moreover have "length (join_with [slash] ?r) < length (join_with [slash] (pre @ x # skips))"
  proof -
    obtain zs where zs: "pre = ?r @ zs" using \<open>prefix ?r pre\<close> by (auto simp: prefix_def)
    have "x \<noteq> []" using body(2) by (simp add: skip_seg_def)
    have "sum_list (map length ?r) \<le> sum_list (map length pre)" by (subst (2) zs) simp
    moreover have "length ?r \<le> length pre" by (subst (2) zs) simp
    ultimately show ?thesis using \<open>x \<noteq> []\<close>
      by (cases x) (auto simp add: length_join_with simp del: length_rev)
  qed
  ultimately show ?thesis
    using body(4) by (metis length_append nat_add_left_cancel_less same_prefix_prefix)
qed

lemma filter_dropWhile_end:
  "filter (\<lambda>s. \<not> P s) (rev (dropWhile P (rev xs))) = filter (\<lambda>s. \<not> P s) xs"
proof -
  have "filter (\<lambda>s. \<not> P s) (dropWhile P ys) = filter (\<lambda>s. \<not> P s) ys" for ys
    by (induction ys) auto
  then show ?thesis by (simp add: rev_filter [symmetric])
qed

theorem components_parent:
  assumes "parent p = Some q"
  shows "components q = butlast (components p)"
  using assms
proof (cases rule: parent_decomp)
  case cur
  then show ?thesis by simp
next
  case (body pre x skips)
  define r where "r = rev (dropWhile skip_seg (rev pre))"
  have q_eq: "q = take (front_len p) p @ join_with [slash] r"
    using body(4) by (simp add: r_def)
  have pq: "prefix q p" using parent_shrinks [OF assms] by simp
  have r_parts: "\<forall>s \<in> set r. slash \<notin> set s"
    using body(1) split_on_parts [of _ slash "drop (front_len p) p"]
    by (auto simp: body_segs_def r_def dest!: set_dropWhileD)
  have r_last: "r = [] \<or> \<not> skip_seg (last r)"
    by (metis hd_dropWhile last_rev rev.simps(1) r_def)
  have hr: "has_root q = has_root p" if "q \<noteq> []"
    using pq that by (auto simp: prefix_def has_root_append)
  have icd: "include_cur_dir q = include_cur_dir p"
  proof (cases "include_cur_dir p")
    case True
    then obtain p' where p': "p = CHR ''.'' # p'" "p' = [] \<or> hd p' = slash"
      by (auto simp: include_cur_dir_cases split: list.splits)
    have fl: "front_len p = 1" using True by (simp add: front_len_def)
    have "include_cur_dir q"
    proof (cases "r = []")
      case True
      then have "q = ''.''" using q_eq p'(1) fl by simp
      then show ?thesis by (simp add: include_cur_dir_def)
    next
      case False
      have "q = CHR ''.'' # join_with [slash] r" using q_eq p'(1) fl by simp
      moreover have "prefix (join_with [slash] r) p'"
        using pq calculation p'(1) by simp
      moreover have "join_with [slash] r \<noteq> []" if "length r = 1"
        using that r_last False by (cases r) (auto simp: skip_seg_def)
      moreover have "join_with [slash] r \<noteq> []" if "length r \<noteq> 1"
        using that False by (cases r; cases "tl r") (auto simp: join_with_Cons)
      ultimately show ?thesis using p'(2)
        by (auto simp: include_cur_dir_cases prefix_def split: list.splits)
    qed
    with True show ?thesis by simp
  next
    case False
    have "\<not> include_cur_dir q"
    proof
      assume q: "include_cur_dir q"
      then have "\<not> starts_with q ''./''" using False pq
        by (auto simp: include_cur_dir_def starts_with_iff intro: prefix_order.trans)
      with q have qd: "q = ''.''" by (auto simp: include_cur_dir_def)
      with False hr have "front_len p = 0"
        by (auto simp: front_len_def has_root_def)
      with q_eq qd have "join_with [slash] r = ''.''" by simp
      then have "r = [''.'']"
        using split_on_join_with [OF r_parts] split_on_free [of slash "''.''"]
        by (cases "r = []") auto
      with r_last show False by (simp add: skip_seg_def)
    qed
    with False show ?thesis by simp
  qed
  have fl_pos: "q \<noteq> []" if "front_len p = 1"
    using q_eq that front_len_le [of p] by (cases p) auto
  have fl: "front_len q = front_len p" "front_comps q = front_comps p"
    using hr icd fl_pos by (cases "q = []"; force simp: front_len_def front_comps_def)+
  have "drop (front_len p) q = join_with [slash] r"
    using q_eq front_len_le [of p] by simp
  then have "filter (\<lambda>s. \<not> skip_seg s) (body_segs q) = filter (\<lambda>s. \<not> skip_seg s) r"
    using fl(1) split_on_join_with [OF r_parts]
    by (cases "r = []") (simp_all add: body_segs_def skip_seg_def)
  also have "\<dots> = filter (\<lambda>s. \<not> skip_seg s) pre"
    by (simp add: r_def filter_dropWhile_end)
  finally show ?thesis
    using fl(2) body(1,2,3) by (simp add: components_def butlast_append list_all_iff)
qed

lemma parent_None: "parent p = None \<longleftrightarrow> components p = [] \<or> components p = [RootDir]"
proof (cases "dropWhile skip_seg (rev (body_segs p))")
  case Nil
  then have "filter (\<lambda>s. \<not> skip_seg s) (body_segs p) = []"
    by (auto simp: dropWhile_eq_Nil_conv filter_empty_conv)
  then show ?thesis
    unfolding parent_def Nil by (auto simp: components_def front_comps_def)
next
  case (Cons x rest)
  then have "\<not> skip_seg x" by (metis hd_dropWhile list.distinct(1) list.sel(1))
  moreover have "x \<in> set (body_segs p)"
    using Cons by (metis list.set_intros(1) set_dropWhileD set_rev)
  ultimately have "filter (\<lambda>s. \<not> skip_seg s) (body_segs p) \<noteq> []"
    by (auto simp: filter_empty_conv)
  with Cons show ?thesis
    by (auto simp: parent_def components_def front_comps_def seg_comp_def split: if_splits)
qed

lemma parent_join_normal:
  assumes "normal_seg s"
  shows "\<exists>q. parent (join p s) = Some q \<and> components q = components p"
proof -
  have "parent (join p s) \<noteq> None" using assms by (simp add: parent_None)
  then obtain q where "parent (join p s) = Some q" by blast
  with components_parent [OF this] assms show ?thesis by simp
qed

lemma file_name_join_normal [simp]: "normal_seg s \<Longrightarrow> file_name (join p s) = Some s"
  by (simp add: file_name_def)

text \<open>\<open>Path::ancestors\<close>: the path, its parent, the parent of that, and so on.\<close>

function ancestors :: "path \<Rightarrow> path list" where
  "ancestors p = (case parent p of None \<Rightarrow> [p] | Some q \<Rightarrow> p # ancestors q)"
  by pat_completeness auto
termination
  by (relation "measure length") (auto dest: parent_shrinks)

declare ancestors.simps [simp del]

lemma self_in_ancestors [simp]: "p \<in> set (ancestors p)"
  by (subst ancestors.simps) (simp split: option.splits)

lemma ancestors_starts_with: "a \<in> set (ancestors p) \<Longrightarrow> path_starts_with p a"
proof (induction p rule: ancestors.induct)
  case (1 p)
  show ?case
  proof (cases "parent p")
    case None
    with 1(2) show ?thesis by (subst (asm) ancestors.simps) simp
  next
    case (Some q)
    with 1(2) consider "a = p" | "a \<in> set (ancestors q)"
      by (subst (asm) ancestors.simps) auto
    then show ?thesis
    proof cases
      case 1
      then show ?thesis by simp
    next
      case 2
      with "1.IH" Some have "path_starts_with q a" by blast
      moreover have "path_starts_with p q"
        using components_parent [OF Some]
        by (metis append_butlast_last_id butlast.simps(1) path_starts_with_iff prefix_def prefix_order.refl)
      ultimately show ?thesis by (blast intro: path_starts_with_trans)
    qed
  qed
qed

section \<open>Order\<close>

text \<open>
  \<open>Ord for Path\<close> is the lexicographic order of the components, with the variants of \<open>Component\<close>
  in declaration order.
\<close>

fun comp_rank :: "component \<Rightarrow> nat" where
  "comp_rank RootDir = 0"
| "comp_rank CurDir = 1"
| "comp_rank ParentDir = 2"
| "comp_rank (Normal s) = 3"

fun comp_text :: "component \<Rightarrow> string" where
  "comp_text (Normal s) = s"
| "comp_text _ = []"

lemma comp_rank_text: "comp_rank a = comp_rank b \<Longrightarrow> comp_text a = comp_text b \<Longrightarrow> a = b"
  by (cases a; cases b) auto

instantiation component :: linorder
begin

definition less_eq_component :: "component \<Rightarrow> component \<Rightarrow> bool" where
  "less_eq_component a b =
     (comp_rank a < comp_rank b \<or> comp_rank a = comp_rank b \<and> comp_text a \<le> comp_text b)"

definition less_component :: "component \<Rightarrow> component \<Rightarrow> bool" where
  "less_component a b =
     (comp_rank a < comp_rank b \<or> comp_rank a = comp_rank b \<and> comp_text a < comp_text b)"

instance
proof
  fix x y z :: component
  show "(x < y) = (x \<le> y \<and> \<not> y \<le> x)"
    by (auto simp: less_eq_component_def less_component_def)
  show "x \<le> x" by (simp add: less_eq_component_def)
  show "x \<le> y \<Longrightarrow> y \<le> z \<Longrightarrow> x \<le> z" by (auto simp: less_eq_component_def)
  show "x \<le> y \<Longrightarrow> y \<le> x \<Longrightarrow> x = y"
    by (auto simp: less_eq_component_def intro: comp_rank_text)
  show "x \<le> y \<or> y \<le> x" by (auto simp: less_eq_component_def)
qed

end

lemma root_first: "components p = xs @ [RootDir] \<Longrightarrow> xs = []"
proof (cases xs rule: rev_cases)
  case (snoc ys y)
  assume *: "components p = xs @ [RootDir]"
  have "RootDir \<notin> set (map seg_comp segs)" for segs by (auto simp: seg_comp_def)
  moreover have "length (front_comps p) \<le> 1" by (simp add: front_comps_def)
  ultimately show ?thesis
    using * snoc unfolding components_def
    by (cases "filter (\<lambda>s. \<not> skip_seg s) (body_segs p)" rule: rev_cases) (auto simp: seg_comp_def split: if_splits)
qed simp

lemma rooted_components:
  "has_root p \<Longrightarrow> c \<in> set (tl (components p)) \<Longrightarrow> c \<noteq> RootDir \<and> c \<noteq> CurDir"
  by (auto simp: components_def front_comps_def seg_comp_def split: if_splits)

end
