(* ===== verification/Host_FS.thy ===== *)
theory Host_FS
  imports Rust_Path
begin

text \<open>
  The part of \<open>std::fs\<close> the sources use, over an explicit file-system state. A node is addressed
  by the list of names that leads to it from the root; the root itself is always a directory.
  Path resolution is that of \<open>realpath\<close>: symbolic links are followed within the usual bound of 40,
  a missing search permission on a directory is \<open>PermissionDenied\<close>, and a path that continues
  below something that is not a directory is \<open>NotADirectory\<close>.
\<close>

section \<open>State\<close>

record file_data =
  fd_content :: string
  fd_mode :: u32
  fd_mtime :: int

datatype node =
    FileN file_data
  | DirN
  | LinkN path
  | SockN
  | SpecialN

datatype io_error =
    NotFound
  | PermissionDenied
  | NotADirectory
  | IsADirectory
  | FilesystemLoop
  | InvalidInput string
  | OtherIo string

fun io_display :: "io_error \<Rightarrow> string" where
  "io_display NotFound = ''No such file or directory (os error 2)''"
| "io_display PermissionDenied = ''Permission denied (os error 13)''"
| "io_display NotADirectory = ''Not a directory (os error 20)''"
| "io_display IsADirectory = ''Is a directory (os error 21)''"
| "io_display FilesystemLoop = ''Too many levels of symbolic links (os error 40)''"
| "io_display (InvalidInput m) = m"
| "io_display (OtherIo m) = m"

type_synonym node_path = "string list"

record host =
  nodes :: "node_path \<Rightarrow> node option"
  no_search :: "node_path \<Rightarrow> bool"
  cwd :: node_path

definition node_at :: "host \<Rightarrow> node_path \<Rightarrow> node option" where
  "node_at h k = (if k = [] then Some DirN else nodes h k)"

definition is_dir_node :: "host \<Rightarrow> node_path \<Rightarrow> bool" where
  "is_dir_node h k = (node_at h k = Some DirN)"

section \<open>Resolution\<close>

definition max_links :: nat where
  "max_links = 40"

text \<open>
  One step per path segment; \<open>follow\<close> says whether a link in the last position is followed
  (\<open>canonicalize\<close>, \<open>metadata\<close>) or not (\<open>symlink_metadata\<close>, \<open>read_link\<close>).
\<close>

function resolve ::
  "host \<Rightarrow> bool \<Rightarrow> nat \<Rightarrow> node_path \<Rightarrow> string list \<Rightarrow> io_error + node_path" where
  "resolve h follow links cur [] = Inr cur"
| "resolve h follow links cur (s # rest) =
     (if skip_seg s then resolve h follow links cur rest
      else if s = ''..'' then resolve h follow links (butlast cur) rest
      else if no_search h cur then Inl PermissionDenied
      else (case node_at h (cur @ [s]) of
              None \<Rightarrow> Inl NotFound
            | Some DirN \<Rightarrow> resolve h follow links (cur @ [s]) rest
            | Some (LinkN t) \<Rightarrow>
                if rest = [] \<and> \<not> follow then Inr (cur @ [s])
                else if links = 0 then Inl FilesystemLoop
                else resolve h follow (links - 1) (if has_root t then [] else cur)
                       (split_on slash t @ rest)
            | Some _ \<Rightarrow> if rest = [] then Inr (cur @ [s]) else Inl NotADirectory))"
  by pat_completeness auto
termination
  by (relation "measures [\<lambda>(h, follow, links, cur, segs). links,
                          \<lambda>(h, follow, links, cur, segs). length segs]") auto

definition lookup_path :: "host \<Rightarrow> bool \<Rightarrow> path \<Rightarrow> io_error + node_path" where
  "lookup_path h follow p =
     (if CHR 0x00 \<in> set p then Inl (InvalidInput ''file name contained an unexpected NUL byte'')
      else if p = [] then Inl NotFound
      else resolve h follow max_links (if has_root p then [] else cwd h) (split_on slash p))"

text \<open>The path string of a node: the names after a leading separator.\<close>

definition abs_path :: "node_path \<Rightarrow> path" where
  "abs_path k = slash # join_with [slash] k"

definition canonicalize :: "host \<Rightarrow> path \<Rightarrow> io_error + path" where
  "canonicalize h p = (case lookup_path h True p of Inl e \<Rightarrow> Inl e | Inr k \<Rightarrow> Inr (abs_path k))"

definition metadata :: "host \<Rightarrow> path \<Rightarrow> io_error + node" where
  "metadata h p =
     (case lookup_path h True p of Inl e \<Rightarrow> Inl e
      | Inr k \<Rightarrow> (case node_at h k of None \<Rightarrow> Inl NotFound | Some n \<Rightarrow> Inr n))"

definition symlink_metadata :: "host \<Rightarrow> path \<Rightarrow> io_error + node" where
  "symlink_metadata h p =
     (case lookup_path h False p of Inl e \<Rightarrow> Inl e
      | Inr k \<Rightarrow> (case node_at h k of None \<Rightarrow> Inl NotFound | Some n \<Rightarrow> Inr n))"

definition is_dir :: "host \<Rightarrow> path \<Rightarrow> bool" where
  "is_dir h p = (metadata h p = Inr DirN)"

definition is_file :: "host \<Rightarrow> path \<Rightarrow> bool" where
  "is_file h p = (case metadata h p of Inr (FileN _) \<Rightarrow> True | _ \<Rightarrow> False)"

definition path_exists :: "host \<Rightarrow> path \<Rightarrow> bool" where
  "path_exists h p = (case metadata h p of Inr _ \<Rightarrow> True | Inl _ \<Rightarrow> False)"

definition read_link :: "host \<Rightarrow> path \<Rightarrow> io_error + path" where
  "read_link h p =
     (case symlink_metadata h p of
        Inl e \<Rightarrow> Inl e
      | Inr (LinkN t) \<Rightarrow> Inr t
      | Inr _ \<Rightarrow> Inl (InvalidInput ''Invalid argument (os error 22)''))"

definition is_link :: "node \<Rightarrow> bool" where
  "is_link n = (case n of LinkN _ \<Rightarrow> True | _ \<Rightarrow> False)"

section \<open>Canonical node paths\<close>

text \<open>
  A canonical node path: its names are proper, and every directory on the way is a searchable
  directory (not a link). Resolution only produces such paths and leaves them unchanged.
\<close>

definition proper_name :: "string \<Rightarrow> bool" where
  "proper_name s = (normal_seg s \<and> CHR 0x00 \<notin> set s)"

definition on_canon :: "host \<Rightarrow> node_path \<Rightarrow> bool" where
  "on_canon h k =
     (list_all proper_name k \<and>
      (\<forall>i < length k. is_dir_node h (take i k) \<and> \<not> no_search h (take i k)))"

definition canon_dir :: "host \<Rightarrow> node_path \<Rightarrow> bool" where
  "canon_dir h k = (on_canon h k \<and> is_dir_node h k)"

definition canon_end :: "host \<Rightarrow> node_path \<Rightarrow> bool" where
  "canon_end h k = (on_canon h k \<and> node_at h k \<noteq> None \<and> (\<forall>t. node_at h k \<noteq> Some (LinkN t)))"

text \<open>
  What every POSIX host guarantees: no link target contains a NUL byte, and the working directory
  is a canonical directory.
\<close>

definition wf_host :: "host \<Rightarrow> bool" where
  "wf_host h =
     ((\<forall>k t. nodes h k = Some (LinkN t) \<longrightarrow> CHR 0x00 \<notin> set t) \<and> canon_dir h (cwd h))"

lemma split_on_chars: "s \<in> set (split_on c t) \<Longrightarrow> set s \<subseteq> set t"
  by (induction t arbitrary: s) (auto split: list.splits if_splits, blast+)

lemma canon_dir_Nil [simp]: "canon_dir h []"
  by (simp add: canon_dir_def on_canon_def is_dir_node_def node_at_def)

lemma canon_dir_butlast: "canon_dir h k \<Longrightarrow> canon_dir h (butlast k)"
proof (cases k rule: rev_cases)
  case (snoc ks x)
  moreover assume "canon_dir h k"
  ultimately show ?thesis
    by (auto simp: canon_dir_def on_canon_def less_Suc_eq split: if_splits)
qed simp

lemma on_canon_snoc:
  assumes "canon_dir h k" "\<not> no_search h k" "proper_name s"
  shows "on_canon h (k @ [s])"
  using assms by (auto simp: canon_dir_def on_canon_def less_Suc_eq)

definition resolution_ok :: "host \<Rightarrow> bool \<Rightarrow> node_path \<Rightarrow> bool" where
  "resolution_ok h follow k =
     (on_canon h k \<and> node_at h k \<noteq> None \<and> (follow \<longrightarrow> (\<forall>t. node_at h k \<noteq> Some (LinkN t))))"

lemma resolve_on_canon:
  assumes "resolve h follow links cur segs = Inr k"
    and "canon_dir h cur" and "\<forall>s \<in> set segs. slash \<notin> set s \<and> CHR 0x00 \<notin> set s"
    and "wf_host h"
  shows "resolution_ok h follow k"
  using assms
proof (induction h follow links cur segs rule: resolve.induct)
  case (1 h follow links cur)
  then show ?case by (auto simp: canon_dir_def is_dir_node_def resolution_ok_def)
next
  case (2 h follow links cur s rest)
  note ih = "2.IH" and prems = "2.prems"
  have slashes: "\<forall>s \<in> set rest. slash \<notin> set s \<and> CHR 0x00 \<notin> set s" using prems(3) by simp
  consider (skip) "skip_seg s" | (up) "\<not> skip_seg s" "s = ''..''"
    | (name) "\<not> skip_seg s" "s \<noteq> ''..''"
    by blast
  then show ?case
  proof cases
    case skip
    with prems(1) ih(1) [OF skip _ prems(2) slashes prems(4)] show ?thesis by simp
  next
    case up
    with prems(1) ih(2) [OF up _ canon_dir_butlast [OF prems(2)] slashes prems(4)] show ?thesis by simp
  next
    case name
    then have ns: "proper_name s"
      using prems(3) by (auto simp: proper_name_def normal_seg_def skip_seg_def)
    from name prems(1) have se: "\<not> no_search h cur" by (auto split: if_splits)
    have oc: "on_canon h (cur @ [s])" using prems(2) se ns by (rule on_canon_snoc)
    from name se prems(1) obtain n where n: "node_at h (cur @ [s]) = Some n"
      by (auto split: option.splits)
    show ?thesis
    proof (cases n)
      case DirN
      with n oc have "canon_dir h (cur @ [s])" by (simp add: canon_dir_def is_dir_node_def)
      with ih(3) [OF name se n DirN _ _ slashes prems(4)] name se n DirN prems(1) show ?thesis by simp
    next
      case (LinkN t)
      have "CHR 0x00 \<notin> set t"
        using n LinkN prems(4) by (auto simp: wf_host_def node_at_def split: if_splits)
      then have parts: "\<forall>s \<in> set (split_on slash t @ rest). slash \<notin> set s \<and> CHR 0x00 \<notin> set s"
        using slashes split_on_parts [of _ slash t] split_on_chars [of _ slash t] by auto
      have cd: "canon_dir h (if has_root t then [] else cur)" using prems(2) by simp
      show ?thesis
      proof (cases "rest = [] \<and> \<not> follow")
        case True
        with name se n LinkN prems(1) oc show ?thesis by (auto simp: resolution_ok_def)
      next
        case False
        with name se n LinkN prems(1) have ln: "links \<noteq> 0" by (auto split: if_splits)
        with False name se n LinkN prems(1) ih(4) [OF name se n LinkN False ln _ cd parts prems(4)]
        show ?thesis by auto
      qed
    qed (use name se n prems(1) oc in \<open>auto simp: resolution_ok_def split: if_splits\<close>)
  qed
qed

lemma resolve_self:
  assumes "on_canon h (cur @ ks)" "node_at h (cur @ ks) = Some n"
    and "\<forall>t. n \<noteq> LinkN t"
  shows "resolve h follow links cur ks = Inr (cur @ ks)"
  using assms
proof (induction ks arbitrary: cur)
  case Nil
  then show ?case by simp
next
  case (Cons s ks)
  have ns: "normal_seg s" using Cons.prems(1) by (simp add: on_canon_def proper_name_def)
  have "\<not> no_search h cur"
    using Cons.prems(1) by (auto simp: on_canon_def dest: spec [of _ "length cur"])
  show ?case
  proof (cases "ks = []")
    case True
    with Cons.prems ns \<open>\<not> no_search h cur\<close> show ?thesis
      by (cases n) (auto simp: normal_seg_def skip_seg_def)
  next
    case False
    then have "node_at h (cur @ [s]) = Some DirN"
      using Cons.prems(1)
      by (auto simp: on_canon_def is_dir_node_def dest!: spec [of _ "Suc (length cur)"])
    moreover have "resolve h follow links (cur @ [s]) ks = Inr ((cur @ [s]) @ ks)"
      using Cons.prems by (intro Cons.IH) auto
    ultimately show ?thesis
      using ns \<open>\<not> no_search h cur\<close> by (auto simp: normal_seg_def skip_seg_def)
  qed
qed

lemma lookup_path_resolved:
  assumes "wf_host h" "lookup_path h follow p = Inr k"
  shows "resolution_ok h follow k"
proof -
  from assms(2) have "CHR 0x00 \<notin> set p"
    and r: "resolve h follow max_links (if has_root p then [] else cwd h) (split_on slash p) = Inr k"
    by (auto simp: lookup_path_def split: if_splits)
  then have "\<forall>s \<in> set (split_on slash p). slash \<notin> set s \<and> CHR 0x00 \<notin> set s"
    using split_on_parts [of _ slash p] split_on_chars [of _ slash p] by blast
  with r assms(1) show ?thesis by (auto intro: resolve_on_canon simp: wf_host_def)
qed

lemma split_abs_path:
  assumes "\<forall>s \<in> set k. slash \<notin> set s"
  shows "split_on slash (abs_path k) = [] # (if k = [] then [[]] else k)"
  using assms by (simp add: abs_path_def split_on_join_with)

lemma has_root_abs_path [simp]: "has_root (abs_path k)"
  by (simp add: abs_path_def has_root_def)

lemma abs_path_not_Nil [simp]: "abs_path k \<noteq> []"
  by (simp add: abs_path_def)

lemma set_join_with: "set (join_with sep xs) \<subseteq> set sep \<union> (\<Union>x \<in> set xs. set x)"
  by (induction sep xs rule: join_with.induct) auto

lemma on_canon_names:
  "on_canon h k \<Longrightarrow> s \<in> set k \<Longrightarrow> normal_seg s \<and> slash \<notin> set s \<and> CHR 0x00 \<notin> set s"
  by (auto simp: on_canon_def list_all_iff proper_name_def normal_seg_def)

lemma lookup_abs_path:
  assumes "on_canon h k" "node_at h k = Some n" "\<forall>t. n \<noteq> LinkN t"
  shows "lookup_path h follow (abs_path k) = Inr k"
proof -
  have "set (abs_path k) \<subseteq> {slash} \<union> (\<Union>x \<in> set k. set x)"
    using set_join_with [of "[slash]" k] by (auto simp: abs_path_def)
  then have "CHR 0x00 \<notin> set (abs_path k)"
    using on_canon_names [OF assms(1)] by auto
  moreover have "resolve h follow max_links [] k = Inr k"
    using resolve_self [of h "[]" k n] assms by simp
  ultimately show ?thesis
    using split_abs_path [of k] on_canon_names [OF assms(1)]
    by (auto simp: lookup_path_def skip_seg_def)
qed

lemma canonicalize_Inr:
  assumes "wf_host h" "canonicalize h p = Inr q"
  obtains k where "q = abs_path k" "canon_end h k" "lookup_path h True p = Inr k"
  using assms lookup_path_resolved [of h True p]
  by (auto simp: canonicalize_def resolution_ok_def canon_end_def split: sum.splits)

lemma canonicalize_canonical: "canon_end h k \<Longrightarrow> canonicalize h (abs_path k) = Inr (abs_path k)"
  using lookup_abs_path [of h k _ True] by (auto simp: canonicalize_def canon_end_def)

text \<open>Canonicalisation is idempotent on every host.\<close>

lemma canonicalize_idem:
  "wf_host h \<Longrightarrow> canonicalize h p = Inr q \<Longrightarrow> canonicalize h q = Inr q"
  by (metis canonicalize_Inr canonicalize_canonical)

lemma components_abs_path:
  assumes "\<forall>s \<in> set k. normal_seg s"
  shows "components (abs_path k) = RootDir # map Normal k"
proof -
  have n: "slash \<notin> set s \<and> \<not> skip_seg s \<and> s \<noteq> ''..''" if "s \<in> set k" for s
    using assms that by (auto simp: normal_seg_def skip_seg_def)
  have "body_segs (abs_path k) = (if k = [] then [[]] else k)"
    using n by (auto simp: body_segs_def front_len_def has_root_def abs_path_def split_on_join_with)
  moreover have "filter (\<lambda>s. \<not> skip_seg s) k = k" using n by (simp add: filter_id_conv)
  ultimately show ?thesis
    using n by (auto simp: components_def front_comps_def seg_comp_def skip_seg_def)
qed

lemma abs_path_starts_with:
  assumes "\<forall>s \<in> set k. normal_seg s" "\<forall>s \<in> set j. normal_seg s"
  shows "path_starts_with (abs_path k) (abs_path j) \<longleftrightarrow> prefix j k"
  using assms
  by (auto simp: path_starts_with_iff components_abs_path prefix_map_rightE intro: map_mono_prefix)
     (metis component.inject list.inj_map_strong prefix_def map_eq_append_conv)

section \<open>A small host for the examples\<close>

definition demo_file :: file_data where
  "demo_file = \<lparr>fd_content = ''hello'', fd_mode = 420, fd_mtime = 0\<rparr>"

definition demo_host :: host where
  "demo_host =
     \<lparr>nodes = map_of [([''tmp''], DirN), ([''tmp'', ''a''], FileN demo_file),
        ([''tmp'', ''sub''], DirN), ([''link''], LinkN ''tmp''), ([''run''], DirN),
        ([''run'', ''s''], SockN)],
      no_search = (\<lambda>_. False), cwd = [''tmp'']\<rparr>"

lemma demo_host_wf: "wf_host demo_host"
  by (auto simp: wf_host_def demo_host_def canon_dir_def on_canon_def proper_name_def normal_seg_def
      is_dir_node_def node_at_def split: if_splits)

end
