(* ===== verification/Nono_Error.thy ===== *)
theory Nono_Error
  imports Host_FS
begin

text \<open>
  The error type of the library (\<open>crates/nono/src/error.rs\<close>), its classification into diagnostic
  codes and remediations (\<open>diagnostic/codes.rs\<close>), and the access modes
  (\<open>AccessMode\<close> of \<open>capability.rs\<close>) that remediations carry. The errors of the \<open>landlock\<close>
  crate are opaque strings. A path in an error text is shown by its bytes; for a path that is not
  valid UTF-8 the program substitutes replacement characters in that text only.
\<close>

section \<open>Access modes\<close>

datatype access_mode = Read | Write | ReadWrite

fun contains :: "access_mode \<Rightarrow> access_mode \<Rightarrow> bool" where
  "contains ReadWrite required = True"
| "contains Read required = (required = Read)"
| "contains Write required = (required = Write)"

fun access_display :: "access_mode \<Rightarrow> string" where
  "access_display Read = ''read''"
| "access_display Write = ''write''"
| "access_display ReadWrite = ''read+write''"

section \<open>Errors\<close>

datatype (plugins only: code) nono_error =
    PathNotFound path
  | ExpectedDirectory path
  | ExpectedFile path
  | ExpectedUnixSocket path
  | PathCanonicalization path io_error
  | NoCapabilities
  | NoCommand
  | CwdPromptRequired
  | SandboxInit string
  | UnsupportedPlatform string
  | BlockedCommand string string
  | Landlock string
  | LandlockPath string
  | KeystoreAccess string
  | SecretNotFound string
  | ConfigParse string
  | ConfigWrite path io_error
  | ProfileNotFound string
  | ProfileRead path io_error
  | ProfileParse string
  | ProfileInheritance string
  | HomeNotFound
  | Setup string
  | LearnError string
  | HookInstall string
  | EnvVarValidation string string
  | CapFileValidation string
  | CapFileTooLarge u64 u64
  | ConfigRead path io_error
  | VersionDowngrade string u64 u64
  | CommandExecution io_error
  | ObjectStore string
  | Snapshot string
  | HashMismatch string string string
  | SessionNotFound string
  | AttachBusy
  | SessionGone
  | AuditLedgerCorrupt nat string
  | AuditSessionOutsideRoot string string
  | TrustVerification string string
  | TrustSigning string string
  | TrustPolicy string
  | BlocklistBlocked string string
  | InstructionFileDenied string string
  | PackageInstall string
  | ActionRequired string
  | PackageVerification string string
  | RegistryError string
  | NetworkFilterUnsupported string string
  | Io io_error
  | CancelledError string

text \<open>Text between single quotes in a message.\<close>

definition quoted :: "string \<Rightarrow> string" where
  "quoted s = [CHR 0x27] @ s @ [CHR 0x27]"

type_synonym 'a res = "nono_error + 'a"

section \<open>Diagnostic codes and remediations\<close>

datatype (plugins only: code) diag_code =
    SandboxDeniedPath | SandboxDeniedNetwork | SandboxDeniedUnixSocket | CommandNotFound
  | CommandFailedLikelySandbox | CommandFailedApplication | CredentialNotFound
  | CredentialUnavailable | UnsupportedPlatformFeature | RollbackBudgetExceeded
  | CwdAccessRequired | ConfigurationError | TrustVerificationFailed | IoErrorCode | Cancelled
  | OtherCode

datatype remediation =
    GrantPath path access_mode bool
  | GrantUnixSocket path bool
  | GrantNetwork
  | RunDiscovery
  | CheckPolicy
  | AuthenticateCredentialProvider string
  | AdjustRollbackBudget "u64 option" "u64 option"
  | AllowCwd
  | DisableRollback

fun diagnostic_code :: "nono_error \<Rightarrow> diag_code" where
  "diagnostic_code CwdPromptRequired = CwdAccessRequired"
| "diagnostic_code (SecretNotFound _) = CredentialNotFound"
| "diagnostic_code (KeystoreAccess _) = CredentialUnavailable"
| "diagnostic_code (UnsupportedPlatform _) = UnsupportedPlatformFeature"
| "diagnostic_code (NetworkFilterUnsupported _ _) = UnsupportedPlatformFeature"
| "diagnostic_code (SandboxInit _) = SandboxDeniedPath"
| "diagnostic_code (BlockedCommand _ _) = SandboxDeniedPath"
| "diagnostic_code (TrustVerification _ _) = TrustVerificationFailed"
| "diagnostic_code (TrustSigning _ _) = TrustVerificationFailed"
| "diagnostic_code (TrustPolicy _) = TrustVerificationFailed"
| "diagnostic_code (BlocklistBlocked _ _) = TrustVerificationFailed"
| "diagnostic_code (InstructionFileDenied _ _) = TrustVerificationFailed"
| "diagnostic_code (AuditSessionOutsideRoot _ _) = TrustVerificationFailed"
| "diagnostic_code (PackageVerification _ _) = TrustVerificationFailed"
| "diagnostic_code (Snapshot msg) =
     (if contains_sub msg ''budget exceeded'' then RollbackBudgetExceeded else OtherCode)"
| "diagnostic_code (ObjectStore msg) =
     (if contains_sub msg ''budget exceeded'' then RollbackBudgetExceeded else OtherCode)"
| "diagnostic_code (CancelledError _) = Cancelled"
| "diagnostic_code (Io _) = IoErrorCode"
| "diagnostic_code (CommandExecution _) = IoErrorCode"
| "diagnostic_code (PathNotFound _) = OtherCode"
| "diagnostic_code (ExpectedDirectory _) = OtherCode"
| "diagnostic_code (ExpectedFile _) = OtherCode"
| "diagnostic_code (ExpectedUnixSocket _) = OtherCode"
| "diagnostic_code (PathCanonicalization _ _) = OtherCode"
| "diagnostic_code (HashMismatch _ _ _) = OtherCode"
| "diagnostic_code (SessionNotFound _) = OtherCode"
| "diagnostic_code (AuditLedgerCorrupt _ _) = OtherCode"
| "diagnostic_code (Landlock _) = SandboxDeniedPath"
| "diagnostic_code (LandlockPath _) = SandboxDeniedPath"
| "diagnostic_code (ConfigParse _) = ConfigurationError"
| "diagnostic_code (ConfigWrite _ _) = ConfigurationError"
| "diagnostic_code (ConfigRead _ _) = ConfigurationError"
| "diagnostic_code (ProfileNotFound _) = ConfigurationError"
| "diagnostic_code (ProfileRead _ _) = ConfigurationError"
| "diagnostic_code (ProfileParse _) = ConfigurationError"
| "diagnostic_code (ProfileInheritance _) = ConfigurationError"
| "diagnostic_code HomeNotFound = ConfigurationError"
| "diagnostic_code (Setup _) = ConfigurationError"
| "diagnostic_code (LearnError _) = ConfigurationError"
| "diagnostic_code (HookInstall _) = ConfigurationError"
| "diagnostic_code (EnvVarValidation _ _) = ConfigurationError"
| "diagnostic_code (CapFileValidation _) = ConfigurationError"
| "diagnostic_code (CapFileTooLarge _ _) = ConfigurationError"
| "diagnostic_code (VersionDowngrade _ _ _) = ConfigurationError"
| "diagnostic_code (PackageInstall _) = ConfigurationError"
| "diagnostic_code (ActionRequired _) = ConfigurationError"
| "diagnostic_code (RegistryError _) = ConfigurationError"
| "diagnostic_code AttachBusy = ConfigurationError"
| "diagnostic_code SessionGone = ConfigurationError"
| "diagnostic_code NoCapabilities = ConfigurationError"
| "diagnostic_code NoCommand = ConfigurationError"

definition store_remediation :: "string \<Rightarrow> remediation option" where
  "store_remediation msg =
     (if contains_sub msg ''budget exceeded'' then Some (AdjustRollbackBudget None None)
      else if contains_sub msg ''--no-rollback'' \<or> contains_sub msg ''disable rollback''
        then Some DisableRollback
      else None)"

definition remediation_of :: "nono_error \<Rightarrow> remediation option" where
  "remediation_of e =
     (case e of
        CwdPromptRequired \<Rightarrow> Some AllowCwd
      | SecretNotFound _ \<Rightarrow> Some (AuthenticateCredentialProvider ''keystore'')
      | KeystoreAccess _ \<Rightarrow> Some (AuthenticateCredentialProvider ''keystore'')
      | Snapshot msg \<Rightarrow> store_remediation msg
      | ObjectStore msg \<Rightarrow> store_remediation msg
      | NetworkFilterUnsupported _ _ \<Rightarrow> Some GrantNetwork
      | ProfileNotFound _ \<Rightarrow> Some CheckPolicy
      | ProfileParse _ \<Rightarrow> Some CheckPolicy
      | NoCapabilities \<Rightarrow> Some CheckPolicy
      | ConfigParse _ \<Rightarrow> Some CheckPolicy
      | _ \<Rightarrow> None)"

section \<open>Facts\<close>

text \<open>\<open>contains\<close> is the inclusion order of the permission sets.\<close>

definition permits_read :: "access_mode \<Rightarrow> bool" where
  "permits_read a = contains a Read"

definition permits_write :: "access_mode \<Rightarrow> bool" where
  "permits_write a = contains a Write"

lemma contains_iff:
  "contains a b \<longleftrightarrow> (permits_read b \<longrightarrow> permits_read a) \<and> (permits_write b \<longrightarrow> permits_write a)"
  by (cases a; cases b) (simp_all add: permits_read_def permits_write_def)

lemma contains_refl [simp]: "contains a a"
  by (cases a) simp_all

lemma contains_trans: "contains a b \<Longrightarrow> contains b c \<Longrightarrow> contains a c"
  by (simp add: contains_iff)

lemma contains_antisym: "contains a b \<Longrightarrow> contains b a \<Longrightarrow> a = b"
  by (cases a; cases b) simp_all

lemma contains_ReadWrite: "contains a ReadWrite \<longleftrightarrow> contains a Read \<and> contains a Write"
  by (cases a) simp_all

lemma budget_remediation:
  "diagnostic_code e = RollbackBudgetExceeded \<longleftrightarrow>
   remediation_of e = Some (AdjustRollbackBudget None None)"
  by (cases e) (simp_all add: remediation_of_def store_remediation_def)

end
