(* ===== verification/Platform_Rule.thy ===== *)
theory Platform_Rule
  imports Nono_Error
begin

text \<open>
  Platform rules (\<open>validate_platform_rule\<close> and \<open>tokenize_sexp\<close> of
  \<open>crates/nono/src/capability.rs\<close>): S-expressions that are injected into the sandbox profile.
  The tokenizer compares with ASCII characters only, so it reads the UTF-8 bytes of the rule. The
  inner loops of the source are the functions \<open>skip_block\<close>, \<open>skip_line\<close> and \<open>scan_string\<close>; each
  returns what is left of the input. The depth counter is a saturating 32-bit integer.
\<close>

section \<open>Tokenizer\<close>

definition bare_stop :: "char \<Rightarrow> bool" where
  "bare_stop c = (is_ascii_whitespace c \<or> c = CHR ''('' \<or> c = CHR '')'' \<or> c = CHR 0x22)"

fun skip_block :: "string \<Rightarrow> string option" where
  "skip_block [] = None"
| "skip_block (c # cs) =
     (if c = CHR ''|'' \<and> (case cs of [] \<Rightarrow> False | d # _ \<Rightarrow> d = CHR ''#'') then Some (tl cs)
      else skip_block cs)"

fun skip_line :: "string \<Rightarrow> string" where
  "skip_line [] = []"
| "skip_line (c # cs) = (if c = CHR 0x0A then cs else skip_line cs)"

fun scan_string :: "string \<Rightarrow> string \<Rightarrow> (string \<times> string) option" where
  "scan_string [] s = None"
| "scan_string (c # cs) s =
     (if c = CHR 0x5C then (case cs of [] \<Rightarrow> None | esc # cs' \<Rightarrow> scan_string cs' (s @ [esc]))
      else if c = CHR 0x22 then Some (s, cs)
      else scan_string cs (s @ [c]))"

lemma skip_block_length: "skip_block cs = Some r \<Longrightarrow> length r < length cs"
  by (induction cs) (auto split: if_splits list.splits)

lemma skip_line_length: "length (skip_line cs) \<le> length cs"
  by (induction cs) auto

lemma scan_string_length: "scan_string cs s = Some (t, r) \<Longrightarrow> length r < length cs"
  by (induction cs s rule: scan_string.induct) (fastforce split: if_splits list.splits)+

definition unterminated :: "string \<Rightarrow> nono_error" where
  "unterminated what = SandboxInit (''platform rule has unterminated '' @ what)"

function tokenize_loop :: "string \<Rightarrow> string list \<Rightarrow> string list res" where
  "tokenize_loop [] tokens = Inr tokens"
| "tokenize_loop (c # cs) tokens =
     (if is_ascii_whitespace c then tokenize_loop cs tokens
      else if c = CHR ''#'' then
        (if (case cs of [] \<Rightarrow> False | d # _ \<Rightarrow> d = CHR ''|'') then
           (case skip_block (tl cs) of
              None \<Rightarrow> Inl (unterminated ''block comment'')
            | Some rest \<Rightarrow> tokenize_loop rest tokens)
         else tokenize_loop (dropWhile (\<lambda>x. \<not> bare_stop x) cs)
                (tokens @ [CHR ''#'' # takeWhile (\<lambda>x. \<not> bare_stop x) cs]))
      else if c = CHR '';'' then tokenize_loop (skip_line cs) tokens
      else if c = CHR ''('' \<or> c = CHR '')'' then tokenize_loop cs (tokens @ [[c]])
      else if c = CHR 0x22 then
        (case scan_string cs [] of
           None \<Rightarrow> Inl (unterminated ''string'')
         | Some (s, rest) \<Rightarrow> tokenize_loop rest (tokens @ [s]))
      else tokenize_loop (dropWhile (\<lambda>x. \<not> bare_stop x) (c # cs))
             (tokens @ [takeWhile (\<lambda>x. \<not> bare_stop x) (c # cs)]))"
  by pat_completeness auto
termination
proof (relation "measure (\<lambda>(cs, tokens). length cs)", goal_cases)
  case (3 c cs tokens rest)
  then show ?case
    using skip_block_length [of "tl cs" rest] by (auto split: list.splits)
next
  case (4 c cs tokens)
  then show ?case using length_dropWhile_le [of _ cs] by (simp add: le_imp_less_Suc)
next
  case (5 c cs tokens)
  then show ?case using skip_line_length [of cs] by (simp add: le_imp_less_Suc)
next
  case (7 c cs tokens p s rest)
  then show ?case using scan_string_length [of cs "[]" s rest] by auto
next
  case (8 c cs tokens)
  then have "\<not> bare_stop c" by (auto simp: bare_stop_def)
  then show ?case using length_dropWhile_le [of _ cs] by (simp add: le_imp_less_Suc)
qed auto

definition tokenize_sexp :: "string \<Rightarrow> string list res" where
  "tokenize_sexp input = tokenize_loop input []"

section \<open>Validation\<close>

definition i32_clamp :: "int \<Rightarrow> int" where
  "i32_clamp i = max (- (2 ^ 31)) (min i (2 ^ 31 - 1))"

definition unbalanced :: "string \<Rightarrow> nono_error" where
  "unbalanced rule = SandboxInit (''platform rule has unbalanced parentheses: '' @ rule)"

fun paren_depth :: "string \<Rightarrow> int \<Rightarrow> string list \<Rightarrow> int res" where
  "paren_depth rule depth [] = Inr depth"
| "paren_depth rule depth (tok # toks) =
     (if tok = ''('' then paren_depth rule (i32_clamp (depth + 1)) toks
      else if tok = '')'' then
        (let depth' = i32_clamp (depth - 1)
         in if depth' < 0 then Inl (unbalanced rule) else paren_depth rule depth' toks)
      else paren_depth rule depth toks)"

definition root_window :: "string list \<Rightarrow> bool" where
  "root_window w =
     (w ! 0 = ''allow'' \<and> (w ! 1 = ''file-read*'' \<or> w ! 1 = ''file-write*'')
      \<and> w ! 2 = ''subpath'' \<and> w ! 3 = ''/'')"

definition content_tokens :: "string list \<Rightarrow> string list" where
  "content_tokens tokens = filter (\<lambda>t. t \<noteq> ''('' \<and> t \<noteq> '')'') tokens"

definition validate_platform_rule :: "string \<Rightarrow> unit res" where
  "validate_platform_rule rule =
     (let trimmed = trim_str rule in
      if \<not> starts_with trimmed ''('' then
        Inl (SandboxInit (''platform rule must be an S-expression starting with '' @ [CHR 0x27]
               @ ''('' @ [CHR 0x27] @ '': '' @ rule))
      else and_then (tokenize_sexp trimmed) (\<lambda>tokens.
           and_then (paren_depth rule 0 tokens) (\<lambda>depth.
             if depth \<noteq> 0 then Inl (unbalanced rule)
             else (case find root_window (windows 4 (content_tokens tokens)) of
                     Some w \<Rightarrow>
                       Inl (SandboxInit (''platform rule must not grant root-level ''
                              @ (if w ! 1 = ''file-read*'' then ''read'' else ''write'') @ '' access''))
                   | None \<Rightarrow> Inr ()))))"

section \<open>Rendering a token list\<close>

text \<open>
  The texts of a token list: white space, block comments and line comments may stand between
  tokens. A bare token ends only at white space, a parenthesis or a quote, so what follows it
  directly must be one of these.
\<close>

datatype sep_item = WS char | BlockC string | LineC string

datatype sexp_token = Par bool | Str string | Bare string

fun sep_text :: "sep_item \<Rightarrow> string" where
  "sep_text (WS c) = [c]"
| "sep_text (BlockC body) = ''#|'' @ body @ ''|#''"
| "sep_text (LineC body) = '';'' @ body @ [CHR 0x0A]"

fun wf_sep :: "sep_item \<Rightarrow> bool" where
  "wf_sep (WS c) = is_ascii_whitespace c"
| "wf_sep (BlockC body) = (\<not> contains_sub body ''|#'')"
| "wf_sep (LineC body) = (CHR 0x0A \<notin> set body)"

definition escape :: "string \<Rightarrow> string" where
  "escape s = concat (map (\<lambda>c. if c = CHR 0x22 \<or> c = CHR 0x5C then [CHR 0x5C, c] else [c]) s)"

fun token_text :: "sexp_token \<Rightarrow> string" where
  "token_text (Par opening) = (if opening then ''('' else '')'')"
| "token_text (Str s) = CHR 0x22 # escape s @ [CHR 0x22]"
| "token_text (Bare s) = s"

fun token_value :: "sexp_token \<Rightarrow> string" where
  "token_value (Par opening) = (if opening then ''('' else '')'')"
| "token_value (Str s) = s"
| "token_value (Bare s) = s"

fun wf_token :: "sexp_token \<Rightarrow> bool" where
  "wf_token (Bare s) =
     (list_all (\<lambda>c. \<not> bare_stop c) s
      \<and> (case s of [] \<Rightarrow> False
          | c # cs \<Rightarrow> c \<noteq> CHR '';'' \<and> (c = CHR ''#'' \<longrightarrow> (case cs of [] \<Rightarrow> True | d # _ \<Rightarrow> d \<noteq> CHR ''|''))))"
| "wf_token _ = True"

definition stops :: "string \<Rightarrow> bool" where
  "stops rest = (case rest of [] \<Rightarrow> True | c # _ \<Rightarrow> bare_stop c)"

fun render :: "(sexp_token \<times> sep_item list) list \<Rightarrow> string" where
  "render [] = []"
| "render ((t, seps) # ts) = token_text t @ concat (map sep_text seps) @ render ts"

fun wf_render :: "(sexp_token \<times> sep_item list) list \<Rightarrow> bool" where
  "wf_render [] = True"
| "wf_render ((t, seps) # ts) =
     (wf_token t \<and> list_all wf_sep seps \<and> wf_render ts
      \<and> (case t of Bare _ \<Rightarrow> stops (concat (map sep_text seps) @ render ts) | _ \<Rightarrow> True))"

lemma skip_block_body:
  "\<not> contains_sub body ''|#'' \<Longrightarrow> skip_block (body @ CHR ''|'' # CHR ''#'' # rest) = Some rest"
proof (induction body)
  case (Cons c cs)
  have "\<not> (c = CHR ''|'' \<and> (\<exists>ds. cs = CHR ''#'' # ds))"
    using Cons.prems by (metis append_Cons append_Nil contains_sub_iff)
  moreover have "\<not> contains_sub cs ''|#''"
    using Cons.prems by (metis append_Cons contains_sub_iff)
  ultimately show ?case using Cons.IH by (cases cs) auto
qed simp

lemma skip_line_body: "CHR 0x0A \<notin> set body \<Longrightarrow> skip_line (body @ CHR 0x0A # rest) = rest"
  by (induction body) auto

lemma scan_string_escape: "scan_string (escape s @ CHR 0x22 # rest) acc = Some (acc @ s, rest)"
  by (induction s arbitrary: acc) (auto simp: escape_def)

lemma tokenize_sep:
  "wf_sep i \<Longrightarrow> tokenize_loop (sep_text i @ rest) toks = tokenize_loop rest toks"
  by (cases i) (simp_all add: is_ascii_whitespace_def skip_block_body skip_line_body)

lemma tokenize_seps:
  "list_all wf_sep seps \<Longrightarrow>
   tokenize_loop (concat (map sep_text seps) @ rest) toks = tokenize_loop rest toks"
  by (induction seps) (simp_all add: tokenize_sep)

lemma bare_split:
  assumes "list_all (\<lambda>c. \<not> bare_stop c) s" "stops rest"
  shows "takeWhile (\<lambda>c. \<not> bare_stop c) (s @ rest) = s" "dropWhile (\<lambda>c. \<not> bare_stop c) (s @ rest) = rest"
  using assms by (induction s) (auto simp: stops_def split: list.splits)

lemma tokenize_token:
  assumes "wf_token t" "case t of Bare _ \<Rightarrow> stops rest | _ \<Rightarrow> True"
  shows "tokenize_loop (token_text t @ rest) toks = tokenize_loop rest (toks @ [token_value t])"
proof (cases t)
  case (Bare s)
  with assms obtain c cs where s: "s = c # cs" by (auto split: list.splits)
  from assms Bare have ns: "\<not> bare_stop c" "list_all (\<lambda>c. \<not> bare_stop c) cs" "stops rest" "c \<noteq> CHR '';''"
    by (auto simp: s)
  then have c: "\<not> is_ascii_whitespace c" "c \<noteq> CHR ''(''" "c \<noteq> CHR '')''" "c \<noteq> CHR 0x22"
    by (auto simp: bare_stop_def)
  show ?thesis
  proof (cases "c = CHR ''#''")
    case True
    have "\<not> (case cs @ rest of [] \<Rightarrow> False | d # _ \<Rightarrow> d = CHR ''|'')"
      using assms(1) ns(3) Bare True
      by (cases cs; cases rest) (auto simp: s stops_def bare_stop_def is_ascii_whitespace_def)
    with True Bare ns c bare_split [OF ns(2,3)] show ?thesis by (simp add: s)
  next
    case False
    with Bare ns c bare_split [OF ns(2,3)] show ?thesis by (simp add: s)
  qed
qed (use scan_string_escape [of _ rest "[]"] in \<open>auto simp: is_ascii_whitespace_def\<close>)

lemma tokenize_render:
  "wf_render ts \<Longrightarrow> tokenize_loop (render ts) toks = Inr (toks @ map (token_value \<circ> fst) ts)"
proof (induction ts arbitrary: toks rule: render.induct)
  case (2 t seps ts)
  then show ?case
    using tokenize_token [of t "concat (map sep_text seps) @ render ts" toks]
      tokenize_seps [of seps "render ts"]
    by simp
qed simp

section \<open>Properties\<close>

text \<open>The balance of a token list, and the depth loop of the source.\<close>

definition never_closes_more :: "nat \<Rightarrow> string list \<Rightarrow> bool" where
  "never_closes_more d toks =
     (\<forall>p. prefix p toks \<longrightarrow> count_list p '')'' \<le> d + count_list p ''('')"

definition balanced :: "string list \<Rightarrow> bool" where
  "balanced toks = (never_closes_more 0 toks \<and> count_list toks ''('' = count_list toks '')'')"

lemma never_closes_more_simps:
  "never_closes_more d []"
  "never_closes_more d (''('' # toks) = never_closes_more (Suc d) toks"
  "never_closes_more d ('')'' # toks) = (0 < d \<and> never_closes_more (d - 1) toks)"
  "t \<noteq> ''('' \<Longrightarrow> t \<noteq> '')'' \<Longrightarrow> never_closes_more d (t # toks) = never_closes_more d toks"
proof goal_cases
  case 3
  show ?case
  proof (cases d)
    case 0
    then show ?thesis
      by (auto simp: never_closes_more_def intro!: exI [of _ "['')'']"])
  next
    case (Suc n)
    then show ?thesis by (auto simp: never_closes_more_def prefix_Cons)
  qed
qed (auto simp: never_closes_more_def prefix_Cons)

lemma paren_depth_Inr:
  assumes "int d + int (length toks) < 2 ^ 31"
  shows "paren_depth rule (int d) toks = Inr e \<longleftrightarrow>
    never_closes_more d toks \<and> e + int (count_list toks '')'') = int d + int (count_list toks ''('')"
  using assms
proof (induction toks arbitrary: d)
  case (Cons t toks)
  consider "t = ''(''" | "t = '')''" | "t \<noteq> ''(''" "t \<noteq> '')''" by blast
  then show ?case
  proof cases
    case 1
    have "i32_clamp (int d + 1) = int (Suc d)" using Cons.prems by (simp add: i32_clamp_def)
    with 1 Cons.IH [of "Suc d"] Cons.prems show ?thesis by (auto simp: never_closes_more_simps)
  next
    case 2
    show ?thesis
    proof (cases d)
      case 0
      with 2 show ?thesis by (auto simp: never_closes_more_simps i32_clamp_def)
    next
      case (Suc n)
      have "i32_clamp (int d - 1) = int n" using Cons.prems Suc by (simp add: i32_clamp_def)
      with 2 Suc Cons.IH [of n] Cons.prems show ?thesis by (auto simp: never_closes_more_simps)
    qed
  next
    case 3
    with Cons.IH [of d] Cons.prems show ?thesis by (auto simp: never_closes_more_simps)
  qed
qed (auto simp: never_closes_more_simps)

lemma paren_depth_zero:
  "int (length toks) < 2 ^ 31 \<Longrightarrow> paren_depth rule 0 toks = Inr 0 \<longleftrightarrow> balanced toks"
  using paren_depth_Inr [of 0 toks rule 0] by (auto simp: balanced_def)

lemma set_windows:
  assumes "0 < n"
  shows "ws \<in> set (windows n xs) \<longleftrightarrow> length ws = n \<and> sublist ws xs"
proof (induction xs)
  case Nil
  with assms show ?case by auto
next
  case (Cons x xs)
  have pre: "ws = take n (x # xs) \<longleftrightarrow> length ws = n \<and> prefix ws (x # xs)" if "n \<le> length (x # xs)"
  proof
    assume w: "ws = take n (x # xs)"
    with that have "length ws = n" by simp
    with w show "length ws = n \<and> prefix ws (x # xs)" by (metis take_is_prefix)
  next
    assume "length ws = n \<and> prefix ws (x # xs)"
    then show "ws = take n (x # xs)" by (auto simp: prefix_def dest: sym)
  qed
  show ?case
  proof (cases "n \<le> length (x # xs)")
    case True
    then have "windows n (x # xs) = take n (x # xs) # windows n xs" by simp
    with pre [OF True] Cons show ?thesis unfolding sublist_Cons_right by auto
  next
    case False
    then have "\<not> sublist ws (x # xs)" if "length ws = n"
      using that sublist_length_le [of ws "x # xs"] by auto
    with False show ?thesis by auto
  qed
qed

definition grants_root :: "string list \<Rightarrow> bool" where
  "grants_root toks =
     (\<exists>k \<in> {''file-read*'', ''file-write*''}.
        sublist [''allow'', k, ''subpath'', ''/''] (content_tokens toks))"

lemma root_window_iff:
  "length w = 4 \<Longrightarrow>
   root_window w \<longleftrightarrow> (\<exists>k \<in> {''file-read*'', ''file-write*''}. w = [''allow'', k, ''subpath'', ''/''])"
proof -
  assume "length w = 4"
  then obtain a b c d where "w = [a, b, c, d]" by (auto simp: length_Suc_conv numeral_eq_Suc)
  then show ?thesis by (auto simp: root_window_def)
qed

lemma find_root_window:
  "find root_window (windows 4 (content_tokens toks)) = None \<longleftrightarrow> \<not> grants_root toks"
proof -
  have len: "length [''allow'', k, ''subpath'', ''/''] = 4" for k :: string by simp
  have "(\<exists>w \<in> set (windows 4 (content_tokens toks)). root_window w) \<longleftrightarrow>
      (\<exists>w. length w = 4 \<and> sublist w (content_tokens toks) \<and> root_window w)"
    using set_windows [of 4 _ "content_tokens toks"] by auto
  also have "\<dots> \<longleftrightarrow> grants_root toks"
    unfolding grants_root_def using root_window_iff len by metis
  finally show ?thesis unfolding find_None_iff by blast
qed

text \<open>
  The verdict on a rule depends on its tokens alone: however white space, block comments and
  line comments are laid out between the tokens, a rule that opens with a parenthesis is accepted
  exactly when its parentheses balance and no \<open>allow file-read*\<close> or \<open>allow file-write*\<close> of the
  subpath \<open>/\<close> occurs among its other tokens, and it is refused otherwise.
\<close>

theorem validate_platform_rule_tokens:
  assumes "trim_str rule = render ((Par True, seps) # ts)" "wf_render ((Par True, seps) # ts)"
    and "length ts < 2 ^ 31 - 1"
    and "toks = ''('' # map (token_value \<circ> fst) ts"
  shows "validate_platform_rule rule = Inr () \<longleftrightarrow> balanced toks \<and> \<not> grants_root toks"
proof -
  have t: "tokenize_sexp (trim_str rule) = Inr toks"
    using tokenize_render [OF assms(2), of "[]"] assms(1,4) by (simp add: tokenize_sexp_def)
  have s: "starts_with (trim_str rule) ''(''" using assms(1) by (simp add: starts_with_iff)
  have d: "paren_depth rule 0 toks = Inr 0 \<longleftrightarrow> balanced toks"
    using assms(3,4) by (intro paren_depth_zero) auto
  have v: "validate_platform_rule rule = Inr () \<longleftrightarrow>
      (\<exists>e. paren_depth rule 0 toks = Inr e \<and> e = 0
           \<and> find root_window (windows 4 (content_tokens toks)) = None)"
    unfolding validate_platform_rule_def Let_def
    by (simp add: s t and_then_Inr split: option.split)
  show ?thesis
    unfolding v using d find_root_window [of toks] by blast
qed

theorem validate_platform_rule_tokens_witness:
  "validate_platform_rule ('' (allow #| x |# file-read*  (subpath '' @ [CHR 0x22] @ ''/'' @ [CHR 0x22] @ ''))'')
     \<noteq> Inr ()
   \<and> grants_root [''('', ''allow'', ''file-read*'', ''('', ''subpath'', ''/'', '')'', '')'']"
proof -
  let ?rule = "'' (allow #| x |# file-read*  (subpath '' @ [CHR 0x22] @ ''/'' @ [CHR 0x22] @ ''))''"
  let ?ts = "[(Bare ''allow'', [WS CHR '' '', BlockC '' x '', WS CHR '' '']),
     (Bare ''file-read*'', [WS CHR '' '', WS CHR '' '']), (Par True, []),
     (Bare ''subpath'', [WS CHR '' '']), (Str ''/'', []), (Par False, []), (Par False, [])]"
  have t: "trim_str ?rule = render ((Par True, []) # ?ts)" by code_simp
  have w: "wf_render ((Par True, []) # ?ts)" by code_simp
  have "grants_root [''('', ''allow'', ''file-read*'', ''('', ''subpath'', ''/'', '')'', '')'']"
    by code_simp
  with validate_platform_rule_tokens [OF t w _ refl] show ?thesis by simp
qed


end
