(* ===== verification/Resource.thy ===== *)
theory Resource
  imports Nono_Error
begin

text \<open>
  Resource limits (\<open>crates/nono/src/resource/mod.rs\<close>): the limits record and \<open>parse_size\<close>, which
  reads sizes such as \<open>512M\<close>. Values are 64-bit words and the product with the unit is checked.
  \<open>format_bytes\<close> divides in floating point for display and is not modelled.
\<close>

record resource_limits =
  memory_bytes :: "u64 option"
  max_processes :: "u64 option"

definition limits_is_empty :: "resource_limits \<Rightarrow> bool" where
  "limits_is_empty l = (memory_bytes l = None \<and> max_processes l = None)"

definition unit_multiplier :: "string \<Rightarrow> u64 option" where
  "unit_multiplier u =
     (if u \<in> {'''', ''b''} then Some 1
      else if u \<in> {''k'', ''ki'', ''kib''} then Some (1024 ^ 1)
      else if u = ''kb'' then Some (1000 ^ 1)
      else if u \<in> {''m'', ''mi'', ''mib''} then Some (1024 ^ 2)
      else if u = ''mb'' then Some (1000 ^ 2)
      else if u \<in> {''g'', ''gi'', ''gib''} then Some (1024 ^ 3)
      else if u = ''gb'' then Some (1000 ^ 3)
      else if u \<in> {''t'', ''ti'', ''tib''} then Some (1024 ^ 4)
      else if u = ''tb'' then Some (1000 ^ 4)
      else None)"

definition parse_size :: "string \<Rightarrow> u64 res" where
  "parse_size input =
     (let s = trim_str input in
      if s = [] then Inl (ConfigParse ''size cannot be empty'')
      else
        let num_str = takeWhile is_ascii_digit s;
            unit = dropWhile is_ascii_digit s
        in if num_str = [] then
             Inl (ConfigParse (''invalid size '' @ quoted input @ '': missing numeric value ''
               @ ''(decimals are not supported, e.g. use 512M not 0.5G)''))
           else (case parse_digits (2 ^ 64) num_str of
               None \<Rightarrow> Inl (ConfigParse (''invalid size '' @ quoted input @ '': '' @ quoted num_str
                         @ '' is not a valid integer''))
             | Some value \<Rightarrow>
                 (let other = to_ascii_lowercase (trim_str unit) in
                  case unit_multiplier other of
                    None \<Rightarrow> Inl (ConfigParse (''invalid size '' @ quoted input @ '': unknown unit ''
                              @ quoted other @ '' (use B, K/KiB, M/MiB, G/GiB, T/TiB)''))
                  | Some multiplier \<Rightarrow>
                      (case checked_mul (of_nat value) multiplier of
                         None \<Rightarrow> Inl (ConfigParse (''size '' @ quoted input
                                   @ '' overflows a 64-bit byte count''))
                       | Some bytes \<Rightarrow>
                           if bytes = 0
                           then Inl (ConfigParse (''size '' @ quoted input @ '' must be greater than zero''))
                           else Inr bytes))))"

section \<open>Properties\<close>

lemma multiplier_pos: "unit_multiplier u = Some m \<Longrightarrow> 0 < unat m"
  by (auto simp: unit_multiplier_def split: if_splits)

lemma takeWhile_digits:
  assumes "list_all is_ascii_digit d" "u = [] \<or> \<not> is_ascii_digit (hd u)"
  shows "takeWhile is_ascii_digit (d @ u) = d" "dropWhile is_ascii_digit (d @ u) = u"
  using assms by (induction d) (cases u; simp)+

lemma digit_not_space: "is_ascii_digit c \<Longrightarrow> \<not> is_whitespace [c] \<and> byte c < 128"
  by (auto simp: is_ascii_digit_def)

text \<open>The number at the front of a size and the unit behind it.\<close>

abbreviation size_digits :: "string \<Rightarrow> string" where
  "size_digits input \<equiv> takeWhile is_ascii_digit (trim_str input)"

abbreviation size_unit :: "string \<Rightarrow> string" where
  "size_unit input \<equiv> to_ascii_lowercase (trim_str (dropWhile is_ascii_digit (trim_str input)))"

lemma parse_size_branches:
  "parse_size input = Inr n \<longleftrightarrow>
   size_digits input \<noteq> [] \<and> n \<noteq> 0 \<and>
   (\<exists>v m. parse_digits (2 ^ 64) (size_digits input) = Some v
        \<and> unit_multiplier (size_unit input) = Some m \<and> checked_mul (of_nat v) m = Some n)"
  unfolding parse_size_def Let_def by (simp split: option.split) auto

lemma parse_size_iff:
  "parse_size input = Inr n \<longleftrightarrow>
   (\<exists>m. size_digits input \<noteq> [] \<and> unit_multiplier (size_unit input) = Some m
      \<and> unat n = digits_value 0 (size_digits input) * unat m \<and> 0 < unat n)"
  (is "?L \<longleftrightarrow> (\<exists>m. ?R m)")
proof -
  let ?d = "size_digits input"
  have digits: "list_all is_ascii_digit ?d" by (auto simp: list_all_iff dest: set_takeWhileD)
  have "?R m \<longleftrightarrow> ?d \<noteq> [] \<and> n \<noteq> 0 \<and> unit_multiplier (size_unit input) = Some m
      \<and> (\<exists>v. parse_digits (2 ^ 64) ?d = Some v \<and> checked_mul (of_nat v) m = Some n)" for m
  proof (cases "digits_value 0 ?d < 2 ^ 64")
    case True
    then have pd: "parse_digits (2 ^ 64) ?d = (if ?d \<noteq> [] then Some (digits_value 0 ?d) else None)"
      using digits by (simp add: parse_digits_def)
    have "unat n < 2 ^ 64" by (rule order.strict_trans2 [OF unsigned_less]) simp
    then show ?thesis
      unfolding unat_gt_0 pd checked_mul_Some using unat_of_nat_u64 [OF True] by auto
  next
    case False
    have "unat n < 2 ^ 64" by (rule order.strict_trans2 [OF unsigned_less]) simp
    moreover have "digits_value 0 ?d \<le> unat n" if "?R m"
      using that multiplier_pos [of "size_unit input" m] by (metis Suc_leI mult.right_neutral mult_le_mono2 One_nat_def)
    ultimately have "\<not> ?R m" using False by linarith
    with False show ?thesis by (auto simp: parse_digits_def)
  qed
  then show ?thesis unfolding parse_size_branches by blast
qed

text \<open>
  \<open>parse_size\<close> accepts an input exactly when, after trimming, it is a number followed by a known
  unit and the product is positive and fits 64 bits; the result is then that product, never a
  wrapped value.
\<close>

theorem parse_size_correct:
  "parse_size input = Inr n \<longleftrightarrow>
   (\<exists>m. size_digits input \<noteq> [] \<and> unit_multiplier (size_unit input) = Some m
      \<and> unat n = digits_value 0 (size_digits input) * unat m \<and> 0 < unat n)"
  by (rule parse_size_iff)

definition known_units :: "string list" where
  "known_units = ['''', ''b'', ''k'', ''ki'', ''kib'', ''kb'', ''m'', ''mi'', ''mib'', ''mb'',
     ''g'', ''gi'', ''gib'', ''gb'', ''t'', ''ti'', ''tib'', ''tb'']"

definition plain_unit :: "string \<Rightarrow> bool" where
  "plain_unit u =
     (trim_str u = u \<and> to_ascii_lowercase u = u \<and> ascii u
      \<and> (u \<noteq> [] \<longrightarrow> \<not> is_ascii_digit (hd u) \<and> \<not> is_whitespace [last u]))"

lemma plain_units: "list_all plain_unit known_units"
  by code_simp

lemma unit_plain: "unit_multiplier u = Some m \<Longrightarrow> plain_unit u"
  using plain_units
  by (auto simp: unit_multiplier_def known_units_def split: if_splits)

lemma size_parts_show:
  assumes "unit_multiplier u = Some m"
  shows "size_digits (show_nat n @ u) = show_nat n" "size_unit (show_nat n @ u) = u"
proof -
  have u: "plain_unit u" using assms by (rule unit_plain)
  have d: "list_all is_ascii_digit (show_nat n)" "show_nat n \<noteq> []" using show_nat_digits by auto
  have "ascii (show_nat n)" using d(1) digit_not_space by (auto simp: ascii_def list_all_iff)
  moreover have "is_ascii_digit (hd (show_nat n))" "is_ascii_digit (last (show_nat n))"
    using d by (auto simp: list_all_iff)
  ultimately have "trim_str (show_nat n @ u) = show_nat n @ u"
    using u d digit_not_space
    by (intro trim_ascii_id) (auto simp: plain_unit_def last_append simp del: is_whitespace.simps)
  moreover have "u = [] \<or> \<not> is_ascii_digit (hd u)" using u by (auto simp: plain_unit_def)
  note takeWhile_digits [OF d(1) this]
  ultimately show "size_digits (show_nat n @ u) = show_nat n" "size_unit (show_nat n @ u) = u"
    using u by (simp_all only: plain_unit_def)
qed

text \<open>
  A size written as a decimal number directly followed by a unit in lower case reads back as
  the product when that is positive and fits 64 bits, and is an error otherwise.
\<close>

theorem parse_size_roundtrip:
  assumes "unit_multiplier u = Some m"
  shows "if 0 < n * unat m \<and> n * unat m < 2 ^ 64
         then parse_size (show_nat n @ u) = Inr (of_nat (n * unat m))
         else \<exists>e. parse_size (show_nat n @ u) = Inl e"
proof (cases "0 < n * unat m \<and> n * unat m < 2 ^ 64")
  case True
  then have "unat (of_nat (n * unat m) :: u64) = n * unat m" by (intro unat_of_nat_u64) simp
  with True show ?thesis
    using parse_size_iff [of "show_nat n @ u" "of_nat (n * unat m)"] assms size_parts_show [OF assms]
      show_nat_digits [of n]
    by (simp add: digits_value_show_nat del: of_nat_mult)
next
  case False
  have "parse_size (show_nat n @ u) \<noteq> Inr b" for b
  proof
    assume "parse_size (show_nat n @ u) = Inr b"
    then have "unat b = n * unat m" "0 < unat b"
      using parse_size_iff [of "show_nat n @ u" b] assms size_parts_show [OF assms]
      by (auto simp: digits_value_show_nat)
    moreover have "unat b < 2 ^ 64" by (rule order.strict_trans2 [OF unsigned_less]) simp
    ultimately show False using False by simp
  qed
  then show ?thesis using False by (metis (full_types) old.sum.exhaust)
qed

theorem parse_size_roundtrip_witness:
  "unit_multiplier ''m'' = Some 1048576 \<and> parse_size (show_nat 512 @ ''m'') = Inr 536870912"
proof -
  have m: "unit_multiplier ''m'' = Some 1048576" by (simp add: unit_multiplier_def)
  from parse_size_roundtrip [OF m, of 512] m show ?thesis by simp
qed

end
