(* ===== verification/Capability.thy ===== *)
theory Capability
  imports Port_Ranges Platform_Rule Resource
begin

text \<open>
  The capability model (\<open>crates/nono/src/capability.rs\<close>): filesystem and AF\_UNIX socket
  capabilities with their constructors, the capability set with its builders and mutators, and
  the queries on it. The host is Linux: code under \<open>cfg(target_os = "macos")\<close> is left out. The
  constructors look at the host (\<open>canonicalize\<close>, \<open>is_dir\<close>, \<open>metadata\<close>), which is an argument; the
  builders \<open>fn f(mut self, ...)\<close> and the mutators \<open>fn f(&mut self, ...)\<close> return the updated set.
\<close>

section \<open>Capabilities\<close>

datatype capability_source = User | Profile | Group string | System

fun is_user_intent :: "capability_source \<Rightarrow> bool" where
  "is_user_intent User = True"
| "is_user_intent Profile = True"
| "is_user_intent (Group _) = False"
| "is_user_intent System = False"

fun source_display :: "capability_source \<Rightarrow> string" where
  "source_display User = ''user''"
| "source_display Profile = ''profile''"
| "source_display (Group name) = ''group:'' @ name"
| "source_display System = ''system''"

record fs_capability =
  fc_original :: path
  fc_resolved :: path
  fc_access :: access_mode
  fc_is_file :: bool
  fc_source :: capability_source

definition canonicalize_err :: "path \<Rightarrow> io_error \<Rightarrow> nono_error" where
  "canonicalize_err p e = (if e = NotFound then PathNotFound p else PathCanonicalization p e)"

definition fs_new_dir :: "host \<Rightarrow> path \<Rightarrow> access_mode \<Rightarrow> fs_capability res" where
  "fs_new_dir h path access =
     and_then (map_err (canonicalize_err path) (canonicalize h path)) (\<lambda>resolved.
       if \<not> is_dir h resolved then Inl (ExpectedDirectory path)
       else Inr \<lparr>fc_original = path, fc_resolved = resolved, fc_access = access,
                 fc_is_file = False, fc_source = User\<rparr>)"

definition fs_new_file :: "host \<Rightarrow> path \<Rightarrow> access_mode \<Rightarrow> fs_capability res" where
  "fs_new_file h path access =
     and_then (map_err (canonicalize_err path) (canonicalize h path)) (\<lambda>resolved.
       if is_dir h resolved then Inl (ExpectedFile path)
       else Inr \<lparr>fc_original = path, fc_resolved = resolved, fc_access = access,
                 fc_is_file = True, fc_source = User\<rparr>)"

definition fs_display :: "fs_capability \<Rightarrow> string" where
  "fs_display cap = fc_resolved cap @ '' ('' @ access_display (fc_access cap) @ '')''"

section \<open>Unix socket capabilities\<close>

datatype unix_socket_mode = Connect | ConnectBind

fun permits_bind :: "unix_socket_mode \<Rightarrow> bool" where
  "permits_bind ConnectBind = True"
| "permits_bind Connect = False"

fun socket_mode_display :: "unix_socket_mode \<Rightarrow> string" where
  "socket_mode_display Connect = ''connect''"
| "socket_mode_display ConnectBind = ''connect+bind''"

datatype unix_socket_op = OpConnect | OpBind | OpSend

fun socket_op_display :: "unix_socket_op \<Rightarrow> string" where
  "socket_op_display OpConnect = ''connect''"
| "socket_op_display OpBind = ''bind''"
| "socket_op_display OpSend = ''send''"

datatype socket_scope = ScopeFile | DirChildren | DirSubtree

fun scope_label :: "socket_scope \<Rightarrow> string" where
  "scope_label ScopeFile = ''file''"
| "scope_label DirChildren = ''dir-children''"
| "scope_label DirSubtree = ''dir-subtree''"

fun scope_is_directory :: "socket_scope \<Rightarrow> bool" where
  "scope_is_directory ScopeFile = False"
| "scope_is_directory DirChildren = True"
| "scope_is_directory DirSubtree = True"

record unix_socket_capability =
  us_original :: path
  us_resolved :: path
  us_scope :: socket_scope
  us_mode :: unix_socket_mode
  us_source :: capability_source

text \<open>The wire form accepts the older field \<open>is_directory\<close> when \<open>scope\<close> is absent.\<close>

definition socket_of_wire ::
  "path \<Rightarrow> path \<Rightarrow> socket_scope option \<Rightarrow> bool option \<Rightarrow> unix_socket_mode \<Rightarrow>
   capability_source option \<Rightarrow> unix_socket_capability" where
  "socket_of_wire original resolved scope is_directory mode source =
     \<lparr>us_original = original, us_resolved = resolved,
      us_scope = (case scope of Some s \<Rightarrow> s
                  | None \<Rightarrow> if is_directory = Some True then DirChildren else ScopeFile),
      us_mode = mode, us_source = (case source of Some s \<Rightarrow> s | None \<Rightarrow> User)\<rparr>"

definition socket_new_file ::
  "host \<Rightarrow> path \<Rightarrow> unix_socket_mode \<Rightarrow> unix_socket_capability res" where
  "socket_new_file h path mode =
     and_then
       (case canonicalize h path of
          Inr p \<Rightarrow>
            and_then (map_err (PathCanonicalization path) (metadata h p)) (\<lambda>m.
              if m \<noteq> SockN then Inl (ExpectedUnixSocket path) else Inr p)
        | Inl e \<Rightarrow>
            if e = NotFound then
              if \<not> permits_bind mode then Inl (PathNotFound path)
              else
                and_then (ok_or (PathCanonicalization path
                            (InvalidInput ''socket path has no parent directory'')) (parent path))
                  (\<lambda>par.
                and_then (ok_or (PathCanonicalization path
                            (InvalidInput ''socket path has no final component'')) (file_name path))
                  (\<lambda>name.
                and_then (map_err (canonicalize_err par) (canonicalize h par)) (\<lambda>resolved_parent.
                  if \<not> is_dir h resolved_parent then Inl (ExpectedDirectory par)
                  else Inr (join resolved_parent name))))
            else Inl (PathCanonicalization path e))
       (\<lambda>resolved. Inr \<lparr>us_original = path, us_resolved = resolved, us_scope = ScopeFile,
                        us_mode = mode, us_source = User\<rparr>)"

definition socket_new_dir_with_scope ::
  "host \<Rightarrow> path \<Rightarrow> unix_socket_mode \<Rightarrow> socket_scope \<Rightarrow> unix_socket_capability res" where
  "socket_new_dir_with_scope h path mode scope =
     (if \<not> scope_is_directory scope
      then Inl (SandboxInit ''unix socket directory constructor requires a directory scope'')
      else and_then (map_err (canonicalize_err path) (canonicalize h path)) (\<lambda>resolved.
             if \<not> is_dir h resolved then Inl (ExpectedDirectory path)
             else if parent resolved = None
             then Inl (SandboxInit ''unix socket directory grant at filesystem root is not permitted'')
             else Inr \<lparr>us_original = path, us_resolved = resolved, us_scope = scope,
                       us_mode = mode, us_source = User\<rparr>))"

definition socket_new_dir :: "host \<Rightarrow> path \<Rightarrow> unix_socket_mode \<Rightarrow> unix_socket_capability res" where
  "socket_new_dir h path mode = socket_new_dir_with_scope h path mode DirChildren"

definition socket_new_dir_subtree ::
  "host \<Rightarrow> path \<Rightarrow> unix_socket_mode \<Rightarrow> unix_socket_capability res" where
  "socket_new_dir_subtree h path mode = socket_new_dir_with_scope h path mode DirSubtree"

definition covers :: "unix_socket_capability \<Rightarrow> path \<Rightarrow> bool" where
  "covers cap sockaddr_path =
     (case us_scope cap of
        ScopeFile \<Rightarrow> path_eq sockaddr_path (us_resolved cap)
      | DirChildren \<Rightarrow>
          (case parent sockaddr_path of None \<Rightarrow> False | Some p \<Rightarrow> path_eq p (us_resolved cap))
      | DirSubtree \<Rightarrow>
          \<not> path_eq sockaddr_path (us_resolved cap)
          \<and> path_starts_with sockaddr_path (us_resolved cap))"

definition socket_is_directory :: "unix_socket_capability \<Rightarrow> bool" where
  "socket_is_directory cap = scope_is_directory (us_scope cap)"

definition socket_display :: "unix_socket_capability \<Rightarrow> string" where
  "socket_display cap =
     scope_label (us_scope cap) @ '' '' @ us_resolved cap @ '' ('' @ socket_mode_display (us_mode cap)
       @ '')''"

section \<open>Process and network modes\<close>

datatype signal_mode = SignalIsolated | SignalAllowSameSandbox | SignalAllowAll

datatype process_info_mode = InfoIsolated | InfoAllowSameSandbox | InfoAllowAll

datatype ipc_mode = SharedMemoryOnly | IpcFull

datatype network_mode = Blocked | AllowAll | ProxyOnly u16 "u16 list"

definition show_port :: "u16 \<Rightarrow> string" where
  "show_port p = show_nat (unat p)"

fun network_mode_display :: "network_mode \<Rightarrow> string" where
  "network_mode_display Blocked = ''blocked''"
| "network_mode_display AllowAll = ''allowed''"
| "network_mode_display (ProxyOnly port bind_ports) =
     (if bind_ports = [] then ''proxy-only (localhost:'' @ show_port port @ '')''
      else ''proxy-only (localhost:'' @ show_port port @ '', bind: ''
             @ join_with '', '' (map show_port bind_ports) @ '')'')"

section \<open>The capability set\<close>

record capability_set =
  fs :: "fs_capability list"
  unix_sockets :: "unix_socket_capability list"
  network_mode :: network_mode
  dns_blocked :: bool
  tcp_connect_ports :: "u16 list"
  tcp_bind_ports :: "u16 list"
  localhost_ports :: "u16 list"
  localhost_port_ranges :: "(u16 \<times> u16) list"
  allowed_commands :: "string list"
  blocked_commands :: "string list"
  platform_rules :: "string list"
  signal_mode :: signal_mode
  process_info_mode :: process_info_mode
  ipc_mode :: ipc_mode
  extensions_enabled :: bool
  seatbelt_debug_deny :: bool
  resource_limits :: "resource_limits option"

definition new_caps :: capability_set where
  "new_caps = \<lparr>fs = [], unix_sockets = [], network_mode = AllowAll, dns_blocked = False,
     tcp_connect_ports = [], tcp_bind_ports = [], localhost_ports = [], localhost_port_ranges = [],
     allowed_commands = [], blocked_commands = [], platform_rules = [],
     signal_mode = SignalIsolated, process_info_mode = InfoIsolated, ipc_mode = SharedMemoryOnly,
     extensions_enabled = False, seatbelt_debug_deny = False, resource_limits = None\<rparr>"

subsection \<open>Builders\<close>

definition push_fs :: "fs_capability \<Rightarrow> capability_set \<Rightarrow> capability_set" where
  "push_fs cap s = s\<lparr>fs := fs s @ [cap]\<rparr>"

definition push_unix_socket :: "unix_socket_capability \<Rightarrow> capability_set \<Rightarrow> capability_set" where
  "push_unix_socket cap s = s\<lparr>unix_sockets := unix_sockets s @ [cap]\<rparr>"

definition allow_path :: "host \<Rightarrow> path \<Rightarrow> access_mode \<Rightarrow> capability_set \<Rightarrow> capability_set res" where
  "allow_path h path mode s = and_then (fs_new_dir h path mode) (\<lambda>cap. Inr (push_fs cap s))"

definition allow_file :: "host \<Rightarrow> path \<Rightarrow> access_mode \<Rightarrow> capability_set \<Rightarrow> capability_set res" where
  "allow_file h path mode s = and_then (fs_new_file h path mode) (\<lambda>cap. Inr (push_fs cap s))"

definition allow_unix_socket ::
  "host \<Rightarrow> path \<Rightarrow> unix_socket_mode \<Rightarrow> capability_set \<Rightarrow> capability_set res" where
  "allow_unix_socket h path mode s =
     and_then (socket_new_file h path mode) (\<lambda>cap. Inr (push_unix_socket cap s))"

definition allow_unix_socket_dir ::
  "host \<Rightarrow> path \<Rightarrow> unix_socket_mode \<Rightarrow> capability_set \<Rightarrow> capability_set res" where
  "allow_unix_socket_dir h path mode s =
     and_then (socket_new_dir h path mode) (\<lambda>cap. Inr (push_unix_socket cap s))"

definition allow_unix_socket_subtree ::
  "host \<Rightarrow> path \<Rightarrow> unix_socket_mode \<Rightarrow> capability_set \<Rightarrow> capability_set res" where
  "allow_unix_socket_subtree h path mode s =
     and_then (socket_new_dir_subtree h path mode) (\<lambda>cap. Inr (push_unix_socket cap s))"

definition block_network :: "capability_set \<Rightarrow> capability_set" where
  "block_network s = s\<lparr>network_mode := Blocked\<rparr>"

definition block_dns :: "capability_set \<Rightarrow> capability_set" where
  "block_dns s = s\<lparr>dns_blocked := True\<rparr>"

definition set_network_mode :: "network_mode \<Rightarrow> capability_set \<Rightarrow> capability_set" where
  "set_network_mode mode s = s\<lparr>network_mode := mode\<rparr>"

definition with_resource_limits :: "resource_limits \<Rightarrow> capability_set \<Rightarrow> capability_set" where
  "with_resource_limits limits s = s\<lparr>resource_limits := Some limits\<rparr>"

definition proxy_only :: "u16 \<Rightarrow> capability_set \<Rightarrow> capability_set" where
  "proxy_only port s = s\<lparr>network_mode := ProxyOnly port []\<rparr>"

definition proxy_only_with_bind :: "u16 \<Rightarrow> u16 list \<Rightarrow> capability_set \<Rightarrow> capability_set" where
  "proxy_only_with_bind proxy_port bind_ports s = s\<lparr>network_mode := ProxyOnly proxy_port bind_ports\<rparr>"

definition allow_tcp_connect :: "u16 \<Rightarrow> capability_set \<Rightarrow> capability_set" where
  "allow_tcp_connect port s = s\<lparr>tcp_connect_ports := tcp_connect_ports s @ [port]\<rparr>"

definition allow_tcp_bind :: "u16 \<Rightarrow> capability_set \<Rightarrow> capability_set" where
  "allow_tcp_bind port s = s\<lparr>tcp_bind_ports := tcp_bind_ports s @ [port]\<rparr>"

definition allow_localhost_port :: "u16 \<Rightarrow> capability_set \<Rightarrow> capability_set" where
  "allow_localhost_port port s = s\<lparr>localhost_ports := localhost_ports s @ [port]\<rparr>"

definition allow_localhost_port_range :: "u16 \<Rightarrow> u16 \<Rightarrow> capability_set \<Rightarrow> capability_set res" where
  "allow_localhost_port_range start end' s =
     (if start = 0 then Inl (ConfigParse
        ''port range starting at 0 is invalid; port 0 has no defined meaning in a range'')
      else if end' = 0 then Inl (ConfigParse
        ''port range ending at 0 is invalid; port 0 has no defined meaning in a range'')
      else if end' < start then Inl (ConfigParse
        (''port range end '' @ show_port end' @ '' is less than start '' @ show_port start))
      else Inr (s\<lparr>localhost_port_ranges := localhost_port_ranges s @ [(start, end')]\<rparr>))"

definition allow_https :: "capability_set \<Rightarrow> capability_set" where
  "allow_https s = allow_tcp_connect 8443 (allow_tcp_connect 443 s)"

definition set_signal_mode :: "signal_mode \<Rightarrow> capability_set \<Rightarrow> capability_set" where
  "set_signal_mode mode s = s\<lparr>signal_mode := mode\<rparr>"

definition set_process_info_mode :: "process_info_mode \<Rightarrow> capability_set \<Rightarrow> capability_set" where
  "set_process_info_mode mode s = s\<lparr>process_info_mode := mode\<rparr>"

definition set_ipc_mode :: "ipc_mode \<Rightarrow> capability_set \<Rightarrow> capability_set" where
  "set_ipc_mode mode s = s\<lparr>ipc_mode := mode\<rparr>"

definition allow_signals :: "capability_set \<Rightarrow> capability_set" where
  "allow_signals s = s\<lparr>signal_mode := SignalAllowAll\<rparr>"

definition enable_extensions :: "capability_set \<Rightarrow> capability_set" where
  "enable_extensions s = s\<lparr>extensions_enabled := True\<rparr>"

definition allow_command :: "string \<Rightarrow> capability_set \<Rightarrow> capability_set" where
  "allow_command cmd s = s\<lparr>allowed_commands := allowed_commands s @ [cmd]\<rparr>"

definition block_command :: "string \<Rightarrow> capability_set \<Rightarrow> capability_set" where
  "block_command cmd s = s\<lparr>blocked_commands := blocked_commands s @ [cmd]\<rparr>"

definition platform_rule :: "string \<Rightarrow> capability_set \<Rightarrow> capability_set res" where
  "platform_rule rule s =
     and_then (validate_platform_rule rule) (\<lambda>_. Inr (s\<lparr>platform_rules := platform_rules s @ [rule]\<rparr>))"

subsection \<open>Mutators\<close>

definition allow_file_mut ::
  "host \<Rightarrow> path \<Rightarrow> access_mode \<Rightarrow> capability_set \<Rightarrow> capability_set res" where
  "allow_file_mut h path mode s = and_then (fs_new_file h path mode) (\<lambda>cap. Inr (push_fs cap s))"

definition add_fs :: "fs_capability \<Rightarrow> capability_set \<Rightarrow> capability_set" where
  "add_fs cap s = push_fs cap s"

definition add_unix_socket :: "unix_socket_capability \<Rightarrow> capability_set \<Rightarrow> capability_set" where
  "add_unix_socket cap s = push_unix_socket cap s"

definition set_network_blocked :: "bool \<Rightarrow> capability_set \<Rightarrow> capability_set" where
  "set_network_blocked blocked s = s\<lparr>network_mode := (if blocked then Blocked else AllowAll)\<rparr>"

definition set_network_mode_mut :: "network_mode \<Rightarrow> capability_set \<Rightarrow> capability_set" where
  "set_network_mode_mut mode s = s\<lparr>network_mode := mode\<rparr>"

definition set_signal_mode_mut :: "signal_mode \<Rightarrow> capability_set \<Rightarrow> capability_set" where
  "set_signal_mode_mut mode s = s\<lparr>signal_mode := mode\<rparr>"

definition set_process_info_mode_mut :: "process_info_mode \<Rightarrow> capability_set \<Rightarrow> capability_set" where
  "set_process_info_mode_mut mode s = s\<lparr>process_info_mode := mode\<rparr>"

definition set_ipc_mode_mut :: "ipc_mode \<Rightarrow> capability_set \<Rightarrow> capability_set" where
  "set_ipc_mode_mut mode s = s\<lparr>ipc_mode := mode\<rparr>"

definition add_tcp_connect_port :: "u16 \<Rightarrow> capability_set \<Rightarrow> capability_set" where
  "add_tcp_connect_port port s = s\<lparr>tcp_connect_ports := tcp_connect_ports s @ [port]\<rparr>"

definition add_tcp_bind_port :: "u16 \<Rightarrow> capability_set \<Rightarrow> capability_set" where
  "add_tcp_bind_port port s = s\<lparr>tcp_bind_ports := tcp_bind_ports s @ [port]\<rparr>"

definition add_localhost_port :: "u16 \<Rightarrow> capability_set \<Rightarrow> capability_set" where
  "add_localhost_port port s = s\<lparr>localhost_ports := localhost_ports s @ [port]\<rparr>"

definition add_localhost_port_range :: "u16 \<Rightarrow> u16 \<Rightarrow> capability_set \<Rightarrow> capability_set res" where
  "add_localhost_port_range start end' s =
     (if start = 0 then Inl (ConfigParse
        ''port range starting at 0 is invalid; port 0 has no defined meaning in a range'')
      else if end' = 0 then Inl (ConfigParse
        ''port range ending at 0 is invalid; port 0 has no defined meaning in a range'')
      else if end' < start then Inl (ConfigParse
        (''port range end '' @ show_port end' @ '' is less than start '' @ show_port start))
      else Inr (s\<lparr>localhost_port_ranges := localhost_port_ranges s @ [(start, end')]\<rparr>))"

definition set_extensions_enabled :: "bool \<Rightarrow> capability_set \<Rightarrow> capability_set" where
  "set_extensions_enabled enabled s = s\<lparr>extensions_enabled := enabled\<rparr>"

definition set_seatbelt_debug_deny :: "bool \<Rightarrow> capability_set \<Rightarrow> capability_set" where
  "set_seatbelt_debug_deny enabled s = s\<lparr>seatbelt_debug_deny := enabled\<rparr>"

definition add_allowed_command :: "string \<Rightarrow> capability_set \<Rightarrow> capability_set" where
  "add_allowed_command cmd s = s\<lparr>allowed_commands := allowed_commands s @ [cmd]\<rparr>"

definition add_blocked_command :: "string \<Rightarrow> capability_set \<Rightarrow> capability_set" where
  "add_blocked_command cmd s = s\<lparr>blocked_commands := blocked_commands s @ [cmd]\<rparr>"

definition add_platform_rule :: "string \<Rightarrow> capability_set \<Rightarrow> capability_set res" where
  "add_platform_rule rule s =
     and_then (validate_platform_rule rule) (\<lambda>_. Inr (s\<lparr>platform_rules := platform_rules s @ [rule]\<rparr>))"

text \<open>Returns the number of removed capabilities besides the set.\<close>

definition remove_exact_file_caps_for_paths :: "path list \<Rightarrow> capability_set \<Rightarrow> capability_set \<times> nat" where
  "remove_exact_file_caps_for_paths denied_paths s =
     (let kept = filter (\<lambda>cap. \<not> fc_is_file cap \<or>
            \<not> list_ex (\<lambda>denied. path_eq (fc_original cap) denied \<or> path_eq (fc_resolved cap) denied)
                denied_paths) (fs s)
      in (s\<lparr>fs := kept\<rparr>, length (fs s) - length kept))"

subsection \<open>Queries\<close>

record covering_capabilities =
  best_covering :: "fs_capability option"
  best_sufficient :: "fs_capability option"
  best_read :: "fs_capability option"
  best_write :: "fs_capability option"

text \<open>One candidate slot of the scan: the capability and its score; a later one wins on a tie.\<close>

definition better :: "fs_capability \<Rightarrow> fs_capability option \<times> nat \<Rightarrow> fs_capability option \<times> nat" where
  "better cap slot =
     (let score = length (fc_resolved cap) in if score \<ge> snd slot then (Some cap, score) else slot)"

record scan_state =
  sc_covering :: "fs_capability option \<times> nat"
  sc_sufficient :: "fs_capability option \<times> nat"
  sc_read :: "fs_capability option \<times> nat"
  sc_write :: "fs_capability option \<times> nat"

definition sufficient :: "access_mode \<Rightarrow> access_mode \<Rightarrow> bool" where
  "sufficient access requested =
     (case (access, requested) of
        (ReadWrite, _) \<Rightarrow> True
      | (Read, Read) \<Rightarrow> True
      | (Write, Write) \<Rightarrow> True
      | _ \<Rightarrow> False)"

definition scan_step ::
  "access_mode \<Rightarrow> (fs_capability \<Rightarrow> bool) \<Rightarrow> fs_capability \<Rightarrow> scan_state \<Rightarrow> scan_state" where
  "scan_step requested cov cap st =
     (if \<not> cov cap then st
      else
        let st = st\<lparr>sc_covering := better cap (sc_covering st)\<rparr>;
            st = (if sufficient (fc_access cap) requested
                  then st\<lparr>sc_sufficient := better cap (sc_sufficient st)\<rparr> else st)
        in if requested = ReadWrite then
             let st = (if fc_access cap \<in> {Read, ReadWrite}
                       then st\<lparr>sc_read := better cap (sc_read st)\<rparr> else st)
             in if fc_access cap \<in> {Write, ReadWrite}
                then st\<lparr>sc_write := better cap (sc_write st)\<rparr> else st
           else st)"

definition scan_covering ::
  "capability_set \<Rightarrow> access_mode \<Rightarrow> (fs_capability \<Rightarrow> bool) \<Rightarrow> covering_capabilities" where
  "scan_covering s requested cov =
     (let st = fold (scan_step requested cov) (fs s)
                 \<lparr>sc_covering = (None, 0), sc_sufficient = (None, 0), sc_read = (None, 0),
                  sc_write = (None, 0)\<rparr>
      in \<lparr>best_covering = fst (sc_covering st), best_sufficient = fst (sc_sufficient st),
          best_read = fst (sc_read st), best_write = fst (sc_write st)\<rparr>)"

definition matching_unix_socket ::
  "capability_set \<Rightarrow> path \<Rightarrow> unix_socket_op \<Rightarrow> unix_socket_capability option" where
  "matching_unix_socket s sockaddr_path op =
     find (\<lambda>cap. covers cap sockaddr_path \<and>
             (case op of OpConnect \<Rightarrow> True | OpSend \<Rightarrow> True | OpBind \<Rightarrow> permits_bind (us_mode cap)))
       (unix_sockets s)"

definition unix_socket_allowed :: "capability_set \<Rightarrow> path \<Rightarrow> unix_socket_op \<Rightarrow> bool" where
  "unix_socket_allowed s sockaddr_path op =
     (case matching_unix_socket s sockaddr_path op of None \<Rightarrow> False | Some _ \<Rightarrow> True)"

fun is_network_blocked_mode :: "network_mode \<Rightarrow> bool" where
  "is_network_blocked_mode Blocked = True"
| "is_network_blocked_mode (ProxyOnly _ _) = True"
| "is_network_blocked_mode AllowAll = False"

definition is_network_blocked :: "capability_set \<Rightarrow> bool" where
  "is_network_blocked s = is_network_blocked_mode (network_mode s)"

definition dns_enabled :: "capability_set \<Rightarrow> bool" where
  "dns_enabled s = (\<not> dns_blocked s)"

definition has_fs :: "capability_set \<Rightarrow> bool" where
  "has_fs s = (fs s \<noteq> [])"

definition path_covered :: "capability_set \<Rightarrow> path \<Rightarrow> bool" where
  "path_covered s path = list_ex (\<lambda>cap. \<not> fc_is_file cap \<and> path_starts_with path (fc_resolved cap)) (fs s)"

definition path_covered_with_access :: "capability_set \<Rightarrow> path \<Rightarrow> access_mode \<Rightarrow> bool" where
  "path_covered_with_access s path required =
     list_ex (\<lambda>cap. \<not> fc_is_file cap \<and> path_starts_with path (fc_resolved cap)
        \<and> contains (fc_access cap) required) (fs s)"

definition summary :: "capability_set \<Rightarrow> string" where
  "summary s =
     (let fs_lines = (if fs s = [] then [] else ''Filesystem:'' #
            map (\<lambda>cap. ''  '' @ fc_resolved cap @ '' ['' @ access_display (fc_access cap) @ ''] (''
                   @ (if fc_is_file cap then ''file'' else ''dir'') @ '')'') (fs s));
          socket_lines = (if unix_sockets s = [] then [] else ''Unix sockets:'' #
            map (\<lambda>cap. ''  '' @ us_resolved cap @ '' ['' @ socket_mode_display (us_mode cap) @ ''] (''
                   @ scope_label (us_scope cap) @ '')'') (unix_sockets s));
          grants = fs_lines @ socket_lines;
          grants = (if grants = [] then [''(no capabilities granted)''] else grants);
          network = [''Network:'', ''  outbound: '' @ network_mode_display (network_mode s)];
          connect_lines = (if tcp_connect_ports s = [] then []
             else [''  tcp connect ports: '' @ join_with '', '' (map show_port (tcp_connect_ports s))]);
          bind_lines = (if tcp_bind_ports s = [] then []
             else [''  tcp bind ports: '' @ join_with '', '' (map show_port (tcp_bind_ports s))])
      in join_with [CHR 0x0A] (grants @ network @ connect_lines @ bind_lines))"

section \<open>Properties of the constructors\<close>

lemma is_dir_abs_path: "canon_end h k \<Longrightarrow> is_dir h (abs_path k) \<longleftrightarrow> canon_dir h k"
  using lookup_abs_path [of h k _ True]
  by (auto simp: is_dir_def metadata_def canon_end_def canon_dir_def is_dir_node_def)

lemma canon_end_components:
  "canon_end h k \<Longrightarrow> components (abs_path k) = RootDir # map Normal k"
  by (auto simp: canon_end_def intro!: components_abs_path dest: on_canon_names)

text \<open>
  C39. A directory capability exists exactly for paths that canonicalise to a directory. Its resolved
  path is absolute, has no \<open>.\<close> or \<open>..\<close>, passes through no symbolic link, is left unchanged by a
  further canonicalisation, and names a directory; every other path gives one of the three errors.
\<close>

theorem fs_new_dir_correct:
  assumes "wf_host h"
  shows "(case fs_new_dir h path access of
      Inr cap \<Rightarrow> fc_original cap = path \<and> fc_access cap = access \<and> \<not> fc_is_file cap
        \<and> fc_source cap = User
        \<and> (\<exists>k. fc_resolved cap = abs_path k \<and> canon_dir h k
             \<and> components (fc_resolved cap) = RootDir # map Normal k)
        \<and> canonicalize h path = Inr (fc_resolved cap)
        \<and> canonicalize h (fc_resolved cap) = Inr (fc_resolved cap)
    | Inl e \<Rightarrow> (canonicalize h path = Inl NotFound \<and> e = PathNotFound path)
        \<or> (\<exists>io. canonicalize h path = Inl io \<and> io \<noteq> NotFound \<and> e = PathCanonicalization path io)
        \<or> (\<exists>k. canonicalize h path = Inr (abs_path k) \<and> canon_end h k \<and> \<not> canon_dir h k
             \<and> e = ExpectedDirectory path))"
proof (cases "canonicalize h path")
  case (Inl io)
  then show ?thesis by (auto simp: fs_new_dir_def canonicalize_err_def)
next
  case (Inr q)
  obtain k where "q = abs_path k" "canon_end h k"
    using canonicalize_Inr [OF assms Inr] by metis
  with Inr show ?thesis
    using is_dir_abs_path [of h k] canonicalize_canonical [of h k] canon_end_components [of h k]
    by (auto simp: fs_new_dir_def)
qed

theorem fs_new_dir_correct_witness:
  "wf_host demo_host
   \<and> fs_new_dir demo_host ''/link/./sub/..'' Read
     = Inr \<lparr>fc_original = ''/link/./sub/..'', fc_resolved = ''/tmp'', fc_access = Read,
            fc_is_file = False, fc_source = User\<rparr>
   \<and> canonicalize demo_host ''/tmp'' = Inr ''/tmp''"
proof -
  have r: "fs_new_dir demo_host ''/link/./sub/..'' Read
     = Inr \<lparr>fc_original = ''/link/./sub/..'', fc_resolved = ''/tmp'', fc_access = Read,
            fc_is_file = False, fc_source = User\<rparr>"
    by code_simp
  with fs_new_dir_correct [OF demo_host_wf, of "''/link/./sub/..''" Read] demo_host_wf
  show ?thesis by simp
qed

section \<open>Properties of socket grants\<close>

text \<open>
  The paths a socket grant covers, in terms of path components: a file grant covers its own path,
  a directory grant its direct children, a subtree grant everything strictly below. A string
  prefix is never enough.
\<close>

theorem covers_components:
  "covers cap p \<longleftrightarrow>
     (case us_scope cap of
        ScopeFile \<Rightarrow> components p = components (us_resolved cap)
      | DirChildren \<Rightarrow> (\<exists>c. c \<noteq> RootDir \<and> components p = components (us_resolved cap) @ [c])
      | DirSubtree \<Rightarrow> strict_prefix (components (us_resolved cap)) (components p))"
proof (cases "us_scope cap")
  case DirChildren
  show ?thesis
  proof (cases "parent p")
    case None
    with DirChildren parent_None [of p] show ?thesis by (auto simp: covers_def)
  next
    case (Some q)
    then have "components q = butlast (components p)" "components p \<noteq> []" "components p \<noteq> [RootDir]"
      using components_parent [OF Some] parent_None [of p] by auto
    moreover from this have "components p = butlast (components p) @ [last (components p)]" by simp
    moreover have "last (components p) \<noteq> RootDir"
      using calculation root_first [of p "butlast (components p)"] by (metis append_Nil)
    ultimately show ?thesis
      using DirChildren Some by (auto simp: covers_def path_eq_def) (metis append_butlast_last_id)
  qed
qed (auto simp: covers_def path_eq_def path_starts_with_iff strict_prefix_def)

lemma find_is_some:
  "(case find P xs of None \<Rightarrow> False | Some _ \<Rightarrow> True) \<longleftrightarrow> (\<exists>x \<in> set xs. P x)"
  by (auto simp: find_None_iff find_Some_iff split: option.split)

text \<open>
  A socket operation is allowed exactly when some grant covers the path, for \<open>bind\<close> a grant with
  the bind mode; so whoever may bind may also connect and send, and the matched grant is the first
  such one.
\<close>

theorem unix_socket_allowed_iff:
  "unix_socket_allowed s p op \<longleftrightarrow>
     (\<exists>cap \<in> set (unix_sockets s). covers cap p
        \<and> (if op = OpBind then us_mode cap = ConnectBind else True))"
proof -
  have op: "(case op of OpConnect \<Rightarrow> True | OpSend \<Rightarrow> True | OpBind \<Rightarrow> permits_bind (us_mode cap)) \<longleftrightarrow>
      (if op = OpBind then us_mode cap = ConnectBind else True)" for cap
    by (cases op; cases "us_mode cap") auto
  show ?thesis
    unfolding unix_socket_allowed_def matching_unix_socket_def op find_is_some by blast
qed

section \<open>Properties of the scan\<close>

text \<open>The capability a slot ends with: one of maximal length among those that qualify.\<close>

definition is_best :: "(fs_capability \<Rightarrow> bool) \<Rightarrow> fs_capability list \<Rightarrow> fs_capability option \<Rightarrow> bool" where
  "is_best P xs r =
     (case r of
        None \<Rightarrow> \<not> list_ex P xs
      | Some c \<Rightarrow> c \<in> set xs \<and> P c
          \<and> list_all (\<lambda>d. P d \<longrightarrow> length (fc_resolved d) \<le> length (fc_resolved c)) xs)"

definition slot_step ::
  "(fs_capability \<Rightarrow> bool) \<Rightarrow> fs_capability \<Rightarrow> fs_capability option \<times> nat \<Rightarrow> fs_capability option \<times> nat" where
  "slot_step P cap slot = (if P cap then better cap slot else slot)"

lemma slot_fold_best:
  "is_best P xs (fst (fold (slot_step P) xs (None, 0)))
   \<and> snd (fold (slot_step P) xs (None, 0))
      = (case fst (fold (slot_step P) xs (None, 0)) of None \<Rightarrow> 0 | Some c \<Rightarrow> length (fc_resolved c))"
proof (induction xs rule: rev_induct)
  case Nil
  then show ?case by (simp add: is_best_def)
next
  case (snoc x xs)
  obtain r n where sl: "fold (slot_step P) xs (None, 0) = (r, n)" by fastforce
  with snoc have r: "is_best P xs r" "n = (case r of None \<Rightarrow> 0 | Some c \<Rightarrow> length (fc_resolved c))"
    by simp_all
  have last: "fold (slot_step P) (xs @ [x]) (None, 0) = slot_step P x (r, n)" by (simp add: sl)
  show ?case
    unfolding last using r
    by (cases r) (auto simp: is_best_def slot_step_def better_def list_all_iff list_ex_iff Let_def)
qed

lemma scan_slots:
  fixes requested cov
  defines "step \<equiv> scan_step requested cov"
  shows "sc_covering (fold step xs st) = fold (slot_step cov) xs (sc_covering st)"
    and "sc_sufficient (fold step xs st)
          = fold (slot_step (\<lambda>c. cov c \<and> contains (fc_access c) requested)) xs (sc_sufficient st)"
    and "sc_read (fold step xs st)
          = fold (slot_step (\<lambda>c. requested = ReadWrite \<and> cov c \<and> contains (fc_access c) Read)) xs (sc_read st)"
    and "sc_write (fold step xs st)
          = fold (slot_step (\<lambda>c. requested = ReadWrite \<and> cov c \<and> contains (fc_access c) Write)) xs (sc_write st)"
proof -
  have suff: "sufficient a requested \<longleftrightarrow> contains a requested" for a
    by (cases a; cases requested) (simp_all add: sufficient_def)
  have rd: "a \<in> {Read, ReadWrite} \<longleftrightarrow> contains a Read" "a \<in> {Write, ReadWrite} \<longleftrightarrow> contains a Write" for a
    by (cases a; simp)+
  have "sc_covering (step c st) = slot_step cov c (sc_covering st)"
    "sc_sufficient (step c st)
       = slot_step (\<lambda>c. cov c \<and> contains (fc_access c) requested) c (sc_sufficient st)"
    "sc_read (step c st)
       = slot_step (\<lambda>c. requested = ReadWrite \<and> cov c \<and> contains (fc_access c) Read) c (sc_read st)"
    "sc_write (step c st)
       = slot_step (\<lambda>c. requested = ReadWrite \<and> cov c \<and> contains (fc_access c) Write) c (sc_write st)"
    for c st
    unfolding step_def scan_step_def slot_step_def Let_def suff rd by simp_all
  note step_slots = this
  show "sc_covering (fold step xs st) = fold (slot_step cov) xs (sc_covering st)"
    by (induction xs arbitrary: st) (simp_all add: step_slots)
  show "sc_sufficient (fold step xs st)
          = fold (slot_step (\<lambda>c. cov c \<and> contains (fc_access c) requested)) xs (sc_sufficient st)"
    by (induction xs arbitrary: st) (simp_all add: step_slots)
  show "sc_read (fold step xs st)
          = fold (slot_step (\<lambda>c. requested = ReadWrite \<and> cov c \<and> contains (fc_access c) Read)) xs (sc_read st)"
    by (induction xs arbitrary: st) (simp_all add: step_slots)
  show "sc_write (fold step xs st)
          = fold (slot_step (\<lambda>c. requested = ReadWrite \<and> cov c \<and> contains (fc_access c) Write)) xs (sc_write st)"
    by (induction xs arbitrary: st) (simp_all add: step_slots)
qed

lemma scan_covering_best:
  "is_best cov (fs s) (best_covering (scan_covering s requested cov))"
  "is_best (\<lambda>c. cov c \<and> contains (fc_access c) requested) (fs s)
     (best_sufficient (scan_covering s requested cov))"
  "is_best (\<lambda>c. requested = ReadWrite \<and> cov c \<and> contains (fc_access c) Read) (fs s)
     (best_read (scan_covering s requested cov))"
  "is_best (\<lambda>c. requested = ReadWrite \<and> cov c \<and> contains (fc_access c) Write) (fs s)
     (best_write (scan_covering s requested cov))"
  unfolding scan_covering_def Let_def by (simp_all add: scan_slots slot_fold_best)

text \<open>
  \<open>scan_covering\<close> returns, for each of its four questions, a covering capability of maximal path
  length among those that answer it, and nothing only when there is none: the most specific
  covering one, the most specific one with sufficient access, and for a read-write request the
  most specific ones granting read and granting write.
\<close>

theorem scan_covering_correct:
  "is_best cov (fs s) (best_covering (scan_covering s requested cov))
   \<and> is_best (\<lambda>c. cov c \<and> contains (fc_access c) requested) (fs s)
       (best_sufficient (scan_covering s requested cov))
   \<and> is_best (\<lambda>c. requested = ReadWrite \<and> cov c \<and> contains (fc_access c) Read) (fs s)
       (best_read (scan_covering s requested cov))
   \<and> is_best (\<lambda>c. requested = ReadWrite \<and> cov c \<and> contains (fc_access c) Write) (fs s)
       (best_write (scan_covering s requested cov))"
  by (intro conjI scan_covering_best)

end
