(* ===== verification/Cap_Dedup.thy ===== *)
theory Cap_Dedup
  imports Capability
begin

text \<open>
  Deduplication of capabilities and the rewriting of procfs self references
  (\<open>deduplicate\<close>, \<open>deduplicate_unix_sockets\<close>, \<open>remap_procfs_self_references\<close>,
  \<open>widen_procfs_self_to_proc\<close>, \<open>rewrite_procfs_self_reference\<close> of
  \<open>crates/nono/src/capability.rs\<close>), on Linux. Both loops keep the index of the entry kept for each
  key in a hash map and record indices to remove and updates to apply afterwards; paths are hashed
  and compared by components. The locale \<open>keyed_dedup\<close> states what the two loops share.
\<close>

section \<open>Procfs self references\<close>

definition push_component :: "path \<Rightarrow> component \<Rightarrow> path" where
  "push_component rewritten c =
     (case c of
        Normal part \<Rightarrow> join rewritten part
      | CurDir \<Rightarrow> join rewritten ''.''
      | ParentDir \<Rightarrow> join rewritten ''..''
      | RootDir \<Rightarrow> rewritten)"

definition show_pid :: "u32 \<Rightarrow> string" where
  "show_pid pid = show_nat (unat pid)"

definition rewrite_procfs_self_reference :: "path \<Rightarrow> u32 \<Rightarrow> u32 option \<Rightarrow> path option" where
  "rewrite_procfs_self_reference original process_pid thread_pid =
     (let thread_pid = (case thread_pid of Some t \<Rightarrow> t | None \<Rightarrow> process_pid) in
      if path_eq original ''/dev/fd'' then Some (''/proc/'' @ show_pid process_pid @ ''/fd'')
      else if path_eq original ''/dev/stdin'' then Some (''/proc/'' @ show_pid process_pid @ ''/fd/0'')
      else if path_eq original ''/dev/stdout'' then Some (''/proc/'' @ show_pid process_pid @ ''/fd/1'')
      else if path_eq original ''/dev/stderr'' then Some (''/proc/'' @ show_pid process_pid @ ''/fd/2'')
      else
        (case components original of
           RootDir # Normal d # proc_component # rest \<Rightarrow>
             if d \<noteq> ''proc'' then None
             else if proc_component = Normal ''self'' then
               Some (foldl push_component (join ''/proc'' (show_pid process_pid)) rest)
             else if proc_component = Normal ''thread-self'' then
               Some (foldl push_component
                 (join (join (join ''/proc'' (show_pid process_pid)) ''task'') (show_pid thread_pid)) rest)
             else None
         | _ \<Rightarrow> None))"

definition is_procfs_remap_original :: "path \<Rightarrow> bool" where
  "is_procfs_remap_original p =
     (case rewrite_procfs_self_reference p 0 None of None \<Rightarrow> False | Some _ \<Rightarrow> True)"

section \<open>Deduplication of filesystem capabilities\<close>

record 'k dedup_state =
  dd_seen :: "'k \<Rightarrow> nat option"
  dd_remove :: "nat list"

type_synonym fs_key = "component list \<times> bool"

record fs_dedup = "fs_key dedup_state" +
  fs_original_updates :: "(nat \<times> path) list"
  fs_access_upgrades :: "(nat \<times> access_mode) list"

definition fs_key :: "fs_capability \<Rightarrow> fs_key" where
  "fs_key cap = (components (fc_resolved cap), fc_is_file cap)"

definition fs_keep_new :: "fs_capability \<Rightarrow> fs_capability \<Rightarrow> bool" where
  "fs_keep_new existing cap =
     (let new_is_user = is_user_intent (fc_source cap);
          existing_is_user = is_user_intent (fc_source existing)
      in if new_is_user \<and> \<not> existing_is_user then True
         else if \<not> new_is_user \<and> existing_is_user then False
         else fc_access cap = ReadWrite \<and> fc_access existing \<noteq> ReadWrite)"

definition merged_access :: "access_mode \<Rightarrow> access_mode \<Rightarrow> access_mode option" where
  "merged_access existing new =
     (case (existing, new) of
        (Read, Write) \<Rightarrow> Some ReadWrite
      | (Write, Read) \<Rightarrow> Some ReadWrite
      | _ \<Rightarrow> None)"

definition push_upgrade ::
  "nat \<Rightarrow> access_mode option \<Rightarrow> (nat \<times> access_mode) list \<Rightarrow> (nat \<times> access_mode) list" where
  "push_upgrade i a ups = (case a of Some access \<Rightarrow> ups @ [(i, access)] | None \<Rightarrow> ups)"

definition fs_dedup_step :: "fs_capability list \<Rightarrow> nat \<Rightarrow> fs_dedup \<Rightarrow> fs_dedup" where
  "fs_dedup_step caps i st =
     (let cap = caps ! i; key = fs_key cap in
      case dd_seen st key of
        Some existing_idx \<Rightarrow>
          (let existing = caps ! existing_idx;
               merged = merged_access (fc_access existing) (fc_access cap)
           in if fs_keep_new existing cap then
                st\<lparr>dd_remove := dd_remove st @ [existing_idx],
                   dd_seen := (dd_seen st)(key \<mapsto> i),
                   fs_original_updates :=
                     (if path_eq (fc_original cap) (fc_resolved cap)
                         \<and> \<not> path_eq (fc_original existing) (fc_resolved existing)
                         \<and> \<not> is_procfs_remap_original (fc_original existing)
                      then fs_original_updates st @ [(i, fc_original existing)]
                      else fs_original_updates st),
                   fs_access_upgrades := push_upgrade i merged (fs_access_upgrades st)\<rparr>
              else
                st\<lparr>fs_original_updates :=
                     (if path_eq (fc_original existing) (fc_resolved existing)
                         \<and> \<not> path_eq (fc_original cap) (fc_resolved cap)
                         \<and> \<not> is_procfs_remap_original (fc_original cap)
                      then fs_original_updates st @ [(existing_idx, fc_original cap)]
                      else fs_original_updates st),
                   dd_remove := dd_remove st @ [i],
                   fs_access_upgrades := push_upgrade existing_idx merged (fs_access_upgrades st)\<rparr>)
      | None \<Rightarrow> st\<lparr>dd_seen := (dd_seen st)(key \<mapsto> i)\<rparr>)"

definition fs_dedup_init :: fs_dedup where
  "fs_dedup_init =
     \<lparr>dd_seen = Map.empty, dd_remove = [], fs_original_updates = [], fs_access_upgrades = []\<rparr>"

definition update_at :: "('v \<Rightarrow> 'a \<Rightarrow> 'a) \<Rightarrow> nat \<times> 'v \<Rightarrow> 'a list \<Rightarrow> 'a list" where
  "update_at f u xs = xs[fst u := f (snd u) (xs ! fst u)]"

definition set_fs_original :: "path \<Rightarrow> fs_capability \<Rightarrow> fs_capability" where
  "set_fs_original original cap = cap\<lparr>fc_original := original\<rparr>"

definition set_fs_access :: "access_mode \<Rightarrow> fs_capability \<Rightarrow> fs_capability" where
  "set_fs_access access cap = cap\<lparr>fc_access := access\<rparr>"

definition apply_fs_updates :: "fs_dedup \<Rightarrow> fs_capability list \<Rightarrow> fs_capability list" where
  "apply_fs_updates st caps =
     fold (update_at set_fs_access) (fs_access_upgrades st)
       (fold (update_at set_fs_original) (fs_original_updates st) caps)"

definition remove_indices :: "nat list \<Rightarrow> 'a list \<Rightarrow> 'a list" where
  "remove_indices to_remove xs = fold remove_at (rev (sort to_remove)) xs"

definition dedup_fs :: "fs_capability list \<Rightarrow> fs_capability list" where
  "dedup_fs caps =
     (let st = fold (fs_dedup_step caps) [0..<length caps] fs_dedup_init
      in remove_indices (dd_remove st) (apply_fs_updates st caps))"

section \<open>Deduplication of socket capabilities\<close>

type_synonym socket_key = "component list \<times> socket_scope"

record socket_dedup = "socket_key dedup_state" +
  us_original_updates :: "(nat \<times> path) list"
  us_mode_upgrades :: "(nat \<times> unix_socket_mode) list"

definition socket_key :: "unix_socket_capability \<Rightarrow> socket_key" where
  "socket_key cap = (components (us_resolved cap), us_scope cap)"

definition socket_same_provenance :: "unix_socket_capability \<Rightarrow> unix_socket_capability \<Rightarrow> bool" where
  "socket_same_provenance existing cap =
     (is_user_intent (us_source cap) = is_user_intent (us_source existing))"

definition socket_merged_mode ::
  "unix_socket_capability \<Rightarrow> unix_socket_capability \<Rightarrow> unix_socket_mode" where
  "socket_merged_mode existing cap =
     (if socket_same_provenance existing cap
         \<and> (permits_bind (us_mode existing) \<or> permits_bind (us_mode cap))
      then ConnectBind else Connect)"

definition socket_keep_new :: "unix_socket_capability \<Rightarrow> unix_socket_capability \<Rightarrow> bool" where
  "socket_keep_new existing cap =
     (case (is_user_intent (us_source cap), is_user_intent (us_source existing)) of
        (True, False) \<Rightarrow> True
      | (False, True) \<Rightarrow> False
      | _ \<Rightarrow> permits_bind (us_mode cap) \<and> \<not> permits_bind (us_mode existing))"

definition socket_dedup_step :: "unix_socket_capability list \<Rightarrow> nat \<Rightarrow> socket_dedup \<Rightarrow> socket_dedup" where
  "socket_dedup_step caps i st =
     (let cap = caps ! i; key = socket_key cap in
      case dd_seen st key of
        Some existing_idx \<Rightarrow>
          (let existing = caps ! existing_idx;
               merged = socket_merged_mode existing cap
           in if socket_keep_new existing cap then
                st\<lparr>dd_remove := dd_remove st @ [existing_idx],
                   dd_seen := (dd_seen st)(key \<mapsto> i),
                   us_original_updates :=
                     (if path_eq (us_original cap) (us_resolved cap)
                         \<and> \<not> path_eq (us_original existing) (us_resolved existing)
                      then us_original_updates st @ [(i, us_original existing)]
                      else us_original_updates st),
                   us_mode_upgrades :=
                     (if socket_same_provenance existing cap \<and> merged \<noteq> us_mode cap
                      then us_mode_upgrades st @ [(i, merged)] else us_mode_upgrades st)\<rparr>
              else
                st\<lparr>us_original_updates :=
                     (if path_eq (us_original existing) (us_resolved existing)
                         \<and> \<not> path_eq (us_original cap) (us_resolved cap)
                      then us_original_updates st @ [(existing_idx, us_original cap)]
                      else us_original_updates st),
                   dd_remove := dd_remove st @ [i],
                   us_mode_upgrades :=
                     (if socket_same_provenance existing cap \<and> merged \<noteq> us_mode existing
                      then us_mode_upgrades st @ [(existing_idx, merged)] else us_mode_upgrades st)\<rparr>)
      | None \<Rightarrow> st\<lparr>dd_seen := (dd_seen st)(key \<mapsto> i)\<rparr>)"

definition socket_dedup_init :: socket_dedup where
  "socket_dedup_init =
     \<lparr>dd_seen = Map.empty, dd_remove = [], us_original_updates = [], us_mode_upgrades = []\<rparr>"

definition set_us_original :: "path \<Rightarrow> unix_socket_capability \<Rightarrow> unix_socket_capability" where
  "set_us_original original cap = cap\<lparr>us_original := original\<rparr>"

definition set_us_mode :: "unix_socket_mode \<Rightarrow> unix_socket_capability \<Rightarrow> unix_socket_capability" where
  "set_us_mode mode cap = cap\<lparr>us_mode := mode\<rparr>"

definition apply_socket_updates ::
  "socket_dedup \<Rightarrow> unix_socket_capability list \<Rightarrow> unix_socket_capability list" where
  "apply_socket_updates st caps =
     fold (update_at set_us_mode) (us_mode_upgrades st)
       (fold (update_at set_us_original) (us_original_updates st) caps)"

definition dedup_sockets :: "unix_socket_capability list \<Rightarrow> unix_socket_capability list" where
  "dedup_sockets caps =
     (let st = fold (socket_dedup_step caps) [0..<length caps] socket_dedup_init
      in remove_indices (dd_remove st) (apply_socket_updates st caps))"

section \<open>Operations on the set\<close>

definition deduplicate_unix_sockets :: "capability_set \<Rightarrow> capability_set" where
  "deduplicate_unix_sockets s = s\<lparr>unix_sockets := dedup_sockets (unix_sockets s)\<rparr>"

definition deduplicate :: "capability_set \<Rightarrow> capability_set" where
  "deduplicate s = deduplicate_unix_sockets (s\<lparr>fs := dedup_fs (fs s)\<rparr>)"

definition remap_cap :: "u32 \<Rightarrow> u32 option \<Rightarrow> fs_capability \<Rightarrow> fs_capability" where
  "remap_cap process_pid thread_pid cap =
     (case rewrite_procfs_self_reference (fc_original cap) process_pid thread_pid of
        Some rewritten \<Rightarrow> cap\<lparr>fc_resolved := rewritten\<rparr>
      | None \<Rightarrow> cap)"

definition remap_procfs_self_references ::
  "u32 \<Rightarrow> u32 option \<Rightarrow> capability_set \<Rightarrow> capability_set" where
  "remap_procfs_self_references process_pid thread_pid s =
     deduplicate (s\<lparr>fs := map (remap_cap process_pid thread_pid) (fs s)\<rparr>)"

definition widen_cap :: "fs_capability \<Rightarrow> fs_capability" where
  "widen_cap cap =
     (if fc_access cap = Read then
        if fc_original cap = ''/proc/self'' \<or> fc_original cap = ''/proc/self/''
        then cap\<lparr>fc_resolved := ''/proc''\<rparr> else cap
      else cap)"

definition widen_procfs_self_to_proc :: "capability_set \<Rightarrow> capability_set" where
  "widen_procfs_self_to_proc s = deduplicate (s\<lparr>fs := map widen_cap (fs s)\<rparr>)"

section \<open>Removing by index, updating by index\<close>

lemma nths_remove_at:
  assumes "i < length xs" "\<forall>j \<in> I. j < i"
  shows "nths (remove_at i xs) (- I) = nths xs (- insert i I)"
proof -
  have split: "xs = take i xs @ xs ! i # drop (Suc i) xs" using assms(1) by (rule id_take_nth_drop)
  have len: "min (length xs) i = i" using assms(1) by simp
  have "{j. j + i \<in> - I} = UNIV" using assms(2) by fastforce
  moreover have "{j. Suc j + i \<in> - insert i I} = UNIV" using assms(2) by fastforce
  moreover have "nths (take i xs) (- insert i I) = nths (take i xs) (- I)"
    unfolding nths_def using assms(1)
    by (intro arg_cong [where f = "map fst"] filter_cong) (auto simp: in_set_zip)
  ultimately show ?thesis
    by (subst (2) split) (simp add: remove_at_def nths_append nths_Cons len nths_all)
qed

lemma remove_descending:
  assumes "sorted_wrt (>) is" "\<forall>i \<in> set is. i < length xs"
  shows "fold remove_at is xs = nths xs (- set is)"
  using assms
proof (induction "is" arbitrary: xs)
  case (Cons i "is")
  have "\<forall>j \<in> set is. j < length (remove_at i xs)"
    using Cons.prems by (auto simp: remove_at_def)
  with Cons have "fold remove_at (i # is) xs = nths (remove_at i xs) (- set is)" by simp
  also have "\<dots> = nths xs (- set (i # is))"
    using Cons.prems nths_remove_at [of i xs "set is"] by simp
  finally show ?case .
qed (simp add: nths_all)

lemma remove_indices_nths:
  assumes "distinct is" "\<forall>i \<in> set is. i < length xs"
  shows "remove_indices is xs = nths xs (- set is)"
proof -
  have "sorted_wrt (<) (sort is)"
    using assms(1) by (simp add: strict_sorted_iff)
  then have "sorted_wrt (>) (rev (sort is))" by (simp add: sorted_wrt_rev)
  with assms(2) show ?thesis
    using remove_descending [of "rev (sort is)" xs] by (simp add: remove_indices_def)
qed

lemma distinct_map_nths:
  assumes "\<And>i j. \<lbrakk>i < length ys; j < length ys; i \<in> I; j \<in> I; f (ys ! i) = f (ys ! j)\<rbrakk> \<Longrightarrow> i = j"
  shows "distinct (map f (nths ys I))"
  using assms
proof (induction ys rule: rev_induct)
  case (snoc y ys)
  have "distinct (map f (nths ys I))"
    using snoc.prems by (intro snoc.IH) (metis butlast_snoc length_append_singleton less_SucI nth_butlast)
  moreover have "f y \<notin> f ` set (nths ys I)" if "length ys \<in> I"
  proof
    assume "f y \<in> f ` set (nths ys I)"
    then obtain i where "i < length ys" "i \<in> I" "f (ys ! i) = f y" by (auto simp: set_nths)
    with that snoc.prems [of i "length ys"] show False by (simp add: nth_append)
  qed
  ultimately show ?case by (auto simp: nths_append nths_Cons)
qed simp

lemma update_at_length [simp]: "length (fold (update_at f) us xs) = length xs"
  by (induction us arbitrary: xs) (simp_all add: update_at_def)

lemma update_at_nth:
  assumes "\<And>v x. g (f v x) = g x" "i < length xs"
  shows "g (fold (update_at f) us xs ! i) = g (xs ! i)"
  using assms(2)
proof (induction us arbitrary: xs)
  case (Cons u us)
  have "g (update_at f u xs ! i) = g (xs ! i)"
    using Cons.prems assms(1) by (cases "fst u = i") (simp_all add: update_at_def)
  with Cons show ?case by (simp add: update_at_def)
qed simp

lemma distinct_map_append_nth:
  assumes "distinct (map f xs)" "n < length xs"
  shows "f (xs ! n) \<notin> f ` set (take n xs)"
  using assms by (auto simp: distinct_conv_nth in_set_conv_nth)

section \<open>What the two loops share\<close>

text \<open>
  The interface of a deduplication step: it fills \<open>dd_seen\<close> for a new key and otherwise discards the
  existing or the new entry, as \<open>keep_new\<close> says. A preferred entry is never given up for one that
  is not.
\<close>

locale keyed_dedup =
  fixes key :: "'a \<Rightarrow> 'k"
    and keep_new :: "'a \<Rightarrow> 'a \<Rightarrow> bool"
    and pref :: "'a \<Rightarrow> bool"
    and step :: "'a list \<Rightarrow> nat \<Rightarrow> ('k, 'm) dedup_state_scheme \<Rightarrow> ('k, 'm) dedup_state_scheme"
  assumes step_fresh:
      "dd_seen st (key (xs ! i)) = None \<Longrightarrow>
       step xs i st = st\<lparr>dd_seen := (dd_seen st)(key (xs ! i) \<mapsto> i)\<rparr>"
    and step_new:
      "dd_seen st (key (xs ! i)) = Some j \<Longrightarrow> keep_new (xs ! j) (xs ! i) \<Longrightarrow>
       dd_seen (step xs i st) = (dd_seen st)(key (xs ! i) \<mapsto> i)
       \<and> dd_remove (step xs i st) = dd_remove st @ [j]"
    and step_old:
      "dd_seen st (key (xs ! i)) = Some j \<Longrightarrow> \<not> keep_new (xs ! j) (xs ! i) \<Longrightarrow>
       dd_seen (step xs i st) = dd_seen st \<and> dd_remove (step xs i st) = dd_remove st @ [i]"
    and pref_new: "pref e \<Longrightarrow> keep_new e c \<Longrightarrow> pref c"
    and pref_old: "pref c \<Longrightarrow> \<not> keep_new e c \<Longrightarrow> pref e"
begin

definition inv :: "'a list \<Rightarrow> nat \<Rightarrow> ('k, 'm) dedup_state_scheme \<Rightarrow> bool" where
  "inv xs n st \<longleftrightarrow>
     (\<forall>k j. dd_seen st k = Some j \<longrightarrow> j < n \<and> key (xs ! j) = k)
     \<and> (\<forall>i < n. \<exists>j. dd_seen st (key (xs ! i)) = Some j \<and> (pref (xs ! i) \<longrightarrow> pref (xs ! j)))
     \<and> distinct (dd_remove st) \<and> set (dd_remove st) = {0..<n} - ran (dd_seen st)"

lemma inv_init: "dd_seen st = Map.empty \<Longrightarrow> dd_remove st = [] \<Longrightarrow> inv xs 0 st"
  by (simp add: inv_def)

lemma inv_step:
  assumes "inv xs n st"
  shows "inv xs (Suc n) (step xs n st)"
proof (cases "dd_seen st (key (xs ! n))")
  case None
  have "n \<notin> ran (dd_seen st)" using assms by (auto simp: inv_def ran_def)
  with None assms step_fresh [OF None] show ?thesis
    by (auto simp: inv_def less_Suc_eq)
next
  case (Some j)
  have old: "j < n" "key (xs ! j) = key (xs ! n)" using assms Some by (auto simp: inv_def)
  have uniq: "dd_seen st k = Some j \<longleftrightarrow> k = key (xs ! n)" for k
    using assms Some old unfolding inv_def by metis
  have n_new: "dd_seen st k \<noteq> Some n" for k using assms by (auto simp: inv_def)
  show ?thesis
  proof (cases "keep_new (xs ! j) (xs ! n)")
    case True
    have "ran ((dd_seen st)(key (xs ! n) \<mapsto> n)) = insert n (ran (dd_seen st) - {j})"
      using uniq n_new by (auto simp: ran_def) (metis option.inject)+
    with True Some old assms step_new [OF Some True] uniq pref_new [OF _ True] show ?thesis
      by (auto simp: inv_def less_Suc_eq ran_def) (metis option.inject)
  next
    case False
    have "n \<notin> ran (dd_seen st)" using n_new by (auto simp: ran_def)
    with False Some old assms step_old [OF Some False] pref_old [OF _ False] show ?thesis
      by (auto simp: inv_def less_Suc_eq)
  qed
qed

lemma inv_run:
  assumes "dd_seen st = Map.empty" "dd_remove st = []"
  shows "inv xs n (fold (step xs) [0..<n] st)"
  by (induction n) (simp_all add: inv_init assms inv_step)

lemma inv_seen: "inv xs n st \<Longrightarrow> dd_seen st k = Some j \<Longrightarrow> j < n \<and> key (xs ! j) = k"
  by (simp add: inv_def)

lemma inv_kept:
  "inv xs n st \<Longrightarrow> i < n \<Longrightarrow>
   \<exists>j. dd_seen st (key (xs ! i)) = Some j \<and> key (xs ! j) = key (xs ! i) \<and> (pref (xs ! i) \<longrightarrow> pref (xs ! j))"
  by (metis inv_def)

lemma inv_covered: "inv xs n st \<Longrightarrow> i < n \<Longrightarrow> dd_seen st (key (xs ! i)) \<noteq> None"
  by (auto simp: inv_def)

text \<open>The list that remains after the recorded removals; updates keep keys and preference.\<close>

lemma result:
  assumes "dd_seen st = Map.empty" "dd_remove st = []"
    and st': "st' = fold (step xs) [0..<length xs] st"
    and ys: "length ys = length xs" "\<And>i. i < length xs \<Longrightarrow> key (ys ! i) = key (xs ! i)"
  shows "distinct (map key (remove_indices (dd_remove st') ys))"
    and "set (remove_indices (dd_remove st') ys) = {ys ! j | j. j \<in> ran (dd_seen st')}"
    and "\<And>i. i < length xs \<Longrightarrow> \<exists>j \<in> ran (dd_seen st'). key (xs ! j) = key (xs ! i)
           \<and> (pref (xs ! i) \<longrightarrow> pref (xs ! j))"
    and "\<And>j. j \<in> ran (dd_seen st') \<Longrightarrow> j < length xs"
proof -
  have inv: "inv xs (length xs) st'" unfolding st' using assms(1,2) by (rule inv_run)
  show ran: "\<And>j. j \<in> ran (dd_seen st') \<Longrightarrow> j < length xs"
    using inv by (auto simp: inv_def ran_def)
  show "\<And>i. i < length xs \<Longrightarrow> \<exists>j \<in> ran (dd_seen st'). key (xs ! j) = key (xs ! i)
           \<and> (pref (xs ! i) \<longrightarrow> pref (xs ! j))"
    using inv unfolding inv_def ran_def by (metis (mono_tags, lifting) mem_Collect_eq)
  have rem: "remove_indices (dd_remove st') ys = nths ys (- set (dd_remove st'))"
    using inv ys(1) by (intro remove_indices_nths) (auto simp: inv_def)
  have idx: "j \<in> - set (dd_remove st') \<longleftrightarrow> j \<in> ran (dd_seen st')" if "j < length ys" for j
    using inv that ys(1) by (auto simp: inv_def)
  show "set (remove_indices (dd_remove st') ys) = {ys ! j | j. j \<in> ran (dd_seen st')}"
    unfolding rem set_nths using idx ran ys(1) by auto
  have inj: "i = j" if "i \<in> ran (dd_seen st')" "j \<in> ran (dd_seen st')" "key (xs ! i) = key (xs ! j)" for i j
    using that inv unfolding inv_def ran_def by (smt (verit) mem_Collect_eq option.inject)
  show "distinct (map key (remove_indices (dd_remove st') ys))"
    unfolding rem using inj idx ys ran by (intro distinct_map_nths) metis
qed

lemma run_distinct:
  assumes "distinct (map key xs)" "dd_seen st = Map.empty" "n \<le> length xs"
  shows "\<exists>f. fold (step xs) [0..<n] st = st\<lparr>dd_seen := f\<rparr> \<and> dom f = key ` set (take n xs)"
  using assms(3)
proof (induction n)
  case 0
  then show ?case using assms(2) by (intro exI [of _ Map.empty]) simp
next
  case (Suc n)
  then obtain f where f: "fold (step xs) [0..<n] st = st\<lparr>dd_seen := f\<rparr>" "dom f = key ` set (take n xs)"
    by auto
  have "key (xs ! n) \<notin> key ` set (take n xs)"
    using assms(1) Suc.prems
    by (metis Suc_le_lessD distinct_map_append_nth)
  with f have "f (key (xs ! n)) = None" by (auto simp: domIff)
  then have "fold (step xs) [0..<Suc n] st = st\<lparr>dd_seen := f(key (xs ! n) \<mapsto> n)\<rparr>"
    using step_fresh [of "st\<lparr>dd_seen := f\<rparr>" xs n] f(1) by simp
  moreover have "dom (f(key (xs ! n) \<mapsto> n)) = key ` set (take (Suc n) xs)"
    using f(2) Suc.prems by (simp add: take_Suc_conv_app_nth)
  ultimately show ?case by blast
qed

end

section \<open>The filesystem loop\<close>

abbreviation fs_user :: "fs_capability \<Rightarrow> bool" where
  "fs_user c \<equiv> is_user_intent (fc_source c)"

interpretation fsd: keyed_dedup fs_key fs_keep_new fs_user fs_dedup_step
  by unfold_locales
    (auto simp: fs_dedup_step_def fs_keep_new_def Let_def split: option.splits if_splits)

definition fs_run :: "fs_capability list \<Rightarrow> nat \<Rightarrow> fs_dedup" where
  "fs_run caps n = fold (fs_dedup_step caps) [0..<n] fs_dedup_init"

lemma fs_run_simps [simp]:
  "fs_run caps 0 = fs_dedup_init" "fs_run caps (Suc n) = fs_dedup_step caps n (fs_run caps n)"
  by (simp_all add: fs_run_def)

lemma fs_run_inv: "fsd.inv caps n (fs_run caps n)"
  unfolding fs_run_def by (rule fsd.inv_run) (simp_all add: fs_dedup_init_def)

lemma fs_run_seen:
  assumes "dd_seen (fs_run caps n) k = Some j"
  shows "j < n" "fs_key (caps ! j) = k"
  using fsd.inv_seen [OF fs_run_inv assms] by simp_all

lemma fs_step_upgrades:
  "dd_seen st (fs_key (caps ! i)) = None \<Longrightarrow>
   fs_access_upgrades (fs_dedup_step caps i st) = fs_access_upgrades st"
  "dd_seen st (fs_key (caps ! i)) = Some j \<Longrightarrow>
   fs_access_upgrades (fs_dedup_step caps i st) =
     push_upgrade (if fs_keep_new (caps ! j) (caps ! i) then i else j)
       (merged_access (fc_access (caps ! j)) (fc_access (caps ! i))) (fs_access_upgrades st)"
  by (simp_all add: fs_dedup_step_def Let_def)

text \<open>An upgrade is only recorded for an entry that has a read-only and a write-only entry under
  its key.\<close>

definition upgrade_ok :: "fs_capability list \<Rightarrow> nat \<Rightarrow> nat \<times> access_mode \<Rightarrow> bool" where
  "upgrade_ok caps n u =
     (snd u = ReadWrite \<and> fst u < n
      \<and> (\<exists>i < n. fs_key (caps ! i) = fs_key (caps ! fst u) \<and> fc_access (caps ! i) = Read)
      \<and> (\<exists>i < n. fs_key (caps ! i) = fs_key (caps ! fst u) \<and> fc_access (caps ! i) = Write))"

lemma upgrade_ok_mono: "upgrade_ok caps n u \<Longrightarrow> upgrade_ok caps (Suc n) u"
  by (auto simp: upgrade_ok_def less_Suc_eq)

lemma merged_access_Some:
  "merged_access a b = Some c \<longleftrightarrow> c = ReadWrite \<and> (a = Read \<and> b = Write \<or> a = Write \<and> b = Read)"
  by (cases a; cases b) (auto simp: merged_access_def)

lemma fs_upgrades_ok: "\<forall>u \<in> set (fs_access_upgrades (fs_run caps n)). upgrade_ok caps n u"
proof (induction n)
  case 0
  then show ?case by (simp add: fs_dedup_init_def)
next
  case (Suc n)
  let ?st = "fs_run caps n"
  have mono: "\<forall>u \<in> set (fs_access_upgrades ?st). upgrade_ok caps (Suc n) u"
    using Suc upgrade_ok_mono by blast
  show ?case
  proof (cases "dd_seen ?st (fs_key (caps ! n))")
    case None
    with mono show ?thesis by (simp add: fs_step_upgrades)
  next
    case (Some j)
    note j = fs_run_seen [OF Some]
    have "upgrade_ok caps (Suc n) (i, a)"
      if "merged_access (fc_access (caps ! j)) (fc_access (caps ! n)) = Some a" "i = j \<or> i = n" for i a
      using that j by (auto simp: merged_access_Some upgrade_ok_def less_Suc_eq)
    with mono show ?thesis
      by (auto simp: fs_step_upgrades(2) [OF Some] push_upgrade_def split: option.splits)
  qed
qed

text \<open>Within one source category no access is lost.\<close>

definition one_category :: "fs_capability list \<Rightarrow> nat \<Rightarrow> fs_key \<Rightarrow> bool" where
  "one_category caps n k =
     (\<forall>i < n. \<forall>j < n. fs_key (caps ! i) = k \<longrightarrow> fs_key (caps ! j) = k \<longrightarrow>
        fs_user (caps ! i) = fs_user (caps ! j))"

definition kept_access :: "fs_capability list \<Rightarrow> nat \<Rightarrow> nat \<Rightarrow> access_mode \<Rightarrow> bool" where
  "kept_access caps n j m =
     (contains (fc_access (caps ! j)) m \<or> (j, ReadWrite) \<in> set (fs_access_upgrades (fs_run caps n)))"

lemma one_category_Suc: "one_category caps (Suc n) k \<Longrightarrow> one_category caps n k"
  by (auto simp: one_category_def)

lemma push_upgrade_mono: "set ups \<subseteq> set (push_upgrade i a ups)"
  by (auto simp: push_upgrade_def split: option.split)

lemma kept_access_Suc: "kept_access caps n j m \<Longrightarrow> kept_access caps (Suc n) j m"
  using push_upgrade_mono
  by (cases "dd_seen (fs_run caps n) (fs_key (caps ! n))")
    (fastforce simp: kept_access_def fs_step_upgrades)+

lemma fs_access_kept:
  assumes "one_category caps n (fs_key (caps ! i))" "i < n" "contains (fc_access (caps ! i)) m"
    and "dd_seen (fs_run caps n) (fs_key (caps ! i)) = Some j" "m \<noteq> ReadWrite"
  shows "kept_access caps n j m"
  using assms
proof (induction n arbitrary: i j)
  case (Suc n)
  let ?st = "fs_run caps n" and ?k = "fs_key (caps ! n)"
  have cat: "one_category caps n (fs_key (caps ! i))" using Suc.prems(1) by (rule one_category_Suc)
  have earlier: "kept_access caps (Suc n) j m"
    if "i < n" "dd_seen ?st (fs_key (caps ! i)) = Some j"
    using Suc.IH [OF cat that(1) Suc.prems(3) that(2) Suc.prems(5)] by (rule kept_access_Suc)
  show ?case
  proof (cases "dd_seen ?st ?k")
    case None
    then have "i = n \<or> fs_key (caps ! i) \<noteq> ?k \<and> i < n"
      using fsd.inv_covered [OF fs_run_inv, of i n caps] Suc.prems(2) by (auto simp: less_Suc_eq)
    then show ?thesis
      using fsd.step_fresh [OF None] Suc.prems(3,4) earlier by (auto simp: kept_access_def)
  next
    case (Some e)
    note e = fs_run_seen [OF Some]
    have user: "fs_user (caps ! e) = fs_user (caps ! n)" if "fs_key (caps ! i) = ?k"
      using that Suc.prems(1) e by (auto simp: one_category_def)
    consider (other) "fs_key (caps ! i) \<noteq> ?k" | (new) "fs_key (caps ! i) = ?k" "fs_keep_new (caps ! e) (caps ! n)"
      | (old) "fs_key (caps ! i) = ?k" "\<not> fs_keep_new (caps ! e) (caps ! n)" by blast
    then show ?thesis
    proof cases
      case other
      then have "i < n" using Suc.prems(2) by (auto simp: less_Suc_eq)
      moreover have "dd_seen ?st (fs_key (caps ! i)) = Some j"
        using other Suc.prems(4) fsd.step_new [OF Some] fsd.step_old [OF Some]
        by (cases "fs_keep_new (caps ! e) (caps ! n)") auto
      ultimately show ?thesis by (rule earlier)
    next
      case new
      then have "j = n" using Suc.prems(4) fsd.step_new [OF Some] by auto
      with new user show ?thesis by (simp add: kept_access_def fs_keep_new_def)
    next
      case old
      then have j: "j = e" using Suc.prems(4) fsd.step_old [OF Some] Some by auto
      show ?thesis
      proof (cases "i = n")
        case True
        then show ?thesis
          using old user j Suc.prems(3,5)
          by (cases "fc_access (caps ! e)"; cases "fc_access (caps ! n)"; cases m)
            (auto simp: kept_access_def fs_keep_new_def fs_step_upgrades(2) [OF Some] push_upgrade_def
              merged_access_def)
      next
        case False
        with Suc.prems(2) old Some j earlier show ?thesis by (simp add: less_Suc_eq)
      qed
    qed
  qed
qed simp

lemma fold_access_nth:
  assumes "i < length xs" "\<forall>u \<in> set us. snd u = ReadWrite"
  shows "fc_access (fold (update_at set_fs_access) us xs ! i)
    = (if (i, ReadWrite) \<in> set us then ReadWrite else fc_access (xs ! i))"
  using assms
proof (induction us arbitrary: xs)
  case (Cons u us)
  obtain k a where u: "u = (k, a)" by (cases u)
  have "fc_access (update_at set_fs_access u xs ! i) = (if k = i then ReadWrite else fc_access (xs ! i))"
    using Cons.prems by (auto simp: u update_at_def set_fs_access_def)
  with Cons.IH [of "update_at set_fs_access u xs"] Cons.prems show ?case
    by (auto simp: u update_at_def)
qed simp

text \<open>The entry kept for a key: it is the entry of index \<open>j\<close> up to its original path and its access.\<close>

abbreviation fs_final :: "fs_capability list \<Rightarrow> fs_dedup" where
  "fs_final caps \<equiv> fs_run caps (length caps)"

lemma apply_fs_updates_nth:
  fixes caps
  defines "ys \<equiv> apply_fs_updates (fs_final caps) caps"
  assumes "j < length caps"
  shows "fs_key (ys ! j) = fs_key (caps ! j)" "fc_resolved (ys ! j) = fc_resolved (caps ! j)"
    "fc_source (ys ! j) = fc_source (caps ! j)" "fc_is_file (ys ! j) = fc_is_file (caps ! j)"
    "fc_access (ys ! j) = (if (j, ReadWrite) \<in> set (fs_access_upgrades (fs_final caps)) then ReadWrite
       else fc_access (caps ! j))"
proof -
  note nth = update_at_nth [where f = set_fs_original] update_at_nth [where f = set_fs_access]
  show res: "fc_resolved (ys ! j) = fc_resolved (caps ! j)"
    using assms(2) by (simp add: ys_def apply_fs_updates_def nth [where g = fc_resolved] set_fs_access_def set_fs_original_def)
  show "fc_source (ys ! j) = fc_source (caps ! j)"
    using assms(2) by (simp add: ys_def apply_fs_updates_def nth [where g = fc_source] set_fs_access_def set_fs_original_def)
  show is_f: "fc_is_file (ys ! j) = fc_is_file (caps ! j)"
    using assms(2) by (simp add: ys_def apply_fs_updates_def nth [where g = fc_is_file] set_fs_access_def set_fs_original_def)
  show "fs_key (ys ! j) = fs_key (caps ! j)" using res is_f by (simp add: fs_key_def)
  have "\<forall>u \<in> set (fs_access_upgrades (fs_final caps)). snd u = ReadWrite"
    using fs_upgrades_ok [of caps "length caps"] by (auto simp: upgrade_ok_def)
  with assms(2) show "fc_access (ys ! j) = (if (j, ReadWrite) \<in> set (fs_access_upgrades (fs_final caps))
      then ReadWrite else fc_access (caps ! j))"
    by (simp add: ys_def apply_fs_updates_def fold_access_nth nth(1) [where g = fc_access] set_fs_original_def)
qed

lemma dedup_fs_run:
  "dedup_fs caps = remove_indices (dd_remove (fs_final caps)) (apply_fs_updates (fs_final caps) caps)"
  by (simp add: dedup_fs_def fs_run_def Let_def)

lemma dedup_fs_entries:
  "distinct (map fs_key (dedup_fs caps))"
  "r \<in> set (dedup_fs caps) \<longleftrightarrow>
     (\<exists>j. j \<in> ran (dd_seen (fs_final caps)) \<and> r = apply_fs_updates (fs_final caps) caps ! j)"
  "j \<in> ran (dd_seen (fs_final caps)) \<Longrightarrow> j < length caps"
  "i < length caps \<Longrightarrow> \<exists>j. dd_seen (fs_final caps) (fs_key (caps ! i)) = Some j
     \<and> fs_key (caps ! j) = fs_key (caps ! i) \<and> (fs_user (caps ! i) \<longrightarrow> fs_user (caps ! j))"
proof -
  have len: "length (apply_fs_updates (fs_final caps) caps) = length caps"
    by (simp add: apply_fs_updates_def)
  have init: "dd_seen fs_dedup_init = Map.empty" "dd_remove fs_dedup_init = []"
    by (simp_all add: fs_dedup_init_def)
  note R = fsd.result [OF init fs_run_def len apply_fs_updates_nth(1)]
  show "distinct (map fs_key (dedup_fs caps))" unfolding dedup_fs_run by (rule R(1))
  show "r \<in> set (dedup_fs caps) \<longleftrightarrow>
     (\<exists>j. j \<in> ran (dd_seen (fs_final caps)) \<and> r = apply_fs_updates (fs_final caps) caps ! j)"
    unfolding dedup_fs_run using R(2) by auto
  show "j \<in> ran (dd_seen (fs_final caps)) \<Longrightarrow> j < length caps" by (rule R(4))
  show "\<exists>j. dd_seen (fs_final caps) (fs_key (caps ! i)) = Some j
     \<and> fs_key (caps ! j) = fs_key (caps ! i) \<and> (fs_user (caps ! i) \<longrightarrow> fs_user (caps ! j))"
    if "i < length caps"
    using fs_run_inv that by (rule fsd.inv_kept)
qed

section \<open>Properties of filesystem deduplication\<close>

definition fs_grants :: "fs_capability list \<Rightarrow> fs_key \<Rightarrow> access_mode \<Rightarrow> bool" where
  "fs_grants caps k m = list_ex (\<lambda>c. fs_key c = k \<and> contains (fc_access c) m) caps"

definition one_source :: "fs_capability list \<Rightarrow> fs_key \<Rightarrow> bool" where
  "one_source caps k =
     (list_all (\<lambda>c. fs_key c = k \<longrightarrow> fs_user c) caps \<or> list_all (\<lambda>c. fs_key c = k \<longrightarrow> \<not> fs_user c) caps)"

lemma dedup_fs_entry:
  assumes "r \<in> set (dedup_fs caps)"
  obtains j where "j < length caps" "dd_seen (fs_final caps) (fs_key r) = Some j"
    "fs_key (caps ! j) = fs_key r" "fc_source r = fc_source (caps ! j)"
    "fc_access r = (if (j, ReadWrite) \<in> set (fs_access_upgrades (fs_final caps)) then ReadWrite
       else fc_access (caps ! j))"
proof -
  obtain j where j: "j \<in> ran (dd_seen (fs_final caps))" "r = apply_fs_updates (fs_final caps) caps ! j"
    using assms dedup_fs_entries(2) by blast
  have "j < length caps" using j(1) by (rule dedup_fs_entries(3))
  moreover obtain k where k: "dd_seen (fs_final caps) k = Some j" using j(1) by (auto simp: ran_def)
  moreover have "fs_key (caps ! j) = k" by (rule fs_run_seen(2) [OF k])
  ultimately show ?thesis using that apply_fs_updates_nth [of j caps] j(2) by metis
qed

lemma dedup_fs_key_set: "fs_key ` set (dedup_fs caps) = fs_key ` set caps"
proof (intro equalityI subsetI)
  fix k assume "k \<in> fs_key ` set (dedup_fs caps)"
  then show "k \<in> fs_key ` set caps" by (auto elim!: dedup_fs_entry) (metis imageI nth_mem)
next
  fix k assume "k \<in> fs_key ` set caps"
  then obtain i where i: "i < length caps" "k = fs_key (caps ! i)" by (auto simp: in_set_conv_nth)
  then obtain j where j: "dd_seen (fs_final caps) k = Some j" "fs_key (caps ! j) = k"
    using dedup_fs_entries(4) by blast
  then have "j \<in> ran (dd_seen (fs_final caps))" by (blast intro: ranI)
  then show "k \<in> fs_key ` set (dedup_fs caps)"
    using j(2) dedup_fs_entries(2,3) apply_fs_updates_nth(1) by (metis imageI)
qed

lemma dedup_fs_distinct: "distinct (map fs_key caps) \<Longrightarrow> dedup_fs caps = caps"
proof -
  assume "distinct (map fs_key caps)"
  then obtain f where "fs_final caps = fs_dedup_init\<lparr>dd_seen := f\<rparr>"
    using fsd.run_distinct [of caps fs_dedup_init "length caps"] by (auto simp: fs_run_def fs_dedup_init_def)
  then show ?thesis
    by (simp add: dedup_fs_run apply_fs_updates_def remove_indices_def fs_dedup_init_def)
qed

text \<open>
  C23. After deduplication no two filesystem capabilities have the same key (resolved path and
  kind), exactly the keys of the input remain, so that no path loses its grant, and a second
  deduplication changes nothing.
\<close>

theorem dedup_fs_keys:
  "distinct (map fs_key (dedup_fs caps)) \<and> fs_key ` set (dedup_fs caps) = fs_key ` set caps
   \<and> dedup_fs (dedup_fs caps) = dedup_fs caps"
  by (simp add: dedup_fs_entries(1) dedup_fs_key_set dedup_fs_distinct)

lemma dedup_fs_access_sound:
  assumes "r \<in> set (dedup_fs caps)" "m \<noteq> ReadWrite" "contains (fc_access r) m"
  shows "fs_grants caps (fs_key r) m"
proof -
  obtain j where j: "j < length caps" "fs_key (caps ! j) = fs_key r"
    "fc_access r = (if (j, ReadWrite) \<in> set (fs_access_upgrades (fs_final caps)) then ReadWrite
       else fc_access (caps ! j))"
    using assms(1) by (rule dedup_fs_entry)
  show ?thesis
  proof (cases "(j, ReadWrite) \<in> set (fs_access_upgrades (fs_final caps))")
    case True
    then have "upgrade_ok caps (length caps) (j, ReadWrite)" using fs_upgrades_ok by blast
    then obtain i where "i < length caps" "fs_key (caps ! i) = fs_key r" "fc_access (caps ! i) = m"
      using j(2) assms(2) by (cases m) (auto simp: upgrade_ok_def)
    then show ?thesis by (auto simp: fs_grants_def list_ex_iff intro!: bexI [of _ "caps ! i"])
  next
    case False
    with j assms(3) show ?thesis by (auto simp: fs_grants_def list_ex_iff intro!: bexI [of _ "caps ! j"])
  qed
qed

lemma one_source_category: "one_source caps k \<Longrightarrow> one_category caps (length caps) k"
  by (auto simp: one_source_def one_category_def list_all_iff)

lemma dedup_fs_access_complete:
  assumes "r \<in> set (dedup_fs caps)" "m \<noteq> ReadWrite" "one_source caps (fs_key r)" "fs_grants caps (fs_key r) m"
  shows "contains (fc_access r) m"
proof -
  obtain j where j: "j < length caps" "dd_seen (fs_final caps) (fs_key r) = Some j"
    "fc_access r = (if (j, ReadWrite) \<in> set (fs_access_upgrades (fs_final caps)) then ReadWrite
       else fc_access (caps ! j))"
    using assms(1) by (rule dedup_fs_entry)
  obtain i where i: "i < length caps" "fs_key (caps ! i) = fs_key r" "contains (fc_access (caps ! i)) m"
    using assms(4) by (auto simp: fs_grants_def list_ex_iff in_set_conv_nth)
  have "kept_access caps (length caps) j m"
    using fs_access_kept [of caps "length caps" i m j] i j(2) assms(2) one_source_category [OF assms(3)] by simp
  with j(3) show ?thesis by (auto simp: kept_access_def)
qed

text \<open>
  C22. Deduplication never widens access: what a surviving capability permits, some capability of the
  input with the same key permitted. When the capabilities under a key all come from user intent,
  or all from system and group sources, the survivor permits exactly what they permitted together.
\<close>

theorem dedup_fs_access:
  assumes "r \<in> set (dedup_fs caps)" "m \<noteq> ReadWrite"
  shows "(contains (fc_access r) m \<longrightarrow> fs_grants caps (fs_key r) m)
    \<and> (one_source caps (fs_key r) \<longrightarrow> contains (fc_access r) m = fs_grants caps (fs_key r) m)"
  using assms dedup_fs_access_sound dedup_fs_access_complete by blast

text \<open>
  User intent wins: when some capability under a key was given by the user or the profile, the
  survivor is such a one; and when these only grant reading and no capability under the key is
  write-only, the survivor grants reading only, whatever the system and group sources grant.
\<close>

theorem dedup_fs_user_intent:
  assumes "r \<in> set (dedup_fs caps)" "c \<in> set caps" "fs_key c = fs_key r" "fs_user c"
  shows "fs_user r
    \<and> (list_all (\<lambda>d. fs_key d = fs_key r \<longrightarrow> (fs_user d \<longrightarrow> fc_access d = Read) \<and> fc_access d \<noteq> Write) caps
        \<longrightarrow> fc_access r = Read)"
proof -
  obtain j where j: "j < length caps" "dd_seen (fs_final caps) (fs_key r) = Some j"
    "fs_key (caps ! j) = fs_key r" "fc_source r = fc_source (caps ! j)"
    "fc_access r = (if (j, ReadWrite) \<in> set (fs_access_upgrades (fs_final caps)) then ReadWrite
       else fc_access (caps ! j))"
    using assms(1) by (rule dedup_fs_entry)
  obtain i where "i < length caps" "c = caps ! i" using assms(2) by (auto simp: in_set_conv_nth)
  then have user: "fs_user (caps ! j)"
    using dedup_fs_entries(4) [of i caps] assms(3,4) j(2) by auto
  have "fc_access r = Read"
    if *: "list_all (\<lambda>d. fs_key d = fs_key r \<longrightarrow> (fs_user d \<longrightarrow> fc_access d = Read) \<and> fc_access d \<noteq> Write) caps"
  proof -
    have "(j, ReadWrite) \<notin> set (fs_access_upgrades (fs_final caps))"
    proof
      assume "(j, ReadWrite) \<in> set (fs_access_upgrades (fs_final caps))"
      then have "upgrade_ok caps (length caps) (j, ReadWrite)" using fs_upgrades_ok by blast
      with * j(3) show False by (auto simp: upgrade_ok_def list_all_length)
    qed
    with * user j show ?thesis by (auto simp: list_all_length)
  qed
  with user j(4) show ?thesis by simp
qed

section \<open>Properties of socket deduplication\<close>

abbreviation us_user :: "unix_socket_capability \<Rightarrow> bool" where
  "us_user c \<equiv> is_user_intent (us_source c)"

lemmas socket_step_simps = socket_dedup_step_def socket_keep_new_def Let_def

interpretation usd: keyed_dedup socket_key socket_keep_new us_user socket_dedup_step
  by unfold_locales (auto simp: socket_step_simps split: option.splits if_splits bool.splits)

interpretation usb: keyed_dedup socket_key socket_keep_new "\<lambda>c. us_user c \<and> permits_bind (us_mode c)"
  socket_dedup_step
  by unfold_locales (auto simp: socket_step_simps split: option.splits if_splits bool.splits)

interpretation usg: keyed_dedup socket_key socket_keep_new "\<lambda>c. us_user c \<or> permits_bind (us_mode c)"
  socket_dedup_step
  by unfold_locales (auto simp: socket_step_simps split: option.splits if_splits bool.splits)

definition socket_final :: "unix_socket_capability list \<Rightarrow> socket_dedup" where
  "socket_final caps = fold (socket_dedup_step caps) [0..<length caps] socket_dedup_init"

text \<open>The mode of an entry is never changed: the stronger entry has been kept already.\<close>

lemma socket_no_upgrades: "us_mode_upgrades (fold (socket_dedup_step caps) is st) = us_mode_upgrades st"
proof (induction "is" arbitrary: st)
  case (Cons i "is")
  have "us_mode_upgrades (socket_dedup_step caps i st) = us_mode_upgrades st"
  proof (cases "dd_seen st (socket_key (caps ! i))")
    case (Some j)
    have "\<not> (socket_same_provenance (caps ! j) (caps ! i) \<and> socket_merged_mode (caps ! j) (caps ! i)
        \<noteq> us_mode (if socket_keep_new (caps ! j) (caps ! i) then caps ! i else caps ! j))"
      by (cases "us_mode (caps ! j)"; cases "us_mode (caps ! i)")
        (auto simp: socket_same_provenance_def socket_merged_mode_def socket_keep_new_def
          split: bool.splits)
    with Some show ?thesis by (auto simp: socket_dedup_step_def Let_def)
  qed (simp add: socket_dedup_step_def Let_def)
  with Cons show ?case by simp
qed simp

lemma apply_socket_updates_nth:
  fixes caps
  defines "ys \<equiv> apply_socket_updates (socket_final caps) caps"
  assumes "j < length caps"
  shows "socket_key (ys ! j) = socket_key (caps ! j)" "us_mode (ys ! j) = us_mode (caps ! j)"
    "us_source (ys ! j) = us_source (caps ! j)"
proof -
  have "us_mode_upgrades (socket_final caps) = []"
    by (simp add: socket_final_def socket_no_upgrades socket_dedup_init_def)
  then have ys: "ys = fold (update_at set_us_original) (us_original_updates (socket_final caps)) caps"
    by (simp add: ys_def apply_socket_updates_def)
  note nth = update_at_nth [where f = set_us_original]
  show "socket_key (ys ! j) = socket_key (caps ! j)" "us_mode (ys ! j) = us_mode (caps ! j)"
    "us_source (ys ! j) = us_source (caps ! j)"
    using assms(2) unfolding ys
    by (simp_all add: socket_key_def nth [where g = us_resolved] nth [where g = us_scope]
        nth [where g = us_mode] nth [where g = us_source] set_us_original_def)
qed

lemma dedup_sockets_run:
  "dedup_sockets caps
     = remove_indices (dd_remove (socket_final caps)) (apply_socket_updates (socket_final caps) caps)"
  by (simp add: dedup_sockets_def socket_final_def Let_def)

lemmas socket_result_rules =
  usd.result [OF _ _ socket_final_def _ apply_socket_updates_nth(1)]
  usb.result [OF _ _ socket_final_def _ apply_socket_updates_nth(1)]
  usg.result [OF _ _ socket_final_def _ apply_socket_updates_nth(1)]

lemma socket_init [simp]: "dd_seen socket_dedup_init = Map.empty" "dd_remove socket_dedup_init = []"
  by (simp_all add: socket_dedup_init_def)

lemma apply_socket_updates_length [simp]: "length (apply_socket_updates st caps) = length caps"
  by (simp add: apply_socket_updates_def)

lemma dedup_sockets_entry:
  assumes "r \<in> set (dedup_sockets caps)"
  obtains c where "c \<in> set caps" "socket_key c = socket_key r" "us_mode c = us_mode r" "us_source c = us_source r"
proof -
  obtain j where "j \<in> ran (dd_seen (socket_final caps))" "r = apply_socket_updates (socket_final caps) caps ! j"
    using assms unfolding dedup_sockets_run by (auto simp: socket_result_rules(2))
  moreover from this have "j < length caps" by (simp add: socket_result_rules(4))
  ultimately show ?thesis using that [of "caps ! j"] apply_socket_updates_nth [of j caps] by simp
qed

lemma dedup_sockets_kept:
  assumes "c \<in> set caps"
  shows "\<exists>r \<in> set (dedup_sockets caps). socket_key r = socket_key c"
    and "us_user c \<and> permits_bind (us_mode c) \<Longrightarrow>
      \<exists>r \<in> set (dedup_sockets caps). socket_key r = socket_key c \<and> permits_bind (us_mode r)"
    and "us_user c \<or> permits_bind (us_mode c) \<Longrightarrow>
      \<exists>r \<in> set (dedup_sockets caps). socket_key r = socket_key c \<and> (us_user r \<or> permits_bind (us_mode r))"
proof -
  let ?ran = "ran (dd_seen (socket_final caps))" and ?ys = "apply_socket_updates (socket_final caps) caps"
  obtain i where i: "i < length caps" "c = caps ! i" using assms by (auto simp: in_set_conv_nth)
  have mem: "?ys ! j \<in> set (dedup_sockets caps)" if "j \<in> ?ran" for j
    unfolding dedup_sockets_run using that by (auto simp: socket_result_rules(2))
  have kept: "\<exists>r \<in> set (dedup_sockets caps). socket_key r = socket_key c \<and> P (us_mode r) (us_source r)"
    if "\<exists>j \<in> ?ran. socket_key (caps ! j) = socket_key (caps ! i) \<and> P (us_mode (caps ! j)) (us_source (caps ! j))"
    for P
  proof -
    from that obtain j where j: "j \<in> ?ran" "socket_key (caps ! j) = socket_key (caps ! i)"
      "P (us_mode (caps ! j)) (us_source (caps ! j))" by blast
    then have "j < length caps" by (simp add: socket_result_rules(4))
    with j mem [OF j(1)] i show ?thesis using apply_socket_updates_nth [of j caps] by metis
  qed
  show "\<exists>r \<in> set (dedup_sockets caps). socket_key r = socket_key c"
    using kept [of "\<lambda>_ _. True"] socket_result_rules(3) [OF _ _ _ _ i(1)] by auto
  show "\<exists>r \<in> set (dedup_sockets caps). socket_key r = socket_key c \<and> permits_bind (us_mode r)"
    if "us_user c \<and> permits_bind (us_mode c)"
    using kept [of "\<lambda>m _. permits_bind m"] socket_result_rules(7) [OF _ _ _ _ i(1)] that i(2) by auto
  show "\<exists>r \<in> set (dedup_sockets caps). socket_key r = socket_key c \<and> (us_user r \<or> permits_bind (us_mode r))"
    if "us_user c \<or> permits_bind (us_mode c)"
    using kept [of "\<lambda>m s. is_user_intent s \<or> permits_bind m"] socket_result_rules(11) [OF _ _ _ _ i(1)] that i(2) by auto
qed

lemma covers_key: "socket_key c = socket_key d \<Longrightarrow> covers c p = covers d p"
proof -
  assume "socket_key c = socket_key d"
  then have "us_scope c = us_scope d" "components (us_resolved c) = components (us_resolved d)"
    by (simp_all add: socket_key_def)
  then show ?thesis
    by (simp add: covers_def path_eq_def path_starts_with_iff split: socket_scope.split option.split)
qed

lemma deduplicate_sockets [simp]: "unix_sockets (deduplicate s) = dedup_sockets (unix_sockets s)"
  by (simp add: deduplicate_def deduplicate_unix_sockets_def)

lemma deduplicate_fs [simp]: "fs (deduplicate s) = dedup_fs (fs s)"
  by (simp add: deduplicate_def deduplicate_unix_sockets_def)

lemma socket_allowed:
  "unix_socket_allowed s p op \<longleftrightarrow>
     (\<exists>c \<in> set (unix_sockets s). covers c p \<and> (op = OpBind \<longrightarrow> permits_bind (us_mode c)))"
  by (cases op) (auto simp: unix_socket_allowed_def matching_unix_socket_def find_is_some)

text \<open>
  C30. Socket deduplication keeps every decision to connect and to send, and never allows a bind that
  was not allowed before. A bind granted by user intent stays allowed, and so does one granted by
  system or group sources when no user-intent grant has the same path and scope; so the only binds
  that are lost are those a user-intent grant for the same path and scope deliberately leaves out.
\<close>

theorem deduplicate_socket_decisions:
  "unix_socket_allowed (deduplicate s) p OpConnect = unix_socket_allowed s p OpConnect
   \<and> unix_socket_allowed (deduplicate s) p OpSend = unix_socket_allowed s p OpSend
   \<and> (unix_socket_allowed (deduplicate s) p OpBind \<longrightarrow> unix_socket_allowed s p OpBind)
   \<and> (\<forall>c \<in> set (unix_sockets s). covers c p \<longrightarrow> us_mode c = ConnectBind \<longrightarrow>
        us_user c \<or> list_all (\<lambda>d. socket_key d = socket_key c \<longrightarrow> \<not> us_user d) (unix_sockets s) \<longrightarrow>
        unix_socket_allowed (deduplicate s) p OpBind)"
proof (intro conjI)
  have fwd: "unix_socket_allowed (deduplicate s) p op \<Longrightarrow> unix_socket_allowed s p op" for op
    unfolding socket_allowed by (auto elim!: dedup_sockets_entry) (metis covers_key)+
  have bwd: "unix_socket_allowed s p op \<Longrightarrow> op \<noteq> OpBind \<Longrightarrow> unix_socket_allowed (deduplicate s) p op" for op
    unfolding socket_allowed deduplicate_sockets using dedup_sockets_kept(1) covers_key by metis
  show "unix_socket_allowed (deduplicate s) p OpConnect = unix_socket_allowed s p OpConnect"
    using fwd bwd by blast
  show "unix_socket_allowed (deduplicate s) p OpSend = unix_socket_allowed s p OpSend"
    using fwd bwd by blast
  show "unix_socket_allowed (deduplicate s) p OpBind \<longrightarrow> unix_socket_allowed s p OpBind"
    using fwd by blast
  show "\<forall>c \<in> set (unix_sockets s). covers c p \<longrightarrow> us_mode c = ConnectBind \<longrightarrow>
        us_user c \<or> list_all (\<lambda>d. socket_key d = socket_key c \<longrightarrow> \<not> us_user d) (unix_sockets s) \<longrightarrow>
        unix_socket_allowed (deduplicate s) p OpBind"
  proof (intro ballI impI)
    fix c assume c: "c \<in> set (unix_sockets s)" "covers c p" "us_mode c = ConnectBind"
      and src: "us_user c \<or> list_all (\<lambda>d. socket_key d = socket_key c \<longrightarrow> \<not> us_user d) (unix_sockets s)"
    from src have "\<exists>r \<in> set (dedup_sockets (unix_sockets s)). socket_key r = socket_key c \<and> permits_bind (us_mode r)"
    proof
      assume "us_user c"
      then show ?thesis using dedup_sockets_kept(2) [OF c(1)] c(3) by simp
    next
      assume none: "list_all (\<lambda>d. socket_key d = socket_key c \<longrightarrow> \<not> us_user d) (unix_sockets s)"
      obtain r where r: "r \<in> set (dedup_sockets (unix_sockets s))" "socket_key r = socket_key c"
        "us_user r \<or> permits_bind (us_mode r)"
        using dedup_sockets_kept(3) [OF c(1)] c(3) by auto
      moreover have "\<not> us_user r"
        using dedup_sockets_entry [OF r(1)] none r(2) unfolding list_all_iff by metis
      ultimately show ?thesis by blast
    qed
    then show "unix_socket_allowed (deduplicate s) p OpBind"
      unfolding socket_allowed deduplicate_sockets using covers_key c(2) by metis
  qed
qed

definition demo_socket :: "capability_source \<Rightarrow> unix_socket_mode \<Rightarrow> unix_socket_capability" where
  "demo_socket src mode = \<lparr>us_original = ''/run/s'', us_resolved = ''/run/s'', us_scope = ScopeFile,
     us_mode = mode, us_source = src\<rparr>"

theorem deduplicate_socket_decisions_witness:
  "let s = new_caps\<lparr>unix_sockets := [demo_socket System Connect, demo_socket User ConnectBind]\<rparr> in
   unix_socket_allowed (deduplicate s) ''/run/s'' OpBind
   \<and> length (unix_sockets (deduplicate s)) = 1"
proof -
  let ?s = "new_caps\<lparr>unix_sockets := [demo_socket System Connect, demo_socket User ConnectBind]\<rparr>"
  have c: "demo_socket User ConnectBind \<in> set (unix_sockets ?s)" "covers (demo_socket User ConnectBind) ''/run/s''"
    "us_mode (demo_socket User ConnectBind) = ConnectBind" "us_user (demo_socket User ConnectBind)"
    by (simp_all add: demo_socket_def covers_def)
  have "length (unix_sockets (deduplicate ?s)) = 1" by code_simp
  with deduplicate_socket_decisions [of ?s "''/run/s''"] c show ?thesis by (simp add: Let_def)
qed

lemma path_covered_dedup: "path_covered (deduplicate s) p = path_covered s p"
proof -
  have cov: "path_covered s p \<longleftrightarrow> (\<exists>k \<in> fs_key ` set (fs s). \<not> snd k \<and> prefix (fst k) (components p))" for s
    by (auto simp: path_covered_def list_ex_iff fs_key_def path_starts_with_iff)
  show ?thesis unfolding cov by (simp only: deduplicate_fs dedup_fs_key_set)
qed

lemma path_covered_access_grants:
  "path_covered_with_access s p m \<longleftrightarrow>
     (\<exists>c \<in> set (fs s). \<not> snd (fs_key c) \<and> prefix (fst (fs_key c)) (components p) \<and> contains (fc_access c) m)"
  by (simp add: path_covered_with_access_def list_ex_iff fs_key_def path_starts_with_iff)

lemma path_covered_access_dedup:
  assumes "m \<noteq> ReadWrite" "path_covered_with_access (deduplicate s) p m"
  shows "path_covered_with_access s p m"
proof -
  from assms(2) obtain r where r: "r \<in> set (dedup_fs (fs s))" "\<not> snd (fs_key r)"
    "prefix (fst (fs_key r)) (components p)" "contains (fc_access r) m"
    unfolding path_covered_access_grants by auto
  then have "fs_grants (fs s) (fs_key r) m" using assms(1) by (intro dedup_fs_access_sound)
  then obtain c where "c \<in> set (fs s)" "fs_key c = fs_key r" "contains (fc_access c) m"
    by (auto simp: fs_grants_def list_ex_iff)
  with r show ?thesis unfolding path_covered_access_grants by metis
qed

text \<open>
  Deduplication does not change which paths are covered by a directory capability, and never
  makes a path covered for reading or for writing that was not so before.
\<close>

theorem deduplicate_coverage:
  "path_covered (deduplicate s) p = path_covered s p
   \<and> (path_covered_with_access (deduplicate s) p Read \<longrightarrow> path_covered_with_access s p Read)
   \<and> (path_covered_with_access (deduplicate s) p Write \<longrightarrow> path_covered_with_access s p Write)"
  using path_covered_access_dedup by (simp add: path_covered_dedup)

definition demo_fs :: "capability_source \<Rightarrow> access_mode \<Rightarrow> fs_capability" where
  "demo_fs src access = \<lparr>fc_original = ''/tmp'', fc_resolved = ''/tmp'', fc_access = access,
     fc_is_file = False, fc_source = src\<rparr>"

theorem deduplicate_coverage_witness:
  "let s = new_caps\<lparr>fs := [demo_fs System Read, demo_fs System Write]\<rparr> in
   path_covered_with_access (deduplicate s) ''/tmp/x'' Write \<and> path_covered_with_access s ''/tmp/x'' Write"
proof -
  let ?s = "new_caps\<lparr>fs := [demo_fs System Read, demo_fs System Write]\<rparr>"
  have "path_covered_with_access (deduplicate ?s) ''/tmp/x'' Write" by code_simp
  with deduplicate_coverage [of ?s "''/tmp/x''"] show ?thesis by (simp add: Let_def)
qed

theorem dedup_fs_access_witness:
  "demo_fs User ReadWrite \<in> set (dedup_fs [demo_fs User Read, demo_fs User Write])
   \<and> fs_grants [demo_fs User Read, demo_fs User Write] (fs_key (demo_fs User ReadWrite)) Write"
proof -
  have m: "demo_fs User ReadWrite \<in> set (dedup_fs [demo_fs User Read, demo_fs User Write])" by code_simp
  have "contains (fc_access (demo_fs User ReadWrite)) Write" by (simp add: demo_fs_def)
  with m dedup_fs_access [OF m, of Write] show ?thesis by simp
qed

theorem dedup_fs_user_intent_witness:
  "fs_user (demo_fs User Read)
   \<and> demo_fs User Read \<in> set (dedup_fs [demo_fs System ReadWrite, demo_fs User Read])"
proof -
  have m: "demo_fs User Read \<in> set (dedup_fs [demo_fs System ReadWrite, demo_fs User Read])" by code_simp
  have "demo_fs User Read \<in> set [demo_fs System ReadWrite, demo_fs User Read]" "fs_user (demo_fs User Read)"
    by (simp_all add: demo_fs_def)
  from m dedup_fs_user_intent [OF m this(1) refl this(2)] show ?thesis by blast
qed

text \<open>
  The access modes of colliding entries are merged across source categories: a user's read-only
  capability stays read-only beside a system capability for reading and writing, but becomes
  read-write beside a system capability for writing only.
\<close>

theorem dedup_fs_cross_source_merge:
  "dedup_fs [demo_fs User Read, demo_fs System ReadWrite] = [demo_fs User Read]
   \<and> dedup_fs [demo_fs User Read, demo_fs System Write] = [demo_fs User ReadWrite]"
  by code_simp

section \<open>Properties of the procfs rewriting\<close>

text \<open>
  A path is rewritten exactly when it is one of the four aliases under \<open>/dev\<close> or lies at or
  below \<open>/proc/self\<close> or \<open>/proc/thread-self\<close>, independently of the process ids.
\<close>

theorem rewrite_procfs_domain:
  "rewrite_procfs_self_reference p pid tid \<noteq> None \<longleftrightarrow>
     (\<exists>d \<in> {''/dev/fd'', ''/dev/stdin'', ''/dev/stdout'', ''/dev/stderr''}. path_eq p d)
     \<or> path_starts_with p ''/proc/self'' \<or> path_starts_with p ''/proc/thread-self''"
proof -
  have "components ''/proc/self'' = [RootDir, Normal ''proc'', Normal ''self'']"
    "components ''/proc/thread-self'' = [RootDir, Normal ''proc'', Normal ''thread-self'']"
    by code_simp+
  then show ?thesis
    by (auto simp: rewrite_procfs_self_reference_def path_starts_with_iff Let_def prefix_def
        split: list.splits component.splits if_splits)
qed

end
