(* ===== verification/Nono_Path.thy ===== *)
theory Nono_Path
  imports Nono_Error
begin

text \<open>
  Path utilities (\<open>crates/nono/src/path.rs\<close>): canonicalisation with the ancestor-walk fallback and
  the collection of symbolic-link hops. \<open>resolve_hops\<close> calls itself for the target of a link; the
  nesting is bounded by the counter \<open>depth\<close>, and the model carries that bound as fuel, which
  \<open>hops_fuel_enough\<close> shows to be sufficient.
\<close>

section \<open>Ancestor walk\<close>

function ancestor_walk_loop :: "host \<Rightarrow> path \<Rightarrow> string list \<Rightarrow> path option" where
  "ancestor_walk_loop h current remaining =
     (case canonicalize h current of
        Inr canonical \<Rightarrow> Some (foldl join canonical (rev remaining))
      | Inl _ \<Rightarrow>
          (case file_name current of
             Some name \<Rightarrow>
               (case parent current of
                  Some up \<Rightarrow> ancestor_walk_loop h up (remaining @ [name])
                | None \<Rightarrow> None)
           | None \<Rightarrow> None))"
  by pat_completeness auto
termination
  by (relation "measure (\<lambda>(h, current, remaining). length current)") (auto dest: parent_shrinks)

declare ancestor_walk_loop.simps [simp del]

definition try_canonicalize_ancestor_walk :: "host \<Rightarrow> path \<Rightarrow> path" where
  "try_canonicalize_ancestor_walk h path =
     (case ancestor_walk_loop h path [] of Some result \<Rightarrow> result | None \<Rightarrow> path)"

definition try_canonicalize :: "host \<Rightarrow> path \<Rightarrow> path" where
  "try_canonicalize h path =
     (case canonicalize h path of
        Inr canonical \<Rightarrow> canonical
      | Inl _ \<Rightarrow> try_canonicalize_ancestor_walk h path)"

section \<open>Symbolic-link hops\<close>

definition MAX_SYMLINK_HOPS :: nat where
  "MAX_SYMLINK_HOPS = 40"

record hop_state =
  hop_list :: "path list"
  hop_seen :: "component list list"
  hop_depth :: nat

definition link_target :: "path \<Rightarrow> path \<Rightarrow> path" where
  "link_target result target =
     (if is_absolute target then target
      else (case parent result of Some par \<Rightarrow> join par target | None \<Rightarrow> target))"

text \<open>What happens at a named component: the new state, and the target to resolve when the path is a
  symbolic link that has not been seen before.\<close>

definition visit_link :: "host \<Rightarrow> path \<Rightarrow> hop_state \<Rightarrow> hop_state \<times> path option" where
  "visit_link h result st =
     (if hop_depth st \<ge> MAX_SYMLINK_HOPS then (st, None)
      else
        (case symlink_metadata h result of
           Inr (LinkN _) \<Rightarrow>
             (let st = st\<lparr>hop_depth := hop_depth st + 1\<rparr> in
              if components result \<in> set (hop_seen st) then (st, None)
              else
                (let st = st\<lparr>hop_seen := components result # hop_seen st,
                             hop_list := hop_list st @ [result]\<rparr>
                 in (st, case read_link h result of
                           Inr target \<Rightarrow> Some (link_target result target)
                         | Inl _ \<Rightarrow> None)))
         | _ \<Rightarrow> (st, None)))"

fun resolve_hops_loop ::
  "host \<Rightarrow> nat \<Rightarrow> component list \<Rightarrow> path \<Rightarrow> hop_state \<Rightarrow> path \<times> hop_state" where
  "resolve_hops_loop h fuel [] result st = (result, st)"
| "resolve_hops_loop h fuel (RootDir # cs) result st = resolve_hops_loop h fuel cs (join result ''/'') st"
| "resolve_hops_loop h fuel (CurDir # cs) result st = resolve_hops_loop h fuel cs result st"
| "resolve_hops_loop h fuel (ParentDir # cs) result st =
     resolve_hops_loop h fuel cs (case parent result of Some p \<Rightarrow> p | None \<Rightarrow> result) st"
| "resolve_hops_loop h fuel (Normal segment # cs) result st =
     (case visit_link h (join result segment) st of
        (st, None) \<Rightarrow> resolve_hops_loop h fuel cs (join result segment) st
      | (st, Some target) \<Rightarrow>
          (case fuel of
             0 \<Rightarrow> resolve_hops_loop h fuel cs (join result segment) st
           | Suc fuel' \<Rightarrow>
               (case resolve_hops_loop h fuel' (components target) [] st of
                  (result, st) \<Rightarrow> resolve_hops_loop h fuel cs result st)))"

definition resolve_hops :: "host \<Rightarrow> path \<Rightarrow> hop_state \<Rightarrow> path \<times> hop_state" where
  "resolve_hops h path st = resolve_hops_loop h (MAX_SYMLINK_HOPS - hop_depth st) (components path) [] st"

definition collect_symlink_hops :: "host \<Rightarrow> path \<Rightarrow> path list" where
  "collect_symlink_hops h path =
     hop_list (snd (resolve_hops h path \<lparr>hop_list = [], hop_seen = [], hop_depth = 0\<rparr>))"

section \<open>Properties of the ancestor walk\<close>

lemma resolve_skips: "list_all skip_seg segs \<Longrightarrow> resolve h follow links cur segs = Inr cur"
  by (induction segs) simp_all

lemma canonicalize_root:
  assumes "components p = [RootDir]" "CHR 0x00 \<notin> set p"
  shows "canonicalize h p = Inr (abs_path [])"
proof -
  have "has_root p" using assms(1) by (auto simp: has_root_components)
  then obtain t where p: "p = slash # t" by (cases p) (auto simp: has_root_def)
  have "filter (\<lambda>s. \<not> skip_seg s) (split_on slash t) = []"
    using assms(1) \<open>has_root p\<close>
    by (simp add: components_def front_comps_def body_segs_def front_len_def p)
  then have "list_all skip_seg (split_on slash p)"
    by (auto simp: p list_all_iff filter_empty_conv skip_seg_def)
  with assms(2) show ?thesis
    by (simp add: canonicalize_def lookup_path_def resolve_skips \<open>has_root p\<close> p [symmetric])
      (simp add: p)
qed

lemma set_parent: "parent p = Some q \<Longrightarrow> set q \<subseteq> set p"
  using parent_shrinks set_mono_prefix by blast

text \<open>What the walk returns on an absolute path without \<open>..\<close>: its deepest ancestor that
  canonicalises, followed by the remaining names.\<close>

definition walk_result :: "host \<Rightarrow> path \<Rightarrow> path \<Rightarrow> path \<Rightarrow> string list \<Rightarrow> bool" where
  "walk_result h p a q names \<longleftrightarrow>
     a \<in> set (ancestors p) \<and> canonicalize h a = Inr q \<and> components p = components a @ map Normal names
     \<and> list_all normal_seg names
     \<and> (\<forall>b \<in> set (ancestors p). length (components a) < length (components b) \<longrightarrow>
          (\<exists>e. canonicalize h b = Inl e))"

lemma ancestors_length: "b \<in> set (ancestors p) \<Longrightarrow> length (components b) \<le> length (components p)"
  using ancestors_starts_with [of b p] by (simp add: path_starts_with_iff prefix_length_le)

lemma walk_here: "canonicalize h p = Inr q \<Longrightarrow> walk_result h p p q []"
  using ancestors_length [of _ p] by (fastforce simp: walk_result_def)

lemma walk_up:
  assumes "parent p = Some up" "file_name p = Some name" "canonicalize h p = Inl e"
    "walk_result h up a q names"
  shows "walk_result h p a q (names @ [name])"
proof -
  have "components p \<noteq> []" "last (components p) = Normal name" "normal_seg name"
    using file_name_normal [OF assms(2)] by auto
  then have "components p = components up @ [Normal name]"
    using components_parent [OF assms(1)] by (metis append_butlast_last_id)
  moreover have "ancestors p = p # ancestors up" using assms(1) by (simp add: ancestors.simps [of p])
  ultimately show ?thesis using assms(3,4) \<open>normal_seg name\<close> by (auto simp: walk_result_def)
qed

lemma ancestor_walk_correct:
  assumes "has_root p" "ParentDir \<notin> set (components p)" "CHR 0x00 \<notin> set p"
  shows "\<exists>a q names. walk_result h p a q names
    \<and> ancestor_walk_loop h p remaining = Some (foldl join q (names @ rev remaining))"
  using assms
proof (induction h p remaining rule: ancestor_walk_loop.induct)
  case (1 h p remaining)
  show ?case
  proof (cases "canonicalize h p")
    case (Inr q)
    then show ?thesis
      using walk_here [OF Inr] by (auto simp: ancestor_walk_loop.simps [of h p] intro!: exI)
  next
    case (Inl e)
    with "1.prems"(1,3) have two: "components p \<noteq> [RootDir]" "components p \<noteq> []"
      using canonicalize_root [of p h] has_root_components [of p] by auto
    then obtain up where up: "parent p = Some up" using parent_None [of p] by auto
    have root: "has_root up"
      using components_parent [OF up] "1.prems"(1) two
      by (auto simp: has_root_components)
    have dots: "ParentDir \<notin> set (components up)"
      using components_parent [OF up] "1.prems"(2) by (auto dest: in_set_butlastD)
    have "last (components p) \<in> set (tl (components p))"
      using two "1.prems"(1) by (auto simp: has_root_components)
    then have "last (components p) \<noteq> RootDir \<and> last (components p) \<noteq> CurDir"
      using rooted_components "1.prems"(1) by blast
    moreover have "last (components p) \<noteq> ParentDir" using two "1.prems"(2) last_in_set by metis
    ultimately obtain name where name: "file_name p = Some name"
      using two by (cases "last (components p)") (auto simp: file_name_def)
    have "CHR 0x00 \<notin> set up" using set_parent [OF up] "1.prems"(3) by auto
    with "1.IH" [OF Inl name up root dots] obtain a q names where
      "walk_result h up a q names"
      "ancestor_walk_loop h up (remaining @ [name]) = Some (foldl join q (names @ rev (remaining @ [name])))"
      by auto
    then show ?thesis
      using walk_up [OF up name Inl] Inl name up
      by (auto simp: ancestor_walk_loop.simps [of h p] intro!: exI [of _ "names @ [name]"] exI)
  qed
qed

lemma components_foldl_join:
  "list_all normal_seg names \<Longrightarrow> components (foldl join q names) = components q @ map Normal names"
  by (induction names arbitrary: q) simp_all

text \<open>
  On an absolute path without \<open>..\<close>, \<open>try_canonicalize\<close> always finds the deepest ancestor that
  canonicalises, and returns the canonical form of that ancestor followed by the remaining names of
  the path; no deeper ancestor could have been canonicalised.
\<close>

theorem try_canonicalize_correct:
  assumes "wf_host h" "has_root p" "ParentDir \<notin> set (components p)" "CHR 0x00 \<notin> set p"
  shows "\<exists>a k names. walk_result h p a (abs_path k) names \<and> canon_end h k
    \<and> components (try_canonicalize h p) = RootDir # map Normal (k @ names)"
proof -
  have "\<exists>a q names. walk_result h p a q names \<and> try_canonicalize h p = foldl join q names"
  proof (cases "canonicalize h p")
    case (Inr q)
    then show ?thesis
      using walk_here [OF Inr] by (auto simp: try_canonicalize_def intro!: exI [of _ "[]"] exI)
  next
    case (Inl e)
    then show ?thesis
      using ancestor_walk_correct [OF assms(2-4), of h "[]"]
      by (auto simp: try_canonicalize_def try_canonicalize_ancestor_walk_def) blast
  qed
  then obtain a q names where w: "walk_result h p a q names" "try_canonicalize h p = foldl join q names"
    by blast
  then obtain k where k: "q = abs_path k" "canon_end h k"
    using canonicalize_Inr [OF assms(1), of a q] by (auto simp: walk_result_def)
  have "components q = RootDir # map Normal k"
    unfolding k(1) using k(2) by (auto simp: canon_end_def intro!: components_abs_path dest: on_canon_names)
  then show ?thesis
    using w k components_foldl_join [of names q] by (auto simp: walk_result_def)
qed

theorem try_canonicalize_correct_witness:
  "wf_host demo_host \<and> (\<exists>a k names. walk_result demo_host ''/link/new/file'' a (abs_path k) names)
   \<and> try_canonicalize demo_host ''/link/new/file'' = ''/tmp/new/file''"
proof -
  have p: "has_root ''/link/new/file''" "ParentDir \<notin> set (components ''/link/new/file'')"
    "CHR 0x00 \<notin> set ''/link/new/file''" by code_simp+
  have "try_canonicalize demo_host ''/link/new/file'' = ''/tmp/new/file''" by code_simp
  with try_canonicalize_correct [OF demo_host_wf p] demo_host_wf show ?thesis by blast
qed

section \<open>Properties of the hops\<close>

definition hops_ok :: "host \<Rightarrow> hop_state \<Rightarrow> bool" where
  "hops_ok h st \<longleftrightarrow>
     length (hop_list st) \<le> hop_depth st \<and> hop_depth st \<le> MAX_SYMLINK_HOPS
     \<and> set (hop_seen st) = components ` set (hop_list st) \<and> distinct (map components (hop_list st))
     \<and> (\<forall>p \<in> set (hop_list st). \<exists>t. symlink_metadata h p = Inr (LinkN t))"

lemma visit_link_ok:
  assumes "hops_ok h st" "visit_link h p st = (st', t)"
  shows "hops_ok h st'" "hop_depth st \<le> hop_depth st'"
    and "t \<noteq> None \<Longrightarrow> hop_depth st < MAX_SYMLINK_HOPS \<and> hop_depth st' = Suc (hop_depth st)"
  using assms
  by (auto simp: visit_link_def hops_ok_def Let_def split: if_splits sum.splits node.splits)

lemma resolve_hops_ok:
  "hops_ok h st \<Longrightarrow> resolve_hops_loop h fuel cs result st = (r, st') \<Longrightarrow>
   hops_ok h st' \<and> hop_depth st \<le> hop_depth st'"
proof (induction h fuel cs result st arbitrary: r st' rule: resolve_hops_loop.induct)
  case (5 h fuel segment cs result st)
  obtain st1 t where v: "visit_link h (join result segment) st = (st1, t)" by fastforce
  note ok = visit_link_ok [OF "5.prems"(1) v]
  note eq = v [symmetric]
  show ?case
  proof (cases t)
    case None
    with v "5.prems"(2) have "resolve_hops_loop h fuel cs (join result segment) st1 = (r, st')" by simp
    from "5.IH"(1) [OF eq None ok(1) this] ok(2) show ?thesis by auto
  next
    case (Some target)
    show ?thesis
    proof (cases fuel)
      case 0
      with v Some "5.prems"(2) have "resolve_hops_loop h fuel cs (join result segment) st1 = (r, st')"
        by simp
      from "5.IH"(2) [OF eq Some 0 ok(1) this] ok(2) show ?thesis by auto
    next
      case (Suc f)
      obtain r2 st2 where l: "resolve_hops_loop h f (components target) [] st1 = (r2, st2)" by fastforce
      from "5.IH"(3) [OF eq Some Suc ok(1) l] have ok2: "hops_ok h st2" "hop_depth st1 \<le> hop_depth st2"
        by auto
      from v Some Suc l "5.prems"(2) have "resolve_hops_loop h fuel cs r2 st2 = (r, st')" by simp
      from "5.IH"(4) [OF eq Some Suc l [symmetric] ok2(1) this] ok(2) ok2(2) show ?thesis by auto
    qed
  qed
qed auto

text \<open>The fuel is never used up: any amount above the remaining depth gives the same result.\<close>

lemma hops_fuel_enough:
  assumes "hops_ok h st" "MAX_SYMLINK_HOPS - hop_depth st \<le> fuel" "fuel \<le> fuel'"
  shows "resolve_hops_loop h fuel' cs result st = resolve_hops_loop h fuel cs result st"
  using assms
proof (induction h fuel cs result st arbitrary: fuel' rule: resolve_hops_loop.induct)
  case (5 h fuel segment cs result st)
  obtain st1 t where v: "visit_link h (join result segment) st = (st1, t)" by fastforce
  note ok = visit_link_ok [OF "5.prems"(1) v]
  have less: "MAX_SYMLINK_HOPS - hop_depth st1 \<le> fuel" using ok(2) "5.prems"(2) by simp
  show ?case
  proof (cases t)
    case None
    with v "5.IH"(1) [OF v [symmetric] None ok(1) less "5.prems"(3)] show ?thesis by simp
  next
    case (Some target)
    with ok(3) "5.prems"(2,3) obtain f f' where f: "fuel = Suc f" "fuel' = Suc f'" "f \<le> f'"
      "MAX_SYMLINK_HOPS - hop_depth st1 \<le> f"
      by (cases fuel; cases fuel') auto
    obtain r2 st2 where l: "resolve_hops_loop h f (components target) [] st1 = (r2, st2)" by fastforce
    have l': "resolve_hops_loop h f' (components target) [] st1 = (r2, st2)"
      using "5.IH"(3) [OF v [symmetric] Some f(1) ok(1) f(4,3)] l by simp
    have ok2: "hops_ok h st2" "hop_depth st1 \<le> hop_depth st2" using resolve_hops_ok [OF ok(1) l] by auto
    have "resolve_hops_loop h fuel' cs r2 st2 = resolve_hops_loop h fuel cs r2 st2"
      using "5.IH"(4) [OF v [symmetric] Some f(1) l [symmetric] ok2(1) _ "5.prems"(3)] ok2(2) less by simp
    with v Some f l l' show ?thesis by simp
  qed
next
  case (1 h fuel result st)
  show ?case by simp
next
  case (2 h fuel cs result st)
  from "2.IH" [OF "2.prems"] show ?case by simp
next
  case (3 h fuel cs result st)
  from "3.IH" [OF "3.prems"] show ?case by simp
next
  case (4 h fuel cs result st)
  from "4.IH" [OF "4.prems"] show ?case by simp
qed

text \<open>
  The collected hops are pairwise different symbolic links of the host, at most forty of them:
  the traversal of link chains, cycles included, always ends.
\<close>

theorem collect_symlink_hops_correct:
  "length (collect_symlink_hops h p) \<le> MAX_SYMLINK_HOPS
   \<and> distinct (map components (collect_symlink_hops h p))
   \<and> list_all (\<lambda>q. case symlink_metadata h q of Inr (LinkN _) \<Rightarrow> True | _ \<Rightarrow> False) (collect_symlink_hops h p)"
proof -
  let ?st = "\<lparr>hop_list = [], hop_seen = [], hop_depth = 0\<rparr>"
  obtain r st where "resolve_hops h p ?st = (r, st)" by fastforce
  moreover have "hops_ok h ?st" by (simp add: hops_ok_def)
  ultimately have "hops_ok h st" "collect_symlink_hops h p = hop_list st"
    using resolve_hops_ok by (auto simp: resolve_hops_def collect_symlink_hops_def)
  then show ?thesis by (fastforce simp: hops_ok_def list_all_iff)
qed

end
