(* ===== verification/Query.thy ===== *)
theory Query
  imports Cap_Dedup Nono_Path
begin

text \<open>
  The permission query (\<open>crates/nono/src/query.rs\<close>): whether a capability set permits an access,
  without applying the sandbox. The query context is the capability set itself.
\<close>

datatype allow_reason = GrantedPath string string | NetworkAllowed

datatype deny_reason = PathNotGranted | InsufficientAccess string string | NetworkBlocked

datatype query_result = Allowed allow_reason | Denied deny_reason

text \<open>The closure \<open>covers\<close> of \<open>query_path\<close>.\<close>

definition query_covers :: "path \<Rightarrow> path \<Rightarrow> bool \<Rightarrow> fs_capability \<Rightarrow> bool" where
  "query_covers path query_path full_canonical_is_none cap =
     (if fc_is_file cap then
        path_eq query_path (fc_resolved cap)
        \<or> (full_canonical_is_none \<and> path_eq path (fc_original cap))
      else
        path_starts_with query_path (fc_resolved cap)
        \<or> (full_canonical_is_none \<and> path_starts_with path (fc_original cap)))"

definition query_covering :: "host \<Rightarrow> path \<Rightarrow> fs_capability \<Rightarrow> bool" where
  "query_covering h path =
     (case canonicalize h path of
        Inr c \<Rightarrow> query_covers path c False
      | Inl _ \<Rightarrow> query_covers path (try_canonicalize_ancestor_walk h path) True)"

definition query_path :: "host \<Rightarrow> capability_set \<Rightarrow> path \<Rightarrow> access_mode \<Rightarrow> query_result" where
  "query_path h caps path requested =
     (let covering = scan_covering caps requested (query_covering h path) in
      case best_sufficient covering of
        Some cap \<Rightarrow> Allowed (GrantedPath (fc_resolved cap) (access_display (fc_access cap)))
      | None \<Rightarrow>
          (case (best_read covering, best_write covering) of
             (Some read_cap, Some write_cap) \<Rightarrow>
               Allowed (GrantedPath
                 (fc_resolved read_cap @ '' (read) + '' @ fc_resolved write_cap @ '' (write)'')
                 (access_display ReadWrite))
           | _ \<Rightarrow>
               (case best_covering covering of
                  Some cap \<Rightarrow> Denied (InsufficientAccess (access_display (fc_access cap)) (access_display requested))
                | None \<Rightarrow> Denied PathNotGranted)))"

definition query_network :: "capability_set \<Rightarrow> query_result" where
  "query_network caps = (if is_network_blocked caps then Denied NetworkBlocked else Allowed NetworkAllowed)"

section \<open>Properties\<close>

definition allowed :: "query_result \<Rightarrow> bool" where
  "allowed r = (case r of Allowed _ \<Rightarrow> True | Denied _ \<Rightarrow> False)"

text \<open>The reference semantics: each permission of the request is granted by some covering capability,
  not necessarily the same.\<close>

definition granted :: "(fs_capability \<Rightarrow> bool) \<Rightarrow> fs_capability list \<Rightarrow> access_mode \<Rightarrow> bool" where
  "granted cov caps requested =
     ((contains requested Read \<longrightarrow> list_ex (\<lambda>c. cov c \<and> contains (fc_access c) Read) caps)
      \<and> (contains requested Write \<longrightarrow> list_ex (\<lambda>c. cov c \<and> contains (fc_access c) Write) caps))"

lemma is_best_None: "is_best P xs None \<longleftrightarrow> \<not> list_ex P xs"
  by (simp add: is_best_def)

lemma is_best_ex: "is_best P xs r \<Longrightarrow> r \<noteq> None \<longleftrightarrow> list_ex P xs"
  by (auto simp: is_best_def list_ex_iff split: option.splits)

lemma granted_split:
  "granted cov caps requested \<longleftrightarrow>
     list_ex (\<lambda>c. cov c \<and> contains (fc_access c) requested) caps
     \<or> (list_ex (\<lambda>c. requested = ReadWrite \<and> cov c \<and> contains (fc_access c) Read) caps
         \<and> list_ex (\<lambda>c. requested = ReadWrite \<and> cov c \<and> contains (fc_access c) Write) caps)"
proof (cases requested)
  case ReadWrite
  then show ?thesis by (auto simp: granted_def list_ex_iff contains_ReadWrite)
qed (auto simp: granted_def list_ex_iff)

lemma query_path_allowed:
  "allowed (query_path h caps path requested) \<longleftrightarrow> granted (query_covering h path) (fs caps) requested"
proof -
  let ?r = "scan_covering caps requested (query_covering h path)"
  note best = scan_covering_best [where s = caps and requested = requested and cov = "query_covering h path"]
  have "allowed (query_path h caps path requested) \<longleftrightarrow>
      best_sufficient ?r \<noteq> None \<or> (best_read ?r \<noteq> None \<and> best_write ?r \<noteq> None)"
    by (auto simp: query_path_def allowed_def Let_def split: option.splits)
  then show ?thesis
    unfolding granted_split is_best_ex [OF best(2)] is_best_ex [OF best(3)] is_best_ex [OF best(4)] .
qed

text \<open>
  C7. A query is answered with \<open>Allowed\<close> exactly when every permission of the request is granted by
  some capability that covers the path, possibly by two different ones; the answer is
  \<open>PathNotGranted\<close> exactly when no capability covers the path and, in all other cases, names the
  access of a most specific covering capability.
\<close>

theorem query_path_correct:
  "(allowed (query_path h caps path requested) \<longleftrightarrow> granted (query_covering h path) (fs caps) requested)
   \<and> (query_path h caps path requested = Denied PathNotGranted \<longleftrightarrow>
        \<not> list_ex (query_covering h path) (fs caps))
   \<and> (allowed (query_path h caps path requested) \<or> query_path h caps path requested = Denied PathNotGranted
      \<or> (\<exists>c. is_best (query_covering h path) (fs caps) (Some c)
            \<and> query_path h caps path requested
               = Denied (InsufficientAccess (access_display (fc_access c)) (access_display requested))))"
proof -
  let ?cov = "query_covering h path"
  let ?r = "scan_covering caps requested ?cov"
  have best: "is_best ?cov (fs caps) (best_covering ?r)" by (rule scan_covering_best)
  have denied: "query_path h caps path requested =
      (case best_covering ?r of
         Some cap \<Rightarrow> Denied (InsufficientAccess (access_display (fc_access cap)) (access_display requested))
       | None \<Rightarrow> Denied PathNotGranted)"
    if "\<not> allowed (query_path h caps path requested)"
    using that by (auto simp: query_path_def allowed_def Let_def split: option.splits)
  have uncovered: "\<not> allowed (query_path h caps path requested)" if "\<not> list_ex ?cov (fs caps)"
    unfolding query_path_allowed using that by (cases requested) (auto simp: granted_def list_ex_iff)
  show ?thesis
  proof (cases "allowed (query_path h caps path requested)")
    case True
    then have "query_path h caps path requested \<noteq> Denied PathNotGranted" by (auto simp: allowed_def)
    with True uncovered query_path_allowed show ?thesis by blast
  next
    case False
    note allow = query_path_allowed [of h caps path requested]
    show ?thesis
    proof (cases "best_covering ?r")
      case None
      with denied [OF False] best show ?thesis using False allow by (simp add: is_best_None)
    next
      case (Some c)
      with denied [OF False] is_best_ex [OF best] best
      have "query_path h caps path requested
          = Denied (InsufficientAccess (access_display (fc_access c)) (access_display requested))"
        "list_ex ?cov (fs caps)" "is_best ?cov (fs caps) (Some c)" by simp_all
      with False allow show ?thesis by auto
    qed
  qed
qed

text \<open>
  C8. For a path that canonicalises, an allowed access is really below a grant: for every permission
  requested there is a file capability for the canonical path itself or a directory capability
  whose components are a prefix of it.
\<close>

theorem query_path_sound:
  assumes "canonicalize h path = Inr q" "allowed (query_path h caps path requested)"
    and "contains requested m" "m \<noteq> ReadWrite"
  shows "\<exists>c \<in> set (fs caps). contains (fc_access c) m
    \<and> (if fc_is_file c then components q = components (fc_resolved c)
       else prefix (components (fc_resolved c)) (components q))"
proof -
  have "granted (query_covering h path) (fs caps) requested" using assms(2) by (simp add: query_path_allowed)
  then have "list_ex (\<lambda>c. query_covering h path c \<and> contains (fc_access c) m) (fs caps)"
    using assms(3,4) by (cases m) (auto simp: granted_def)
  then show ?thesis
    using assms(1)
    by (auto simp: list_ex_iff query_covering_def query_covers_def path_eq_def path_starts_with_iff split: if_splits)
qed

definition demo_caps :: "access_mode \<Rightarrow> capability_set" where
  "demo_caps access = new_caps\<lparr>fs := [demo_fs User access]\<rparr>"

theorem query_path_sound_witness:
  "allowed (query_path demo_host (demo_caps ReadWrite) ''/link/a'' Write)
   \<and> (\<exists>c \<in> set (fs (demo_caps ReadWrite)). contains (fc_access c) Write)"
proof -
  have c: "canonicalize demo_host ''/link/a'' = Inr ''/tmp/a''" by code_simp
  have a: "allowed (query_path demo_host (demo_caps ReadWrite) ''/link/a'' Write)" by code_simp
  from query_path_sound [OF c a, of Write] a show ?thesis by auto
qed


end
