(* ===== verification/Sandbox_State.thy ===== *)
theory Sandbox_State
  imports Query
begin

text \<open>
  Persisted sandbox state (\<open>crates/nono/src/state.rs\<close>): \<open>from_caps\<close> writes a capability set into a
  serialisable record, \<open>to_caps\<close> rebuilds a set by running the capability constructors again on the
  host. The JSON encoding is done by the \<open>serde_json\<close> crate and is outside the model.
\<close>

record fs_cap_state =
  fst_original :: path
  fst_resolved :: path
  fst_access :: string
  fst_is_file :: bool

record unix_socket_cap_state =
  ust_original :: path
  ust_resolved :: path
  ust_scope :: "socket_scope option"
  ust_is_directory :: "bool option"
  ust_mode :: string

record sandbox_state =
  ss_fs :: "fs_cap_state list"
  ss_unix_sockets :: "unix_socket_cap_state list"
  ss_net_blocked :: bool
  ss_dns_blocked :: bool
  ss_resource_limits :: "resource_limits option"

definition fs_cap_to_state :: "fs_capability \<Rightarrow> fs_cap_state" where
  "fs_cap_to_state cap =
     \<lparr>fst_original = fc_original cap, fst_resolved = fc_resolved cap,
      fst_access = access_display (fc_access cap), fst_is_file = fc_is_file cap\<rparr>"

definition socket_to_state :: "unix_socket_capability \<Rightarrow> unix_socket_cap_state" where
  "socket_to_state cap =
     \<lparr>ust_original = us_original cap, ust_resolved = us_resolved cap, ust_scope = Some (us_scope cap),
      ust_is_directory = None, ust_mode = socket_mode_display (us_mode cap)\<rparr>"

definition from_caps :: "capability_set \<Rightarrow> sandbox_state" where
  "from_caps caps =
     \<lparr>ss_fs = map fs_cap_to_state (fs caps), ss_unix_sockets = map socket_to_state (unix_sockets caps),
      ss_net_blocked = is_network_blocked caps, ss_dns_blocked = (\<not> dns_enabled caps),
      ss_resource_limits = resource_limits caps\<rparr>"

definition parse_access :: "string \<Rightarrow> access_mode res" where
  "parse_access s =
     (if s = ''read'' then Inr Read
      else if s = ''write'' then Inr Write
      else if s = ''read+write'' then Inr ReadWrite
      else Inl (ConfigParse (''invalid access mode in sandbox state: '' @ s)))"

definition load_fs_cap :: "host \<Rightarrow> capability_set \<Rightarrow> fs_cap_state \<Rightarrow> capability_set res" where
  "load_fs_cap h caps fs_cap =
     and_then (parse_access (fst_access fs_cap)) (\<lambda>access.
     and_then (if fst_is_file fs_cap then fs_new_file h (fst_original fs_cap) access
               else fs_new_dir h (fst_original fs_cap) access) (\<lambda>cap.
     Inr (add_fs cap caps)))"

definition parse_socket_mode :: "string \<Rightarrow> unix_socket_mode res" where
  "parse_socket_mode s =
     (if s = ''connect'' then Inr Connect
      else if s = ''connect+bind'' then Inr ConnectBind
      else Inl (ConfigParse (''invalid unix socket mode in sandbox state: '' @ s)))"

definition socket_new ::
  "host \<Rightarrow> socket_scope \<Rightarrow> path \<Rightarrow> unix_socket_mode \<Rightarrow> unix_socket_capability res" where
  "socket_new h scope original mode =
     (case scope of
        ScopeFile \<Rightarrow> socket_new_file h original mode
      | DirChildren \<Rightarrow> socket_new_dir h original mode
      | DirSubtree \<Rightarrow> socket_new_dir_subtree h original mode)"

definition load_socket :: "host \<Rightarrow> capability_set \<Rightarrow> unix_socket_cap_state \<Rightarrow> capability_set res" where
  "load_socket h caps sock =
     and_then (parse_socket_mode (ust_mode sock)) (\<lambda>mode.
       let scope = (case ust_scope sock of Some s \<Rightarrow> s
                    | None \<Rightarrow> if ust_is_directory sock = Some True then DirChildren else ScopeFile)
       in and_then (socket_new h scope (ust_original sock) mode) (\<lambda>cap.
            if \<not> path_eq (us_resolved cap) (ust_resolved sock) then
              Inl (ConfigParse (''unix socket grant canonical path drifted at state reload: serialized resolved=''
                @ ust_resolved sock @ '', actual resolved='' @ us_resolved cap))
            else Inr (add_unix_socket cap caps)))"

definition to_caps :: "host \<Rightarrow> sandbox_state \<Rightarrow> capability_set res" where
  "to_caps h st =
     and_then (fold_res (load_fs_cap h) new_caps (ss_fs st)) (\<lambda>caps.
     and_then (fold_res (load_socket h) caps (ss_unix_sockets st)) (\<lambda>caps.
       let caps = set_network_blocked (ss_net_blocked st) caps;
           caps = (if ss_dns_blocked st then block_dns caps else caps);
           caps = (case ss_resource_limits st of Some limits \<Rightarrow> with_resource_limits limits caps | None \<Rightarrow> caps)
       in Inr caps))"

section \<open>Properties\<close>

text \<open>A capability the constructors give back on this host, up to its source.\<close>

definition fs_reproducible :: "host \<Rightarrow> fs_capability \<Rightarrow> bool" where
  "fs_reproducible h cap =
     ((if fc_is_file cap then fs_new_file h (fc_original cap) (fc_access cap)
       else fs_new_dir h (fc_original cap) (fc_access cap)) = Inr (cap\<lparr>fc_source := User\<rparr>))"

definition socket_reproducible :: "host \<Rightarrow> unix_socket_capability \<Rightarrow> bool" where
  "socket_reproducible h cap =
     (socket_new h (us_scope cap) (us_original cap) (us_mode cap) = Inr (cap\<lparr>us_source := User\<rparr>))"

lemma parse_access_display [simp]: "parse_access (access_display a) = Inr a"
  by (cases a) (simp_all add: parse_access_def)

lemma parse_socket_mode_display [simp]: "parse_socket_mode (socket_mode_display m) = Inr m"
  by (cases m) (simp_all add: parse_socket_mode_def)

lemma load_fs_caps:
  assumes "list_all (fs_reproducible h) cs"
  shows "fold_res (load_fs_cap h) caps (map fs_cap_to_state cs)
    = Inr (caps\<lparr>fs := fs caps @ map (\<lambda>c. c\<lparr>fc_source := User\<rparr>) cs\<rparr>)"
  using assms
proof (induction cs arbitrary: caps)
  case (Cons c cs)
  then have "load_fs_cap h caps (fs_cap_to_state c) = Inr (add_fs (c\<lparr>fc_source := User\<rparr>) caps)"
    by (cases "fc_is_file c") (simp_all add: load_fs_cap_def fs_cap_to_state_def fs_reproducible_def)
  with Cons show ?case by (simp add: add_fs_def push_fs_def)
qed simp

lemma load_sockets:
  assumes "list_all (socket_reproducible h) cs"
  shows "fold_res (load_socket h) caps (map socket_to_state cs)
    = Inr (caps\<lparr>unix_sockets := unix_sockets caps @ map (\<lambda>c. c\<lparr>us_source := User\<rparr>) cs\<rparr>)"
  using assms
proof (induction cs arbitrary: caps)
  case (Cons c cs)
  then have "load_socket h caps (socket_to_state c) = Inr (add_unix_socket (c\<lparr>us_source := User\<rparr>) caps)"
    by (simp add: load_socket_def socket_to_state_def socket_reproducible_def)
  with Cons show ?case by (simp add: add_unix_socket_def push_unix_socket_def)
qed simp

text \<open>
  C33. Saving and reloading a set whose capabilities the host still reproduces succeeds and gives the
  same filesystem and socket capabilities, now with the user as their source, the same DNS
  setting and the same limits; a proxy-only network comes back as blocked.
\<close>

theorem state_roundtrip:
  assumes "list_all (fs_reproducible h) (fs caps)" "list_all (socket_reproducible h) (unix_sockets caps)"
  shows "to_caps h (from_caps caps) =
    Inr (new_caps\<lparr>fs := map (\<lambda>c. c\<lparr>fc_source := User\<rparr>) (fs caps),
           unix_sockets := map (\<lambda>c. c\<lparr>us_source := User\<rparr>) (unix_sockets caps),
           network_mode := (if network_mode caps = AllowAll then AllowAll else Blocked),
           dns_blocked := dns_blocked caps, resource_limits := resource_limits caps\<rparr>)"
proof -
  have "is_network_blocked caps \<longleftrightarrow> network_mode caps \<noteq> AllowAll"
    by (cases "network_mode caps") (simp_all add: is_network_blocked_def)
  then show ?thesis
    using load_fs_caps [OF assms(1), of new_caps] load_sockets [OF assms(2)]
    by (simp add: to_caps_def from_caps_def set_network_blocked_def block_dns_def dns_enabled_def
        with_resource_limits_def new_caps_def Let_def split: option.split)
qed

definition demo_set :: capability_set where
  "demo_set = new_caps\<lparr>fs := [demo_fs System ReadWrite], network_mode := ProxyOnly 8080 [],
     unix_sockets := [demo_socket Profile Connect], dns_blocked := True\<rparr>"

theorem state_roundtrip_witness:
  "to_caps demo_host (from_caps demo_set) =
    Inr (new_caps\<lparr>fs := [demo_fs User ReadWrite], unix_sockets := [demo_socket User Connect],
           network_mode := Blocked, dns_blocked := True\<rparr>)"
proof -
  have r: "list_all (fs_reproducible demo_host) (fs demo_set)"
    "list_all (socket_reproducible demo_host) (unix_sockets demo_set)" by code_simp+
  from state_roundtrip [OF r] show ?thesis
    by (simp add: demo_set_def demo_fs_def demo_socket_def new_caps_def)
qed

lemma load_fs_cap_Inr:
  "load_fs_cap h caps c = Inr caps' \<longleftrightarrow>
     (\<exists>access cap. parse_access (fst_access c) = Inr access
        \<and> (if fst_is_file c then fs_new_file h (fst_original c) access
           else fs_new_dir h (fst_original c) access) = Inr cap \<and> caps' = add_fs cap caps)"
  by (auto simp: load_fs_cap_def result_simps)

lemma load_socket_Inr:
  "load_socket h caps c = Inr caps' \<Longrightarrow>
     \<exists>mode scope cap. parse_socket_mode (ust_mode c) = Inr mode \<and> socket_new h scope (ust_original c) mode = Inr cap
        \<and> path_eq (us_resolved cap) (ust_resolved c) \<and> caps' = add_unix_socket cap caps"
  by (auto simp: load_socket_def result_simps Let_def split: if_splits)

text \<open>What the constructors guarantee of each capability of a reloaded set.\<close>

definition validated :: "host \<Rightarrow> capability_set \<Rightarrow> bool" where
  "validated h caps =
     (list_all (\<lambda>c. canonicalize h (fc_original c) = Inr (fc_resolved c)
                  \<and> is_dir h (fc_resolved c) = (\<not> fc_is_file c) \<and> fc_source c = User) (fs caps)
      \<and> list_all (\<lambda>c. socket_new h (us_scope c) (us_original c) (us_mode c) = Inr c) (unix_sockets caps))"

lemma fs_new_validated:
  "fs_new_dir h p a = Inr cap \<Longrightarrow> canonicalize h (fc_original cap) = Inr (fc_resolved cap)
     \<and> is_dir h (fc_resolved cap) = (\<not> fc_is_file cap) \<and> fc_source cap = User"
  "fs_new_file h p a = Inr cap \<Longrightarrow> canonicalize h (fc_original cap) = Inr (fc_resolved cap)
     \<and> is_dir h (fc_resolved cap) = (\<not> fc_is_file cap) \<and> fc_source cap = User"
  by (auto simp: fs_new_dir_def fs_new_file_def result_simps split: if_splits)

lemma socket_new_self:
  "socket_new h scope p mode = Inr cap \<Longrightarrow>
     us_scope cap = scope \<and> us_original cap = p \<and> us_mode cap = mode \<and> us_source cap = User"
  by (cases scope)
    (auto simp: socket_new_def socket_new_file_def socket_new_dir_def socket_new_dir_subtree_def
      socket_new_dir_with_scope_def result_simps split: if_splits)

lemma validated_load:
  "validated h caps \<Longrightarrow> load_fs_cap h caps c = Inr caps' \<Longrightarrow> validated h caps'"
  "validated h caps \<Longrightarrow> load_socket h caps s = Inr caps' \<Longrightarrow> validated h caps'"
proof -
  show "validated h caps'" if "validated h caps" "load_fs_cap h caps c = Inr caps'"
    using that fs_new_validated
    by (fastforce simp: load_fs_cap_Inr validated_def add_fs_def push_fs_def split: if_splits)
  show "validated h caps'" if v: "validated h caps" and l: "load_socket h caps s = Inr caps'"
  proof -
    obtain mode scope cap where "socket_new h scope (ust_original s) mode = Inr cap"
      "caps' = add_unix_socket cap caps"
      using load_socket_Inr [OF l] by blast
    with socket_new_self [of h scope "ust_original s" mode cap] v show ?thesis
      by (auto simp: validated_def add_unix_socket_def push_unix_socket_def)
  qed
qed

text \<open>
  Whatever a state file contains, every capability of the set it loads into has passed the
  constructors on this host: its resolved path is the canonicalisation of its original path, of
  the right kind; no resolved path is taken from the file.
\<close>

theorem to_caps_validated:
  assumes "to_caps h st = Inr caps"
  shows "validated h caps"
proof -
  obtain caps1 caps2 where f: "fold_res (load_fs_cap h) new_caps (ss_fs st) = Inr caps1"
    "fold_res (load_socket h) caps1 (ss_unix_sockets st) = Inr caps2"
    and last: "fs caps = fs caps2" "unix_sockets caps = unix_sockets caps2"
    using assms
    by (auto simp: to_caps_def result_simps Let_def set_network_blocked_def block_dns_def
        with_resource_limits_def split: option.splits)
  have "validated h new_caps" by (simp add: validated_def new_caps_def)
  with f(1) have "validated h caps1" by (rule fold_res_invariant) (rule validated_load(1))
  with f(2) have "validated h caps2" by (rule fold_res_invariant) (rule validated_load(2))
  with last show ?thesis by (simp add: validated_def)
qed

theorem to_caps_validated_witness:
  "validated demo_host (new_caps\<lparr>fs := [demo_fs User Read]\<rparr>)"
proof -
  let ?st = "\<lparr>ss_fs = [\<lparr>fst_original = ''/tmp'', fst_resolved = ''/etc'', fst_access = ''read'',
      fst_is_file = False\<rparr>], ss_unix_sockets = [], ss_net_blocked = False, ss_dns_blocked = False,
      ss_resource_limits = None\<rparr>"
  have "to_caps demo_host ?st = Inr (new_caps\<lparr>fs := [demo_fs User Read]\<rparr>)" by code_simp
  then show ?thesis by (rule to_caps_validated)
qed

end
