(* ===== verification/Glob.thy ===== *)
theory Glob
  imports Nono_Prelude
begin

text \<open>
  The two wildcard matchers: \<open>env_var_glob_matches\<close> (\<open>crates/nono/src/env_glob.rs\<close>) for the names of
  environment variables and \<open>wildcard_match\<close> (\<open>crates/nono/src/trust/types.rs\<close>) for publisher
  patterns. Both search greedily; \<open>glob\<close> is the declarative meaning of a pattern, in which a star
  stands for any string, and both matchers are shown to compute it.
\<close>

abbreviation star :: char where
  "star \<equiv> CHR ''*''"

section \<open>The matcher for environment variables\<close>

fun env_glob_loop :: "string list \<Rightarrow> string \<Rightarrow> bool" where
  "env_glob_loop [] rest = True"
| "env_glob_loop [part] rest = ends_with rest part"
| "env_glob_loop (part # next # parts) rest =
     (if part = [] then env_glob_loop (next # parts) rest
      else (case find_sub part rest of
              Some idx \<Rightarrow> env_glob_loop (next # parts) (drop (idx + length part) rest)
            | None \<Rightarrow> False))"

definition env_var_glob_matches :: "string \<Rightarrow> string \<Rightarrow> bool" where
  "env_var_glob_matches pattern input =
     (if pattern = [] then False
      else
        let parts = split_on star pattern in
        (case strip_prefix (hd parts) input of
           None \<Rightarrow> False
         | Some rest \<Rightarrow> if tl parts = [] then rest = [] else env_glob_loop (tl parts) rest))"

section \<open>The matcher for publisher patterns\<close>

fun wildcard_loop :: "nat \<Rightarrow> string \<Rightarrow> nat \<Rightarrow> string list \<Rightarrow> nat \<Rightarrow> bool" where
  "wildcard_loop n value i [] pos = True"
| "wildcard_loop n value i (part # parts) pos =
     (if part = [] then wildcard_loop n value (i + 1) parts pos
      else if i = 0 then
        if \<not> starts_with (drop pos value) part then False
        else wildcard_loop n value (i + 1) parts (pos + length part)
      else if i = n - 1 then
        if \<not> ends_with (drop pos value) part then False
        else wildcard_loop n value (i + 1) parts (length value)
      else (case find_sub part (drop pos value) of
              Some found \<Rightarrow> wildcard_loop n value (i + 1) parts (pos + found + length part)
            | None \<Rightarrow> False))"

definition wildcard_match :: "string \<Rightarrow> string \<Rightarrow> bool" where
  "wildcard_match pattern value =
     (if pattern = ''*'' then True
      else if star \<notin> set pattern then pattern = value
      else let parts = split_on star pattern in wildcard_loop (length parts) value 0 parts 0)"

section \<open>Reference meaning\<close>

fun glob :: "string \<Rightarrow> string \<Rightarrow> bool" where
  "glob [] t = (t = [])"
| "glob (c # p) t =
     (if c = star then list_ex (\<lambda>k. glob p (drop k t)) [0..<Suc (length t)]
      else (case t of [] \<Rightarrow> False | d # ds \<Rightarrow> d = c \<and> glob p ds))"

text \<open>The pieces between the stars, each found somewhere after the previous one.\<close>

fun parts_match :: "string list \<Rightarrow> string \<Rightarrow> bool" where
  "parts_match [] r = True"
| "parts_match [l] r = (\<exists>a. r = a @ l)"
| "parts_match (p # q # ps) r = (\<exists>a b. r = a @ p @ b \<and> parts_match (q # ps) b)"

lemma glob_star: "glob (star # p) t \<longleftrightarrow> (\<exists>a b. t = a @ b \<and> glob p b)"
proof -
  have "glob (star # p) t \<longleftrightarrow> (\<exists>k \<le> length t. glob p (drop k t))"
    by (simp add: list_ex_iff atLeastLessThanSuc_atLeastAtMost del: upt_Suc) auto
  also have "\<dots> \<longleftrightarrow> (\<exists>a b. t = a @ b \<and> glob p b)"
    by (metis append_eq_conv_conj append_take_drop_id nat_le_linear drop_all glob.simps(1) le_add1 length_append)
  finally show ?thesis .
qed

lemma glob_parts:
  "glob p t \<longleftrightarrow>
     (\<exists>r. t = hd (split_on star p) @ r
        \<and> (if tl (split_on star p) = [] then r = [] else parts_match (tl (split_on star p)) r))"
proof (induction p arbitrary: t)
  case Nil
  then show ?case by simp
next
  case (Cons c p)
  obtain f ps where s: "split_on star p = f # ps" using split_on_ne by (metis neq_Nil_conv)
  show ?case
  proof (cases "c = star")
    case True
    have "glob (c # p) t \<longleftrightarrow> (\<exists>a b. t = a @ b \<and> glob p b)" unfolding True by (rule glob_star)
    also have "\<dots> \<longleftrightarrow> parts_match (f # ps) t"
      unfolding Cons.IH s by (cases ps) auto
    finally show ?thesis using True s by simp
  next
    case False
    then show ?thesis using Cons.IH s by (cases t) auto
  qed
qed

section \<open>The greedy search is complete\<close>

lemma parts_match_longer: "parts_match ps b \<Longrightarrow> parts_match ps (x @ b)"
  by (cases "(ps, b)" rule: parts_match.cases) (auto, metis append.assoc)

lemma env_glob_loop_parts: "env_glob_loop ps r \<longleftrightarrow> parts_match ps r"
proof (induction ps r rule: env_glob_loop.induct)
  case (2 part rest)
  then show ?case by (auto simp: ends_with_iff suffix_def)
next
  case (3 part "next" parts rest)
  show ?case
  proof (cases "part = []")
    case True
    then show ?thesis
      using 3(1) parts_match_longer [of "next # parts"] by auto
  next
    case False
    show ?thesis
    proof (cases "find_sub part rest")
      case None
      with False find_sub_None [of part rest] show ?thesis by simp
    next
      case (Some idx)
      note split = find_sub_split [OF Some]
      have "parts_match (next # parts) (drop (idx + length part) rest)"
        if ab: "rest = a @ part @ b" "parts_match (next # parts) b" for a b
      proof -
        obtain i where "i \<le> length a" "find_sub part rest = Some i"
          using find_sub_first [OF ab(1)] by blast
        then have "idx \<le> length a" using Some by simp
        then have "drop (idx + length part) rest
            = drop (idx + length part) (a @ part) @ b"
          using ab(1) by simp
        with ab(2) parts_match_longer show ?thesis by metis
      qed
      then have "parts_match (part # next # parts) rest \<longleftrightarrow>
          parts_match (next # parts) (drop (idx + length part) rest)"
        using split by (metis parts_match.simps(3))
      with False Some 3(2) [OF False Some] show ?thesis by simp
    qed
  qed
qed simp

lemma env_var_glob_eq: "p \<noteq> [] \<Longrightarrow> env_var_glob_matches p t \<longleftrightarrow> glob p t"
  unfolding glob_parts
  by (auto simp: env_var_glob_matches_def Let_def env_glob_loop_parts str_simps split: option.splits)

lemma wildcard_loop_env:
  assumes "0 < i" "i + length ps = n" "ps \<noteq> []" "pos \<le> length value"
  shows "wildcard_loop n value i ps pos = env_glob_loop ps (drop pos value)"
  using assms
proof (induction ps "drop pos value" arbitrary: i pos rule: env_glob_loop.induct)
  case (2 part)
  then show ?case by (auto simp: ends_with_iff)
next
  case (3 part "next" parts)
  show ?case
  proof (cases "find_sub part (drop pos value)")
    case None
    with 3 show ?thesis by auto
  next
    case (Some idx)
    then have "pos + idx + length part \<le> length value" using find_sub_Some [OF Some] "3.prems"(4) by auto
    with 3 Some show ?thesis by (auto simp: ac_simps)
  qed
qed simp

lemma wildcard_eq: "wildcard_match p v \<longleftrightarrow> glob p v"
proof (cases "star \<in> set p")
  case False
  then have "split_on star p = [p]" by (rule split_on_free)
  with False show ?thesis by (auto simp: wildcard_match_def glob_parts)
next
  case True
  obtain f ps where s: "split_on star p = f # ps" using split_on_ne by (metis neq_Nil_conv)
  with True have ne: "ps \<noteq> []" using split_on_single [of star p f] by auto
  have "wildcard_loop (length (f # ps)) v 0 (f # ps) 0 \<longleftrightarrow> (\<exists>r. v = f @ r \<and> env_glob_loop ps r)"
  proof (cases "starts_with v f")
    case pre: True
    then obtain r where r: "v = f @ r" by (auto simp: starts_with_iff prefix_def)
    have "wildcard_loop (length (f # ps)) v 1 ps (length f) = env_glob_loop ps r"
      using wildcard_loop_env [of 1 ps "length (f # ps)" "length f" v] ne r by simp
    with r show ?thesis by (cases "f = []") (simp_all add: starts_with_iff)
  next
    case False
    then show ?thesis by (auto simp: starts_with_iff)
  qed
  moreover have "glob p v" if "p = ''*''" using that by (simp add: list_ex_iff)
  ultimately show ?thesis
    using True s ne by (auto simp: wildcard_match_def glob_parts env_glob_loop_parts)
qed

section \<open>Properties\<close>

text \<open>
  The greedy matcher for environment variable names decides the declarative meaning of its
  pattern: a non-empty pattern matches exactly the texts obtained by replacing each star with some
  string, and the empty pattern matches nothing.
\<close>

theorem env_var_glob_correct:
  "env_var_glob_matches pattern input \<longleftrightarrow> pattern \<noteq> [] \<and> glob pattern input"
  using env_var_glob_eq [of pattern input] by (cases "pattern = []") (auto simp: env_var_glob_matches_def)

text \<open>
  The matcher for publisher patterns decides the same meaning for every pattern, although it
  keeps a position into the value instead of cutting it.
\<close>

theorem wildcard_match_correct: "wildcard_match pattern value \<longleftrightarrow> glob pattern value"
  by (rule wildcard_eq)

end
