(* ===== verification/Net_Filter.thy ===== *)
theory Net_Filter
  imports Nono_Error
begin

text \<open>
  Host filtering for the proxy (\<open>crates/nono/src/net_filter.rs\<close>). Two functions outside the
  repository are parameters: \<open>idna\<close> is \<open>idna::domain_to_ascii\<close> (\<open>None\<close> for an error) and \<open>lc\<close> is the
  Unicode \<open>str::to_lowercase\<close>, used only for entries that \<open>idna\<close> rejects.
\<close>

section \<open>Normalisation\<close>

type_synonym idna_fn = "string \<Rightarrow> string option"
type_synonym lower_fn = "string \<Rightarrow> string"

abbreviation dot :: char where
  "dot \<equiv> CHR ''.''"

definition normalize_host :: "idna_fn \<Rightarrow> string \<Rightarrow> string option" where
  "normalize_host idna host =
     (let trimmed = trim_end_matches dot (trim_str host) in
      if list_ex is_control (str_chars trimmed) then None
      else (case idna trimmed of None \<Rightarrow> None | Some asc \<Rightarrow> Some (trim_end_matches dot asc)))"

definition normalize_entry :: "idna_fn \<Rightarrow> lower_fn \<Rightarrow> string \<Rightarrow> string" where
  "normalize_entry idna lc entry =
     (case normalize_host idna entry of
        Some n \<Rightarrow> n
      | None \<Rightarrow> lc (trim_end_matches dot (trim_str entry)))"

section \<open>Host patterns\<close>

fun labels_match :: "string list \<Rightarrow> string list \<Rightarrow> bool" where
  "labels_match (p # ps) (h # hs) =
     (if p = ''*'' then (if h = [] then False else labels_match ps hs)
      else if p \<noteq> h then False
      else labels_match ps hs)"
| "labels_match [] [] = True"
| "labels_match _ _ = False"

definition host_pattern_matches :: "string \<Rightarrow> string \<Rightarrow> bool" where
  "host_pattern_matches pattern host =
     (if pattern = ''*'' then host \<noteq> []
      else (case strip_prefix ''*'' pattern of
              Some sfx \<Rightarrow>
                if \<not> starts_with sfx ''.'' then False
                else (case strip_suffix sfx host of
                        None \<Rightarrow> False
                      | Some pre \<Rightarrow> pre \<noteq> [] \<and> \<not> ends_with pre ''.'')
            | None \<Rightarrow> labels_match (split_on dot pattern) (split_on dot host)))"

definition em_dash :: string where
  "em_dash = [CHR 0xE2, CHR 0x80, CHR 0x94]"

definition validate_host_pattern :: "string \<Rightarrow> string + unit" where
  "validate_host_pattern pattern =
     (if pattern = [] then Inl ''pattern is empty''
      else if pattern = ''*'' then Inr ()
      else (case strip_prefix ''*'' pattern of
              Some sfx \<Rightarrow>
                if \<not> starts_with sfx ''.'' then
                  Inl (''pattern '' @ quoted pattern @ '': a leading '' @ quoted ''*'' @ '' must be followed by ''
                       @ quoted ''.'' @ '' (e.g. '' @ quoted ''*.example.com'' @ '')'')
                else if drop 1 sfx = [] then
                  Inl (''pattern '' @ quoted pattern @ '': '' @ quoted ''*.'' @ '' must be followed by a domain'')
                else if CHR ''*'' \<in> set (drop 1 sfx) then
                  Inl (''pattern '' @ quoted pattern @ '': a leading '' @ quoted ''*.''
                       @ '' wildcard cannot be combined with another '' @ quoted ''*''
                       @ '' elsewhere in the pattern '' @ em_dash
                       @ '' the remainder is matched literally, so this can never match'')
                else Inr ()
            | None \<Rightarrow>
                (case find (\<lambda>label. CHR ''*'' \<in> set label \<and> label \<noteq> ''*'') (split_on dot pattern) of
                   Some label \<Rightarrow>
                     Inl (''pattern '' @ quoted pattern @ '': '' @ quoted ''*'' @ '' must occupy a whole label (e.g. ''
                          @ quoted ''a.*.b.com'' @ ''), not part of one like '' @ quoted label @ '' '' @ em_dash
                          @ '' a real hostname label can never contain '' @ quoted ''*''
                          @ '', so this can never match'')
                 | None \<Rightarrow> Inr ())))"

section \<open>Addresses and decisions\<close>

datatype ip_addr = V4 u8 u8 u8 u8 | V6 u16 u16 u16 u16 u16 u16 u16 u16

datatype filter_result =
    Allow
  | DenyHost string
  | DenyLinkLocal ip_addr
  | DenyNotAllowed string

definition is_allowed :: "filter_result \<Rightarrow> bool" where
  "is_allowed r = (r = Allow)"

definition sanitize_for_display :: "string \<Rightarrow> string" where
  "sanitize_for_display s = concat (filter (\<lambda>c. \<not> is_control c) (str_chars s))"

text \<open>The display of an address is a parameter of the reason text.\<close>

definition reason :: "(ip_addr \<Rightarrow> string) \<Rightarrow> filter_result \<Rightarrow> string" where
  "reason show_ip r =
     (case r of
        Allow \<Rightarrow> ''allowed by host filter''
      | DenyHost host \<Rightarrow> ''host '' @ sanitize_for_display host @ '' is in the deny list''
      | DenyLinkLocal ip \<Rightarrow>
          ''resolved IP '' @ show_ip ip @ '' is in the link-local range (cloud metadata protection)''
      | DenyNotAllowed host \<Rightarrow> ''host '' @ sanitize_for_display host @ '' is not in the allowlist'')"

unbundle bit_operations_syntax

definition to_ipv4_mapped :: "ip_addr \<Rightarrow> (u8 \<times> u8 \<times> u8 \<times> u8) option" where
  "to_ipv4_mapped ip =
     (case ip of
        V6 a b c d e f g h \<Rightarrow>
          if a = 0 \<and> b = 0 \<and> c = 0 \<and> d = 0 \<and> e = 0 \<and> f = 0xffff
          then Some (ucast (drop_bit 8 g), ucast g, ucast (drop_bit 8 h), ucast h)
          else None
      | V4 _ _ _ _ \<Rightarrow> None)"

definition is_link_local :: "ip_addr \<Rightarrow> bool" where
  "is_link_local ip =
     (case ip of
        V4 a b _ _ \<Rightarrow> a = 169 \<and> b = 254
      | V6 s0 _ _ _ _ _ _ _ \<Rightarrow>
          if s0 AND 0xffc0 = 0xfe80 then True
          else (case to_ipv4_mapped ip of
                  Some (a, b, _, _) \<Rightarrow> a = 169 \<and> b = 254
                | None \<Rightarrow> False))"

section \<open>The filter\<close>

definition DENY_HOSTS :: "string list" where
  "DENY_HOSTS = [''169.254.169.254'', ''metadata.google.internal'', ''metadata.azure.internal'']"

definition partition_hosts :: "idna_fn \<Rightarrow> lower_fn \<Rightarrow> string list \<Rightarrow> string list \<times> string list" where
  "partition_hosts idna lc entries =
     (map (normalize_entry idna lc) (filter (\<lambda>entry. CHR ''*'' \<notin> set entry) entries),
      map (normalize_entry idna lc) (filter (\<lambda>entry. CHR ''*'' \<in> set entry) entries))"

record host_filter =
  hf_allowed_hosts :: "string list"
  hf_allowed_patterns :: "string list"
  hf_deny_hosts :: "string list"
  hf_deny_patterns :: "string list"
  hf_strict :: bool

definition filter_new :: "idna_fn \<Rightarrow> lower_fn \<Rightarrow> string list \<Rightarrow> host_filter" where
  "filter_new idna lc allowed_hosts =
     (case partition_hosts idna lc allowed_hosts of (exact, patterns) \<Rightarrow>
        \<lparr>hf_allowed_hosts = exact, hf_allowed_patterns = patterns,
         hf_deny_hosts = map (normalize_entry idna lc) DENY_HOSTS, hf_deny_patterns = [],
         hf_strict = False\<rparr>)"

definition filter_new_strict :: "idna_fn \<Rightarrow> lower_fn \<Rightarrow> string list \<Rightarrow> host_filter" where
  "filter_new_strict idna lc allowed_hosts = (filter_new idna lc allowed_hosts)\<lparr>hf_strict := True\<rparr>"

definition filter_allow_all :: "idna_fn \<Rightarrow> lower_fn \<Rightarrow> host_filter" where
  "filter_allow_all idna lc =
     \<lparr>hf_allowed_hosts = [], hf_allowed_patterns = [],
      hf_deny_hosts = map (normalize_entry idna lc) DENY_HOSTS, hf_deny_patterns = [],
      hf_strict = False\<rparr>"

definition with_denied_hosts :: "idna_fn \<Rightarrow> lower_fn \<Rightarrow> string list \<Rightarrow> host_filter \<Rightarrow> host_filter" where
  "with_denied_hosts idna lc denied f =
     (case partition_hosts idna lc denied of (exact, patterns) \<Rightarrow>
        f\<lparr>hf_deny_hosts := hf_deny_hosts f @ exact, hf_deny_patterns := hf_deny_patterns f @ patterns\<rparr>)"

definition check_host :: "idna_fn \<Rightarrow> host_filter \<Rightarrow> string \<Rightarrow> ip_addr list \<Rightarrow> filter_result" where
  "check_host idna f host resolved_ips =
     (case normalize_host idna host of
        None \<Rightarrow> DenyNotAllowed host
      | Some lower_host \<Rightarrow>
          if lower_host \<in> set (hf_deny_hosts f) then DenyHost host
          else if list_ex (\<lambda>pattern. host_pattern_matches pattern lower_host) (hf_deny_patterns f)
          then DenyHost host
          else (case find is_link_local resolved_ips of
                  Some ip \<Rightarrow> DenyLinkLocal ip
                | None \<Rightarrow>
                    if hf_allowed_hosts f = [] \<and> hf_allowed_patterns f = [] then
                      (if hf_strict f then DenyNotAllowed host else Allow)
                    else if lower_host \<in> set (hf_allowed_hosts f) then Allow
                    else if list_ex (\<lambda>pattern. host_pattern_matches pattern lower_host) (hf_allowed_patterns f)
                    then Allow
                    else DenyNotAllowed host))"

definition check_deny :: "idna_fn \<Rightarrow> lower_fn \<Rightarrow> host_filter \<Rightarrow> string \<Rightarrow> filter_result option" where
  "check_deny idna lc f host =
     (let lower_host = normalize_entry idna lc host in
      if lower_host \<in> set (hf_deny_hosts f) then Some (DenyHost host)
      else if list_ex (\<lambda>pattern. host_pattern_matches pattern lower_host) (hf_deny_patterns f)
      then Some (DenyHost host)
      else None)"

definition normalize_authority_host :: "idna_fn \<Rightarrow> lower_fn \<Rightarrow> string \<Rightarrow> string" where
  "normalize_authority_host idna lc host = normalize_entry idna lc host"

definition allowed_count :: "host_filter \<Rightarrow> nat" where
  "allowed_count f = length (hf_allowed_hosts f) + length (hf_allowed_patterns f)"

section \<open>What a pattern matches\<close>

definition label_ok :: "string \<Rightarrow> string \<Rightarrow> bool" where
  "label_ok p h = (if p = ''*'' then h \<noteq> [] else p = h)"

lemma labels_match_all2: "labels_match ps hs \<longleftrightarrow> list_all2 label_ok ps hs"
  by (induction ps hs rule: labels_match.induct) (auto simp: label_ok_def)

lemma split_on_suffix:
  "(\<exists>pre. host = pre @ dot # t \<and> pre \<noteq> [] \<and> last pre \<noteq> dot) \<longleftrightarrow>
   (\<exists>ls. split_on dot host = ls @ split_on dot t \<and> ls \<noteq> [] \<and> last ls \<noteq> [])"
proof
  assume "\<exists>pre. host = pre @ dot # t \<and> pre \<noteq> [] \<and> last pre \<noteq> dot"
  then obtain pre where p: "host = pre @ dot # t" "pre \<noteq> []" "last pre \<noteq> dot" by blast
  have "last (split_on dot pre) \<noteq> []"
  proof
    assume l: "last (split_on dot pre) = []"
    have "split_on dot pre = butlast (split_on dot pre) @ [[]]"
      using l append_butlast_last_id [of "split_on dot pre"] by simp
    then have j: "pre = join_with [dot] (butlast (split_on dot pre) @ [[]])" by (metis join_split_on)
    show False
    proof (cases "butlast (split_on dot pre) = []")
      case True
      with j p(2) show False by simp
    next
      case False
      then have "pre = join_with [dot] (butlast (split_on dot pre)) @ [dot]"
        using j join_with_snoc [of "butlast (split_on dot pre)" "[dot]" "[]"] by simp
      with p(3) show False by (metis last_snoc)
    qed
  qed
  then show "\<exists>ls. split_on dot host = ls @ split_on dot t \<and> ls \<noteq> [] \<and> last ls \<noteq> []"
    using p(1) split_on_append [of dot pre t] by (intro exI [of _ "split_on dot pre"]) simp
next
  assume "\<exists>ls. split_on dot host = ls @ split_on dot t \<and> ls \<noteq> [] \<and> last ls \<noteq> []"
  then obtain ls where l: "split_on dot host = ls @ split_on dot t" "ls \<noteq> []" "last ls \<noteq> []" by blast
  have "host = join_with [dot] (ls @ split_on dot t)" using l(1) by (metis join_split_on)
  also have "\<dots> = join_with [dot] ls @ dot # t"
    using join_with_append [of ls "split_on dot t" "[dot]"] l(2) by simp
  finally have h: "host = join_with [dot] ls @ dot # t" .
  obtain xs x where ls: "ls = xs @ [x]" "x \<noteq> []" using l(2,3) by (metis append_butlast_last_id)
  have "x \<in> set (split_on dot host)" using l(1) ls by simp
  then have "last x \<noteq> dot" using split_on_parts [of x dot host] ls(2) by (metis last_in_set)
  moreover have "last (join_with [dot] ls) = last x" "join_with [dot] ls \<noteq> []"
    using ls join_with_snoc [of xs "[dot]" x] by (cases "xs = []"; simp)+
  ultimately show "\<exists>pre. host = pre @ dot # t \<and> pre \<noteq> [] \<and> last pre \<noteq> dot" using h by metis
qed

text \<open>
  The meaning of a host pattern in terms of dot-separated labels: a lone star matches every
  non-empty host; a leading \<open>*.\<close> stands for one or more labels, the last of them non-empty, so the
  bare domain is not matched; a star as a whole label elsewhere stands for exactly one non-empty
  label; every other label matches itself.
\<close>

theorem host_pattern_labels:
  "host_pattern_matches pattern host \<longleftrightarrow>
     (if pattern = ''*'' then host \<noteq> []
      else if starts_with pattern ''*.'' then
        \<exists>ls. split_on dot host = ls @ split_on dot (drop 2 pattern) \<and> ls \<noteq> [] \<and> last ls \<noteq> []
      else if starts_with pattern ''*'' then False
      else list_all2 label_ok (split_on dot pattern) (split_on dot host))"
proof (cases "strip_prefix ''*'' pattern")
  case None
  then have "\<not> starts_with pattern ''*''" "\<not> starts_with pattern ''*.''"
    by (auto simp: str_simps starts_with_iff prefix_def suffix_def)
  with None show ?thesis by (simp add: host_pattern_matches_def labels_match_all2)
next
  case (Some s)
  then have p: "pattern = CHR ''*'' # s" by (simp add: str_simps)
  show ?thesis
  proof (cases "starts_with s ''.''")
    case True
    then obtain t where t: "s = dot # t" by (auto simp: starts_with_iff prefix_def)
    have "host_pattern_matches pattern host \<longleftrightarrow>
        (\<exists>pre. host = pre @ dot # t \<and> pre \<noteq> [] \<and> last pre \<noteq> dot)"
      using Some p True t
      by (auto simp: host_pattern_matches_def str_simps ends_with_iff suffix_def split: option.splits)
        (metis append_butlast_last_id)
    then show ?thesis
      unfolding split_on_suffix using p t by (simp add: starts_with_iff)
  next
    case False
    then have "\<not> starts_with pattern ''*.''" using p by (auto simp: starts_with_iff prefix_def)
    with Some p False show ?thesis
      by (cases s) (auto simp: host_pattern_matches_def starts_with_iff)
  qed
qed

section \<open>What the filter decides\<close>

definition denied_by :: "host_filter \<Rightarrow> string \<Rightarrow> bool" where
  "denied_by f n =
     (n \<in> set (hf_deny_hosts f) \<or> list_ex (\<lambda>p. host_pattern_matches p n) (hf_deny_patterns f))"

definition allowed_by :: "host_filter \<Rightarrow> string \<Rightarrow> bool" where
  "allowed_by f n =
     (if hf_allowed_hosts f = [] \<and> hf_allowed_patterns f = [] then \<not> hf_strict f
      else n \<in> set (hf_allowed_hosts f) \<or> list_ex (\<lambda>p. host_pattern_matches p n) (hf_allowed_patterns f))"

lemma check_host_allowed:
  "is_allowed (check_host idna f host ips) \<longleftrightarrow>
     (case normalize_host idna host of
        None \<Rightarrow> False
      | Some n \<Rightarrow> \<not> denied_by f n \<and> \<not> list_ex is_link_local ips \<and> allowed_by f n)"
proof (cases "normalize_host idna host")
  case (Some n)
  have "find is_link_local ips = None \<longleftrightarrow> \<not> list_ex is_link_local ips"
    by (auto simp: find_None_iff list_ex_iff)
  with Some show ?thesis
    by (cases "find is_link_local ips") (simp_all add: check_host_def is_allowed_def denied_by_def allowed_by_def)
qed (simp add: check_host_def is_allowed_def)


text \<open>The filters the interface can build.\<close>

inductive built :: "idna_fn \<Rightarrow> lower_fn \<Rightarrow> host_filter \<Rightarrow> bool" for idna lc where
  new: "built idna lc (filter_new idna lc hosts)"
| new_strict: "built idna lc (filter_new_strict idna lc hosts)"
| allow_all: "built idna lc (filter_allow_all idna lc)"
| with_denied: "built idna lc f \<Longrightarrow> built idna lc (with_denied_hosts idna lc denied f)"

lemma built_denies:
  "built idna lc f \<Longrightarrow> normalize_entry idna lc ` set DENY_HOSTS \<subseteq> set (hf_deny_hosts f)"
  by (induction rule: built.induct)
    (auto simp: filter_new_def filter_new_strict_def filter_allow_all_def with_denied_hosts_def
      split: prod.splits)

text \<open>Documented behaviour of \<open>idna\<close>: lower-case ASCII domains of letters, digits, hyphens and dots
  are unchanged.\<close>

definition idna_ldh :: "idna_fn \<Rightarrow> bool" where
  "idna_ldh idna \<longleftrightarrow>
     (\<forall>d. d \<noteq> [] \<and> list_all (\<lambda>c. is_ascii_lower c \<or> is_ascii_digit c \<or> c \<in> {dot, CHR ''-''}) d \<longrightarrow>
        idna d = Some d)"

lemma normalize_deny_hosts:
  assumes "idna_ldh idna" "d \<in> set DENY_HOSTS"
  shows "normalize_host idna d = Some d"
proof -
  have ldh: "list_all (list_all (\<lambda>c. is_ascii_lower c \<or> is_ascii_digit c \<or> c \<in> {dot, CHR ''-''})) DENY_HOSTS"
    by code_simp
  have trim: "list_all (\<lambda>d. trim_end_matches dot (trim_str d) = d \<and> trim_end_matches dot d = d
      \<and> \<not> list_ex is_control (str_chars d) \<and> d \<noteq> []) DENY_HOSTS"
    by code_simp
  have "idna d = Some d" using assms ldh trim by (auto simp: idna_ldh_def list_all_iff)
  with assms(2) trim show ?thesis by (auto simp: normalize_host_def list_all_iff)
qed


definition demo_idna :: idna_fn where
  "demo_idna s = Some (to_ascii_lowercase s)"

lemma lower_char: "is_ascii_lower c \<or> is_ascii_digit c \<or> c \<in> {dot, CHR ''-''} \<Longrightarrow> to_ascii_lower_char c = c"
  by (auto simp: to_ascii_lower_char_def is_ascii_upper_def is_ascii_lower_def is_ascii_digit_def)

lemma demo_idna_ldh: "idna_ldh demo_idna"
  unfolding idna_ldh_def demo_idna_def to_ascii_lowercase_def
  by (auto simp: list_all_iff intro!: map_idI lower_char)


lemma denied_by_with_denied:
  "denied_by (with_denied_hosts idna lc denied f) n \<longleftrightarrow>
     denied_by f n
     \<or> (\<exists>d \<in> set denied. let p = normalize_entry idna lc d in
          if CHR ''*'' \<in> set d then host_pattern_matches p n else p = n)"
  by (auto simp: denied_by_def with_denied_hosts_def partition_hosts_def list_ex_iff Let_def)

lemma allowed_by_with_denied [simp]: "allowed_by (with_denied_hosts idna lc denied f) n = allowed_by f n"
  by (simp add: allowed_by_def with_denied_hosts_def split: prod.split)

text \<open>
  Adding deny entries removes from the allowed hosts exactly those a new entry matches (the
  entry being a pattern when it contains a star); it never allows a host that was denied.
\<close>

theorem with_denied_hosts_decision:
  "is_allowed (check_host idna (with_denied_hosts idna lc denied f) host ips) \<longleftrightarrow>
     is_allowed (check_host idna f host ips)
     \<and> (case normalize_host idna host of
          None \<Rightarrow> False
        | Some n \<Rightarrow> \<not> list_ex (\<lambda>d. let p = normalize_entry idna lc d in
             if CHR ''*'' \<in> set d then host_pattern_matches p n else p = n) denied)"
  unfolding check_host_allowed
  by (auto simp: denied_by_with_denied list_ex_iff split: option.splits)

section \<open>Address ranges\<close>

lemma and_ffc0: "(s AND 0xffc0 = (0xfe80 :: u16)) \<longleftrightarrow> 0xfe80 \<le> s \<and> s \<le> 0xfebf"
proof -
  have mask: "(0xffc0 :: u16) = push_bit 6 (mask 10)" by (simp add: push_bit_eq_mult mask_eq_exp_minus_1)
  have "s AND 0xffc0 = push_bit 6 (drop_bit 6 s)"
    unfolding mask by (intro bit_word_eqI) (auto simp: bit_simps)
  moreover have "(0xfe80 :: u16) = push_bit 6 0x3fa" by (simp add: push_bit_eq_mult)
  moreover have "push_bit 6 (drop_bit 6 s) = push_bit 6 (0x3fa :: u16) \<longleftrightarrow> drop_bit 6 s = 0x3fa"
  proof
    assume "push_bit 6 (drop_bit 6 s) = push_bit 6 (0x3fa :: u16)"
    then have "drop_bit 6 (push_bit 6 (drop_bit 6 s)) = drop_bit 6 (push_bit 6 (0x3fa :: u16))" by simp
    moreover have "drop_bit 6 (push_bit 6 (drop_bit 6 s)) = drop_bit 6 s"
      by (intro bit_word_eqI) (auto simp: bit_simps dest: bit_imp_le_length)
    ultimately show "drop_bit 6 s = 0x3fa" by (simp add: push_bit_eq_mult drop_bit_eq_div)
  qed simp
  moreover have "drop_bit 6 s = 0x3fa \<longleftrightarrow> unat s div 64 = 0x3fa"
    by (simp add: word_unat_eq_iff drop_bit_eq_div unat_div)
  moreover have "unat s div 64 = 0x3fa \<longleftrightarrow> 0xfe80 \<le> unat s \<and> unat s \<le> 0xfebf" by auto
  ultimately show ?thesis by (simp add: word_le_nat_alt)
qed

lemma high_byte: "(ucast (drop_bit 8 (s :: u16)) :: u8) = 169 \<longleftrightarrow> unat s div 256 mod 256 = 169"
  by (simp add: word_unat_eq_iff unsigned_ucast_eq drop_bit_eq_div take_bit_eq_mod unat_div)

lemma low_byte: "(ucast (s :: u16) :: u8) = 254 \<longleftrightarrow> unat s mod 256 = 254"
  by (simp add: word_unat_eq_iff unsigned_ucast_eq take_bit_eq_mod)

lemma two_bytes:
  assumes "n < (65536 :: nat)"
  shows "n div 256 mod 256 = 169 \<and> n mod 256 = 254 \<longleftrightarrow> n = 0xa9fe"
proof -
  have "n div 256 < 256" using assms by simp
  then have "n div 256 mod 256 = n div 256" by simp
  moreover have "n = 0xa9fe" if "n div 256 = 169" "n mod 256 = 254"
    using div_mult_mod_eq [of n 256] that by simp
  ultimately show ?thesis by auto
qed

lemma unat_0xa9fe: "(s :: u16) = 0xa9fe \<longleftrightarrow> unat s = 0xa9fe"
  by (simp add: word_unat_eq_iff)

lemma mapped_prefix:
  "(ucast (drop_bit 8 s) :: u8) = 169 \<and> (ucast s :: u8) = 254 \<longleftrightarrow> (s :: u16) = 0xa9fe"
proof -
  have "unat s < 65536" by (rule order.strict_trans2 [OF unsigned_less]) simp
  then show ?thesis unfolding high_byte low_byte unat_0xa9fe by (rule two_bytes)
qed

text \<open>
  The link-local test covers exactly 169.254.0.0/16, the IPv6 block from fe80 to febf in its
  first segment, and the IPv4-mapped IPv6 forms of 169.254.0.0/16.
\<close>

theorem is_link_local_ranges:
  "is_link_local ip \<longleftrightarrow>
     (case ip of
        V4 a b _ _ \<Rightarrow> a = 169 \<and> b = 254
      | V6 s0 s1 s2 s3 s4 s5 s6 s7 \<Rightarrow>
          0xfe80 \<le> s0 \<and> s0 \<le> 0xfebf
          \<or> s0 = 0 \<and> s1 = 0 \<and> s2 = 0 \<and> s3 = 0 \<and> s4 = 0 \<and> s5 = 0xffff \<and> s6 = 0xa9fe)"
proof (cases ip)
  case (V6 s0 s1 s2 s3 s4 s5 s6 s7)
  then show ?thesis
    using mapped_prefix [of s6]
    by (auto simp: is_link_local_def and_ffc0 to_ipv4_mapped_def)
qed (simp add: is_link_local_def)

section \<open>Refused patterns and displayed hosts\<close>

lemma labels_match_star_free:
  "list_all2 label_ok ps hs \<Longrightarrow> p \<in> set ps \<Longrightarrow> p \<noteq> ''*'' \<Longrightarrow> p \<in> set hs"
  by (induction rule: list_all2_induct) (auto simp: label_ok_def)

lemma split_on_subset: "p \<in> set (split_on c s) \<Longrightarrow> set p \<subseteq> set s"
  by (induction s arbitrary: p) (auto split: list.splits if_splits, blast+)

definition well_placed_stars :: "string \<Rightarrow> bool" where
  "well_placed_stars pattern \<longleftrightarrow>
     pattern = ''*''
     \<or> (case strip_prefix ''*'' pattern of
          Some sfx \<Rightarrow> starts_with sfx ''.'' \<and> drop 1 sfx \<noteq> [] \<and> CHR ''*'' \<notin> set (drop 1 sfx)
        | None \<Rightarrow> pattern \<noteq> [] \<and> (\<forall>l \<in> set (split_on dot pattern). CHR ''*'' \<in> set l \<longrightarrow> l = ''*''))"

lemma validate_host_pattern_ok: "validate_host_pattern pattern = Inr () \<longleftrightarrow> well_placed_stars pattern"
proof (cases "pattern = [] \<or> pattern = ''*''")
  case True
  then show ?thesis by (auto simp: validate_host_pattern_def well_placed_stars_def)
next
  case False
  show ?thesis
  proof (cases "strip_prefix ''*'' pattern")
    case None
    have "find (\<lambda>label. CHR ''*'' \<in> set label \<and> label \<noteq> ''*'') (split_on dot pattern) = None \<longleftrightarrow>
        (\<forall>l \<in> set (split_on dot pattern). CHR ''*'' \<in> set l \<longrightarrow> l = ''*'')"
      by (auto simp: find_None_iff)
    with False None show ?thesis
      by (cases "find (\<lambda>label. CHR ''*'' \<in> set label \<and> label \<noteq> ''*'') (split_on dot pattern)")
         (simp_all add: validate_host_pattern_def well_placed_stars_def)
  next
    case (Some s)
    with False show ?thesis by (simp add: validate_host_pattern_def well_placed_stars_def)
  qed
qed

lemma plain_pattern_stars:
  assumes "host_pattern_matches pattern host" "host \<noteq> []" "CHR ''*'' \<notin> set host"
    and "strip_prefix ''*'' pattern = None"
  shows "well_placed_stars pattern"
proof -
  have "pattern \<noteq> ''*''" using assms(4) by auto
  then have lm: "list_all2 label_ok (split_on dot pattern) (split_on dot host)"
    using assms(1,4) by (simp add: host_pattern_matches_def labels_match_all2)
  have "pattern \<noteq> []"
  proof
    assume "pattern = []"
    with lm have "split_on dot host = [[]]" by (auto simp: label_ok_def list_all2_Cons1)
    then have "join_with [dot] (split_on dot host) = []" by simp
    with assms(2) show False by simp
  qed
  moreover have "l = ''*''" if l: "l \<in> set (split_on dot pattern)" "CHR ''*'' \<in> set l" for l
  proof (rule ccontr)
    assume "l \<noteq> ''*''"
    with labels_match_star_free [OF lm l(1)] have "set l \<subseteq> set host" using split_on_subset by metis
    with l(2) assms(3) show False by auto
  qed
  ultimately show ?thesis using assms(4) by (simp add: well_placed_stars_def)
qed

lemma leading_star_stars:
  assumes "host_pattern_matches pattern host" "CHR ''*'' \<notin> set host" "last host \<noteq> dot"
    and "strip_prefix ''*'' pattern = Some s"
  shows "well_placed_stars pattern"
proof (cases "pattern = ''*''")
  case False
  with assms(1,4) have "starts_with s ''.''" and "strip_suffix s host \<noteq> None"
    by (auto simp: host_pattern_matches_def split: if_splits option.splits)
  then obtain t pre where "s = dot # t" "host = pre @ s"
    by (auto simp: str_simps starts_with_iff prefix_def suffix_def)
  with assms show ?thesis by (auto simp: well_placed_stars_def starts_with_iff)
qed (simp add: well_placed_stars_def)

text \<open>
  A pattern the validation refuses is useless: it matches no host name that is in normal form,
  that is, non-empty, without star and without a trailing dot.
\<close>

theorem refused_pattern_never_matches:
  assumes "validate_host_pattern pattern = Inl e"
    and "host \<noteq> []" "CHR ''*'' \<notin> set host" "last host \<noteq> dot"
  shows "\<not> host_pattern_matches pattern host"
proof
  assume m: "host_pattern_matches pattern host"
  have "well_placed_stars pattern"
    using plain_pattern_stars [OF m assms(2,3)] leading_star_stars [OF m assms(3,4)]
    by (cases "strip_prefix ''*'' pattern") auto
  then have "validate_host_pattern pattern = Inr ()" by (simp only: validate_host_pattern_ok)
  with assms(1) show False by simp
qed

theorem refused_pattern_never_matches_witness:
  "validate_host_pattern ''foo*.example.com'' \<noteq> Inr () \<and> \<not> host_pattern_matches ''foo*.example.com'' ''foox.example.com''"
proof -
  obtain e where e: "validate_host_pattern ''foo*.example.com'' = Inl e"
    by (simp add: validate_host_pattern_def)
  from refused_pattern_never_matches [OF e, of "''foox.example.com''"] e show ?thesis by simp
qed

end
