(* ===== verification/Rust_Io.thy ===== *)
theory Rust_Io
  imports Nono_Prelude
begin

text \<open>
  The parts of \<open>std::str\<close> and \<open>std::io\<close> that the log and ledger code relies on: the validity check
  of \<open>str::from_utf8\<close>, the line iterator of \<open>BufRead\<close>, and writes that may fail after part of the
  bytes reached the file.  An I/O error is represented by its display text.
\<close>

section \<open>UTF-8\<close>

definition byte_in :: "nat \<Rightarrow> nat \<Rightarrow> char \<Rightarrow> bool" where
  "byte_in lo hi c \<longleftrightarrow> lo \<le> byte c \<and> byte c \<le> hi"

text \<open>The rest of a byte string after its first well-formed scalar value (RFC 3629, table 3-7 of Unicode).\<close>

fun utf8_step :: "string \<Rightarrow> string option" where
  "utf8_step [] = None"
| "utf8_step (a # s) =
     (if byte a < 128 then Some s
      else if byte_in 0xC2 0xDF a then
        (case s of b # s' \<Rightarrow> if is_cont_byte b then Some s' else None | _ \<Rightarrow> None)
      else if byte_in 0xE0 0xEF a then
        (case s of
           b # c # s' \<Rightarrow>
             if is_cont_byte b \<and> is_cont_byte c
                \<and> (byte a = 0xE0 \<longrightarrow> 0xA0 \<le> byte b) \<and> (byte a = 0xED \<longrightarrow> byte b \<le> 0x9F)
             then Some s' else None
         | _ \<Rightarrow> None)
      else if byte_in 0xF0 0xF4 a then
        (case s of
           b # c # d # s' \<Rightarrow>
             if is_cont_byte b \<and> is_cont_byte c \<and> is_cont_byte d
                \<and> (byte a = 0xF0 \<longrightarrow> 0x90 \<le> byte b) \<and> (byte a = 0xF4 \<longrightarrow> byte b \<le> 0x8F)
             then Some s' else None
         | _ \<Rightarrow> None)
      else None)"

lemma utf8_step_shorter: "utf8_step s = Some r \<Longrightarrow> length r < length s"
  by (cases s) (auto split: if_splits list.splits)

function valid_utf8 :: "string \<Rightarrow> bool" where
  "valid_utf8 s =
     (if s = [] then True
      else (case utf8_step s of None \<Rightarrow> False | Some r \<Rightarrow> valid_utf8 r))"
  by auto

termination
  by (relation "measure length") (auto dest: utf8_step_shorter)

declare valid_utf8.simps [simp del]

lemma valid_utf8_Nil [simp]: "valid_utf8 []"
  by (simp add: valid_utf8.simps)

lemma valid_utf8_ascii: "ascii s \<Longrightarrow> valid_utf8 s"
proof (induction s)
  case (Cons c s)
  then show ?case by (subst valid_utf8.simps) simp
qed simp

text \<open>
  The display of a \<open>Utf8Error\<close>: the index up to which the bytes are valid and the length of the invalid
  sequence, which is absent when the input ends inside a character.
\<close>

definition utf8_second_ok :: "char \<Rightarrow> char \<Rightarrow> bool" where
  "utf8_second_ok a b \<longleftrightarrow>
     is_cont_byte b
     \<and> (byte a = 0xE0 \<longrightarrow> 0xA0 \<le> byte b) \<and> (byte a = 0xED \<longrightarrow> byte b \<le> 0x9F)
     \<and> (byte a = 0xF0 \<longrightarrow> 0x90 \<le> byte b) \<and> (byte a = 0xF4 \<longrightarrow> byte b \<le> 0x8F)"

definition utf8_error_len :: "string \<Rightarrow> nat option" where
  "utf8_error_len s =
     (case s of
        [] \<Rightarrow> None
      | a # rest \<Rightarrow>
          if \<not> byte_in 0xC2 0xF4 a then Some 1
          else
            (case rest of
               [] \<Rightarrow> None
             | b # rest2 \<Rightarrow>
                 if \<not> utf8_second_ok a b then Some 1
                 else
                   (case rest2 of
                      [] \<Rightarrow> None
                    | c # rest3 \<Rightarrow>
                        if \<not> is_cont_byte c then Some 2
                        else (case rest3 of [] \<Rightarrow> None | _ \<Rightarrow> Some 3))))"

function utf8_error_text :: "nat \<Rightarrow> string \<Rightarrow> string" where
  "utf8_error_text i s =
     (case utf8_step s of
        Some r \<Rightarrow> utf8_error_text (i + (length s - length r)) r
      | None \<Rightarrow>
          (case utf8_error_len s of
             Some n \<Rightarrow> ''invalid utf-8 sequence of '' @ show_nat n @ '' bytes from index '' @ show_nat i
           | None \<Rightarrow> ''incomplete utf-8 byte sequence from index '' @ show_nat i))"
  by auto

termination
  by (relation "measure (length \<circ> snd)") (auto dest: utf8_step_shorter)

declare utf8_error_text.simps [simp del]

section \<open>Lines of a reader\<close>

text \<open>
  What a reader delivers: the bytes read until the end of the file, or until a read fails with the
  given error.
\<close>

record reader =
  rd_data :: string
  rd_error :: "string option"

abbreviation newline :: char where
  "newline \<equiv> CHR 0x0A"

abbreviation carriage_return :: char where
  "carriage_return \<equiv> CHR 0x0D"

definition not_utf8 :: string where
  "not_utf8 = ''stream did not contain valid UTF-8''"

definition decode_line :: "string \<Rightarrow> string + string" where
  "decode_line l = (if valid_utf8 l then Inr l else Inl not_utf8)"

definition chomp_cr :: "string \<Rightarrow> string" where
  "chomp_cr l = (if l \<noteq> [] \<and> last l = carriage_return then butlast l else l)"

text \<open>
  \<open>BufRead::lines\<close>: the terminator \<open>\n\<close> or \<open>\r\n\<close> is removed, an unterminated last line is delivered
  as it is, a line that is not UTF-8 and a failing read are errors of the iterator.
\<close>

definition lines :: "reader \<Rightarrow> (string + string) list" where
  "lines r =
     (let segs = split_on newline (rd_data r)
      in map (\<lambda>l. map_sum (\<lambda>e. e) chomp_cr (decode_line l)) (butlast segs)
         @ (case rd_error r of
              Some e \<Rightarrow> [Inl e]
            | None \<Rightarrow> if last segs = [] then [] else [decode_line (last segs)]))"

definition file_reader :: "string \<Rightarrow> reader" where
  "file_reader content = \<lparr>rd_data = content, rd_error = None\<rparr>"

text \<open>A file that consists of terminated lines is read back line by line.\<close>

definition line_ok :: "string \<Rightarrow> bool" where
  "line_ok l \<longleftrightarrow> newline \<notin> set l \<and> valid_utf8 l \<and> (l \<noteq> [] \<longrightarrow> last l \<noteq> carriage_return)"

definition terminated :: "string list \<Rightarrow> string" where
  "terminated ls = concat (map (\<lambda>l. l @ [newline]) ls)"

lemma terminated_simps [simp]:
  "terminated [] = []"
  "terminated (l # ls) = l @ newline # terminated ls"
  "terminated (ls @ ks) = terminated ls @ terminated ks"
  by (simp_all add: terminated_def)

lemma split_terminated:
  "\<forall>l \<in> set ls. newline \<notin> set l \<Longrightarrow> split_on newline (terminated ls) = ls @ [[]]"
  by (induction ls) (auto simp: split_on_append split_on_free)

lemma lines_terminated:
  assumes "\<forall>l \<in> set ls. line_ok l"
  shows "lines (file_reader (terminated ls)) = map Inr ls"
  using assms
  by (auto simp: lines_def file_reader_def split_terminated line_ok_def decode_line_def chomp_cr_def)

section \<open>Writes\<close>

text \<open>
  The outcome of a write is chosen by the environment: all bytes are appended, or an error is
  reported after some of them were.
\<close>

datatype write_outcome = Written | Write_Failed nat string

definition write_all :: "write_outcome \<Rightarrow> string \<Rightarrow> string \<Rightarrow> string \<times> (string + unit)" where
  "write_all w content bs =
     (case w of
        Written \<Rightarrow> (content @ bs, Inr ())
      | Write_Failed n e \<Rightarrow> (content @ take n bs, Inl e))"

lemma write_all_Written [simp]: "write_all Written content bs = (content @ bs, Inr ())"
  by (simp add: write_all_def)

lemma write_all_ok: "snd (write_all w content bs) = Inr () \<longleftrightarrow> w = Written"
  by (cases w) (simp_all add: write_all_def)

end
