(* ===== verification/Content_Hash.thy ===== *)
theory Content_Hash
  imports Nono_Error Rust_Io
begin

text \<open>
  \<open>ContentHash\<close> of \<open>undo/types.rs\<close>: a SHA-256 digest of 32 bytes, its hexadecimal display, its parser
  and the split into the two parts of an object-store path.  SHA-256 itself (the \<open>sha2\<close> crate) is a
  parameter of the functions that hash, of type \<open>sha256\<close>: its result has 32 bytes by its type, and
  nothing else is assumed of it unless a theorem says so.
\<close>

typedef bytes32 = "{s :: string. length s = 32}"
  morphisms raw32 Bytes32
  by (rule exI [of _ "replicate 32 (CHR 0x00)"]) simp

setup_lifting type_definition_bytes32

text \<open>The array a byte string fills: zero bytes at the end where it is too short.\<close>

lift_definition bytes32_of :: "string \<Rightarrow> bytes32" is "\<lambda>s. take 32 (s @ replicate 32 (CHR 0x00))"
  by simp

instantiation bytes32 :: equal
begin

definition equal_bytes32 :: "bytes32 \<Rightarrow> bytes32 \<Rightarrow> bool" where
  "equal_bytes32 a b \<longleftrightarrow> raw32 a = raw32 b"

instance
  by standard (simp add: equal_bytes32_def raw32_inject)

end

type_synonym sha256 = "string \<Rightarrow> bytes32"

lemma length_raw32 [simp]: "length (raw32 b) = 32"
  using raw32 [of b] by simp

lemma raw32_ne [simp]: "raw32 b \<noteq> []"
  using length_raw32 [of b] by fastforce

lemma raw32_bytes32_of [simp]: "length s = 32 \<Longrightarrow> raw32 (bytes32_of s) = s"
  by transfer simp

lemma bytes32_of_raw32 [simp]: "bytes32_of (raw32 b) = b"
  by (simp add: raw32_inject [symmetric])

datatype content_hash = ContentHash (as_bytes: bytes32)

definition from_bytes :: "bytes32 \<Rightarrow> content_hash" where
  "from_bytes bytes = ContentHash bytes"

lemma from_bytes_inject [simp]:
  "from_bytes a = from_bytes b \<longleftrightarrow> a = b" "as_bytes (from_bytes a) = a" "from_bytes (as_bytes h) = h"
  by (simp_all add: from_bytes_def)

section \<open>Hexadecimal display\<close>

definition hex_digit :: "nat \<Rightarrow> char" where
  "hex_digit n = (if n < 10 then char_of (48 + n) else char_of (87 + n))"

definition hex_byte :: "char \<Rightarrow> string" where
  "hex_byte c = [hex_digit (byte c div 16), hex_digit (byte c mod 16)]"

definition hash_prefix :: "content_hash \<Rightarrow> string" where
  "hash_prefix h = hex_byte (hd (raw32 (as_bytes h)))"

definition hash_suffix :: "content_hash \<Rightarrow> string" where
  "hash_suffix h = concat (map hex_byte (tl (raw32 (as_bytes h))))"

definition hash_display :: "content_hash \<Rightarrow> string" where
  "hash_display h = concat (map hex_byte (raw32 (as_bytes h)))"

section \<open>Parsing\<close>

datatype content_hash_parse_error = InvalidLength nat | InvalidHex

definition parse_error_display :: "content_hash_parse_error \<Rightarrow> string" where
  "parse_error_display e =
     (case e of
        InvalidLength len \<Rightarrow> ''expected 64 hex characters, got '' @ show_nat len
      | InvalidHex \<Rightarrow> ''invalid hex character'')"

text \<open>\<open>char::to_digit(16)\<close> and \<open>u8::from_str_radix(_, 16)\<close>, which accepts a leading plus sign.\<close>

definition hex_value :: "char \<Rightarrow> nat option" where
  "hex_value c =
     (if is_ascii_digit c then Some (byte c - 48)
      else if 97 \<le> byte c \<and> byte c \<le> 102 then Some (byte c - 87)
      else if 65 \<le> byte c \<and> byte c \<le> 70 then Some (byte c - 55)
      else None)"

fun hex_digits :: "nat \<Rightarrow> string \<Rightarrow> nat option" where
  "hex_digits acc [] = Some acc"
| "hex_digits acc (c # cs) =
     (case hex_value c of
        None \<Rightarrow> None
      | Some d \<Rightarrow> if acc * 16 + d < 256 then hex_digits (acc * 16 + d) cs else None)"

definition u8_from_hex :: "string \<Rightarrow> char option" where
  "u8_from_hex s =
     (if s = [] \<or> s = ''+'' \<or> s = ''-'' then None
      else map_option char_of (hex_digits 0 (if hd s = CHR ''+'' then tl s else s)))"

definition parse_hex_pair :: "string \<Rightarrow> content_hash_parse_error + char" where
  "parse_hex_pair chunk =
     (if \<not> valid_utf8 chunk then Inl InvalidHex
      else ok_or InvalidHex (u8_from_hex chunk))"

definition hash_from_str :: "string \<Rightarrow> content_hash_parse_error + content_hash" where
  "hash_from_str s =
     (if length s \<noteq> 64 then Inl (InvalidLength (length s))
      else and_then
             (fold_res (\<lambda>bytes chunk. map_sum id (\<lambda>b. bytes @ [b]) (parse_hex_pair chunk)) [] (chunks 2 s))
             (\<lambda>bytes. Inr (ContentHash (bytes32_of bytes))))"

section \<open>Round trip\<close>

lemma byte_less [simp]: "byte c < 256"
  using of_char_mod_256 [of c, where 'a = nat] by (metis mod_less_divisor zero_less_numeral)

lemma byte_char_of: "n < 256 \<Longrightarrow> byte (char_of n) = n"
  by (simp add: take_bit_eq_mod)

lemma hex_digit_byte:
  "n < 16 \<Longrightarrow> byte (hex_digit n) = (if n < 10 then 48 + n else 87 + n)"
  by (simp add: hex_digit_def byte_char_of)

lemma hex_value_digit: "n < 16 \<Longrightarrow> hex_value (hex_digit n) = Some n"
  by (auto simp: hex_value_def is_ascii_digit_def hex_digit_byte)

lemma hex_digit_ascii: "n < 16 \<Longrightarrow> byte (hex_digit n) < 128"
  by (simp add: hex_digit_byte)

lemma hex_parts [simp]: "byte c div 16 < 16" "byte c mod 16 < 16"
  using less_mult_imp_div_less [of "byte c" 16 16] byte_less [of c] by simp_all

lemma ascii_hex_byte: "ascii (hex_byte c)"
  by (simp add: hex_byte_def hex_digit_ascii)

lemma hex_digit_not_plus: "n < 16 \<Longrightarrow> hex_digit n \<noteq> CHR ''+''"
  using hex_digit_byte [of n] by (auto split: if_splits)

lemma u8_from_hex_byte: "u8_from_hex (hex_byte c) = Some c"
proof -
  have "byte c div 16 < 256" by (rule order.strict_trans [OF hex_parts(1)]) simp
  then show ?thesis
    by (simp add: u8_from_hex_def hex_byte_def hex_value_digit hex_digit_not_plus)
qed

lemma parse_hex_byte [simp]: "parse_hex_pair (hex_byte c) = Inr c"
  by (simp add: parse_hex_pair_def u8_from_hex_byte valid_utf8_ascii ascii_hex_byte)

lemma length_hex [simp]: "length (concat (map hex_byte bs)) = 2 * length bs"
  by (induction bs) (simp_all add: hex_byte_def)

lemma chunks_hex: "chunks 2 (concat (map hex_byte bs)) = map hex_byte bs"
proof (induction bs)
  case (Cons b bs)
  have "chunks 2 (hex_byte b @ concat (map hex_byte bs)) = hex_byte b # chunks 2 (concat (map hex_byte bs))"
    by (subst chunks.simps) (simp add: hex_byte_def)
  with Cons show ?case by simp
qed (simp add: chunks.simps)

lemma fold_parse_hex:
  "fold_res (\<lambda>bytes chunk. map_sum id (\<lambda>b. bytes @ [b]) (parse_hex_pair chunk)) acc (map hex_byte bs)
     = Inr (acc @ bs)"
  by (induction bs arbitrary: acc) simp_all

text \<open>
  Printing a content hash and parsing the text gives the hash back, the text has 64 characters,
  and the two parts of its object-store path, put together, are that text.
\<close>

theorem content_hash_roundtrip:
  "hash_from_str (hash_display h) = Inr h
   \<and> length (hash_display h) = 64
   \<and> hash_prefix h @ hash_suffix h = hash_display h"
proof -
  have "hash_prefix h @ hash_suffix h = hash_display h"
    by (cases "raw32 (as_bytes h)") (simp_all add: hash_prefix_def hash_suffix_def hash_display_def)
  moreover have "length (hash_display h) = 64" by (simp add: hash_display_def)
  moreover from this have "hash_from_str (hash_display h) = Inr h"
    by (simp add: hash_from_str_def) (simp add: hash_display_def chunks_hex fold_parse_hex)
  ultimately show ?thesis by simp
qed

lemma hash_display_inject [simp]: "hash_display g = hash_display h \<longleftrightarrow> g = h"
proof
  assume "hash_display g = hash_display h"
  then have "map hex_byte (raw32 (as_bytes g)) = map hex_byte (raw32 (as_bytes h))"
    unfolding hash_display_def by (metis chunks_hex)
  then have "map (u8_from_hex \<circ> hex_byte) (raw32 (as_bytes g)) = map (u8_from_hex \<circ> hex_byte) (raw32 (as_bytes h))"
    by (metis list.map_comp)
  then have "map Some (raw32 (as_bytes g)) = map Some (raw32 (as_bytes h))"
    by (simp add: comp_def u8_from_hex_byte)
  then have "raw32 (as_bytes g) = raw32 (as_bytes h)" by (rule map_injective) simp
  then show "g = h" by (simp add: raw32_inject content_hash.expand)
qed simp

text \<open>
  The parser is not limited to hexadecimal digits: because \<open>u8::from_str_radix\<close> takes a leading
  plus sign, a text in which every pair is a plus sign and one digit is accepted, with a hash whose
  display has zeros in the place of the plus signs.
\<close>

theorem hash_from_str_plus:
  "case hash_from_str (concat (replicate 32 ''+a'')) of
     Inl _ \<Rightarrow> False
   | Inr h \<Rightarrow> hash_display h = concat (replicate 32 ''0a'')"
  by code_simp

end
