(* ===== verification/Hash_Tree.thy ===== *)
theory Hash_Tree
  imports Content_Hash
begin

text \<open>
  Binary hash trees built bottom-up from a list of leaves, an odd node at the end of a level being
  promoted to the next one: the shape that the audit log and the snapshot manifests share.  The
  locales state what the proofs need of the encoding of a node, and of a leaf, as bytes to be hashed.
\<close>

section \<open>One level, and the reduction to a root\<close>

fun pair_up :: "('h \<Rightarrow> 'h \<Rightarrow> 'h) \<Rightarrow> 'h list \<Rightarrow> 'h list" where
  "pair_up f (a # b # xs) = f a b # pair_up f xs"
| "pair_up f [a] = [a]"
| "pair_up f [] = []"

lemma length_pair_up: "length (pair_up f xs) = (length xs + 1) div 2"
  by (induction f xs rule: pair_up.induct) simp_all

lemma pair_up_shorter: "1 < length xs \<Longrightarrow> length (pair_up f xs) < length xs"
  by (simp add: length_pair_up)

lemma pair_up_Nil [simp]: "pair_up f xs = [] \<longleftrightarrow> xs = []"
  by (cases "(f, xs)" rule: pair_up.cases) simp_all

lemma pair_up_nth:
  "i < length xs \<Longrightarrow>
   pair_up f xs ! (i div 2) =
     (if even i then (if Suc i < length xs then f (xs ! i) (xs ! Suc i) else xs ! i)
      else f (xs ! (i - 1)) (xs ! i))"
proof (induction f xs arbitrary: i rule: pair_up.induct)
  case (1 f a b xs)
  consider "i = 0" | "i = 1" | j where "i = Suc (Suc j)" by (metis One_nat_def not0_implies_Suc)
  then show ?case
  proof cases
    case (3 j)
    with 1 show ?thesis by (cases "odd j") (auto elim!: oddE)
  qed simp_all
qed auto

function reduce :: "('h \<Rightarrow> 'h \<Rightarrow> 'h) \<Rightarrow> 'h list \<Rightarrow> 'h list" where
  "reduce f xs = (if 1 < length xs then reduce f (pair_up f xs) else xs)"
  by auto

termination
  by (relation "measure (length \<circ> snd)") (simp_all add: length_pair_up)

declare reduce.simps [simp del]

lemma length_reduce: "xs \<noteq> [] \<Longrightarrow> length (reduce f xs) = 1"
proof (induction f xs rule: reduce.induct)
  case (1 f xs)
  show ?case
  proof (cases "1 < length xs")
    case True
    with 1 show ?thesis by (auto simp: reduce.simps [of f xs])
  next
    case False
    with 1(2) show ?thesis by (cases xs) (simp_all add: reduce.simps)
  qed
qed

lemma reduce_single: "xs \<noteq> [] \<Longrightarrow> reduce f xs = [hd (reduce f xs)]"
  using length_reduce [of xs f] by (cases "reduce f xs") auto

section \<open>Trees\<close>

datatype 'a htree = Tip 'a | Bin "'a htree" "'a htree"

fun tips :: "'a htree \<Rightarrow> 'a list" where
  "tips (Tip x) = [x]"
| "tips (Bin l r) = tips l @ tips r"

definition tree_of :: "'a list \<Rightarrow> 'a htree" where
  "tree_of xs = hd (reduce Bin (map Tip xs))"

fun eval_tree :: "('a \<Rightarrow> 'h) \<Rightarrow> ('h \<Rightarrow> 'h \<Rightarrow> 'h) \<Rightarrow> 'a htree \<Rightarrow> 'h" where
  "eval_tree g f (Tip x) = g x"
| "eval_tree g f (Bin l r) = f (eval_tree g f l) (eval_tree g f r)"

lemma map_pair_up:
  assumes "\<And>a b. h (f a b) = f' (h a) (h b)"
  shows "map h (pair_up f xs) = pair_up f' (map h xs)"
  by (induction xs rule: induct_list012) (simp_all add: assms)

lemma map_reduce:
  assumes "\<And>a b. h (f a b) = f' (h a) (h b)"
  shows "map h (reduce f xs) = reduce f' (map h xs)"
proof (induction "length xs" arbitrary: xs rule: less_induct)
  case less
  show ?case
  proof (cases "1 < length xs")
    case True
    with less [of "pair_up f xs"] have "map h (reduce f (pair_up f xs)) = reduce f' (map h (pair_up f xs))"
      by (simp add: length_pair_up)
    with True show ?thesis
      by (simp add: reduce.simps [of f xs] reduce.simps [of f' "map h xs"] map_pair_up [where h = h and f' = f', OF assms])
  qed (simp add: reduce.simps [of f xs] reduce.simps [of f' "map h xs"])
qed

lemma tips_reduce: "concat (map tips (reduce Bin ts)) = concat (map tips ts)"
proof (induction "length ts" arbitrary: ts rule: less_induct)
  case less
  have "concat (map tips (pair_up Bin ts)) = concat (map tips ts)"
    by (induction ts rule: induct_list012) simp_all
  with less [of "pair_up Bin ts"] show ?case
    by (cases "1 < length ts") (simp_all add: reduce.simps [of Bin ts] length_pair_up)
qed

lemma reduce_tree_of: "xs \<noteq> [] \<Longrightarrow> reduce Bin (map Tip xs) = [tree_of xs]"
  unfolding tree_of_def by (rule reduce_single) simp

lemma tips_tree_of: "xs \<noteq> [] \<Longrightarrow> tips (tree_of xs) = xs"
  using tips_reduce [of "map Tip xs"] by (simp add: reduce_tree_of comp_def)

lemma eval_tree_of: "xs \<noteq> [] \<Longrightarrow> reduce f (map g xs) = [eval_tree g f (tree_of xs)]"
proof -
  assume "xs \<noteq> []"
  have "reduce f (map g xs) = map (eval_tree g f) (reduce Bin (map Tip xs))"
    by (subst map_reduce [where f' = f]) (simp_all add: comp_def)
  with \<open>xs \<noteq> []\<close> show ?thesis by (simp add: reduce_tree_of)
qed

lemma map_tree_of: "xs \<noteq> [] \<Longrightarrow> tree_of (map g xs) = map_htree g (tree_of xs)"
proof -
  assume "xs \<noteq> []"
  have "map (map_htree g) (reduce Bin (map Tip xs)) = reduce Bin (map Tip (map g xs))"
    by (subst map_reduce [where f' = Bin]) (simp_all add: comp_def)
  with \<open>xs \<noteq> []\<close> show ?thesis by (simp add: reduce_tree_of del: map_map)
qed

text \<open>The shape of the tree depends only on the number of leaves.\<close>

lemma shape_tree_of:
  assumes "length xs = length ys" "xs \<noteq> []"
  shows "map_htree (\<lambda>_. ()) (tree_of xs) = map_htree (\<lambda>_. ()) (tree_of ys)"
proof -
  have "map (\<lambda>_. ()) xs = map (\<lambda>_. ()) ys" using assms(1) by (simp add: map_replicate_const)
  with assms show ?thesis by (metis length_0_conv map_tree_of)
qed

section \<open>The bytes hashed for a tree\<close>

text \<open>
  Leaves given as hashes: \<open>eval_hashes\<close> is the root and \<open>node_inputs\<close> the byte strings hashed on the
  way to it.  Leaves given by their content: \<open>top_input\<close> is the string whose hash is the root.
\<close>

type_synonym node_enc = "bytes32 \<Rightarrow> bytes32 \<Rightarrow> string"

definition eval_hashes :: "node_enc \<Rightarrow> sha256 \<Rightarrow> bytes32 htree \<Rightarrow> bytes32" where
  "eval_hashes node sha = eval_tree (\<lambda>x. x) (\<lambda>a b. sha (node a b))"

lemma eval_hashes_simps [simp]:
  "eval_hashes node sha (Tip x) = x"
  "eval_hashes node sha (Bin l r) = sha (node (eval_hashes node sha l) (eval_hashes node sha r))"
  by (simp_all add: eval_hashes_def)

fun node_inputs :: "node_enc \<Rightarrow> sha256 \<Rightarrow> bytes32 htree \<Rightarrow> string set" where
  "node_inputs node sha (Tip x) = {}"
| "node_inputs node sha (Bin l r) =
     insert (node (eval_hashes node sha l) (eval_hashes node sha r))
       (node_inputs node sha l \<union> node_inputs node sha r)"

definition hash_inputs :: "node_enc \<Rightarrow> sha256 \<Rightarrow> bytes32 list \<Rightarrow> string set" where
  "hash_inputs node sha xs = (if xs = [] then {} else node_inputs node sha (tree_of xs))"

fun top_input :: "('a \<Rightarrow> string) \<Rightarrow> node_enc \<Rightarrow> sha256 \<Rightarrow> 'a htree \<Rightarrow> string" where
  "top_input leaf node sha (Tip x) = leaf x"
| "top_input leaf node sha (Bin l r) =
     node (sha (top_input leaf node sha l)) (sha (top_input leaf node sha r))"

fun tree_inputs :: "('a \<Rightarrow> string) \<Rightarrow> node_enc \<Rightarrow> sha256 \<Rightarrow> 'a htree \<Rightarrow> string set" where
  "tree_inputs leaf node sha (Tip x) = {leaf x}"
| "tree_inputs leaf node sha (Bin l r) =
     insert (top_input leaf node sha (Bin l r))
       (tree_inputs leaf node sha l \<union> tree_inputs leaf node sha r)"

definition leaf_inputs :: "('a \<Rightarrow> string) \<Rightarrow> node_enc \<Rightarrow> sha256 \<Rightarrow> 'a list \<Rightarrow> string set" where
  "leaf_inputs leaf node sha xs = (if xs = [] then {} else tree_inputs leaf node sha (tree_of xs))"

lemma top_in_inputs: "top_input leaf node sha t \<in> tree_inputs leaf node sha t"
  by (cases t) simp_all

lemma eval_top:
  "eval_tree (\<lambda>x. sha (leaf x)) (\<lambda>a b. sha (node a b)) t = sha (top_input leaf node sha t)"
  by (induction t) simp_all

section \<open>Encodings of nodes\<close>

locale node_encoding =
  fixes node_in :: "bytes32 \<Rightarrow> bytes32 \<Rightarrow> string"
  assumes node_in_inject: "node_in a b = node_in c d \<Longrightarrow> a = c \<and> b = d"
begin

lemma eval_inject:
  assumes "map_htree (\<lambda>_. ()) s = map_htree (\<lambda>_. ()) t" "eval_hashes node_in sha s = eval_hashes node_in sha t"
    and "inj_on sha (node_inputs node_in sha s \<union> node_inputs node_in sha t)"
  shows "s = t"
  using assms
proof (induction s arbitrary: t)
  case (Tip x)
  then show ?case by (cases t) simp_all
next
  case (Bin l r)
  then obtain l' r' where t: "t = Bin l' r'" by (cases t) simp_all
  have "node_in (eval_hashes node_in sha l) (eval_hashes node_in sha r) = node_in (eval_hashes node_in sha l') (eval_hashes node_in sha r')"
    by (rule inj_onD [OF Bin.prems(3)]) (use Bin.prems(2) in \<open>simp_all add: t\<close>)
  then have e: "eval_hashes node_in sha l = eval_hashes node_in sha l'" "eval_hashes node_in sha r = eval_hashes node_in sha r'" by (auto dest: node_in_inject)
  have i: "inj_on sha (node_inputs node_in sha l \<union> node_inputs node_in sha l')" "inj_on sha (node_inputs node_in sha r \<union> node_inputs node_in sha r')"
    by (rule inj_on_subset [OF Bin.prems(3)]; auto simp: t)+
  from Bin.prems(1) have "map_htree (\<lambda>_. ()) l = map_htree (\<lambda>_. ()) l'" "map_htree (\<lambda>_. ()) r = map_htree (\<lambda>_. ()) r'"
    by (simp_all add: t)
  then show ?case using Bin.IH(1) [OF _ e(1) i(1)] Bin.IH(2) [OF _ e(2) i(2)] by (simp add: t)
qed

lemma root_inject:
  assumes "reduce (\<lambda>a b. sha (node_in a b)) xs = reduce (\<lambda>a b. sha (node_in a b)) ys"
    and "length xs = length ys"
    and "inj_on sha (hash_inputs node_in sha xs \<union> hash_inputs node_in sha ys)"
  shows "xs = ys"
proof (cases "xs = []")
  case False
  then have ne: "xs \<noteq> []" "ys \<noteq> []" using assms(2) by auto
  then have "tree_of xs = tree_of ys"
    using assms(1,3) eval_tree_of [of xs _ "\<lambda>x. x"] eval_tree_of [of ys _ "\<lambda>x. x"]
    by (intro eval_inject [of _ _ sha] shape_tree_of [OF assms(2)]) (simp_all add: hash_inputs_def eval_hashes_def)
  with ne show ?thesis by (metis tips_tree_of)
qed (use assms(2) in simp)

end

section \<open>Encodings of leaves\<close>

text \<open>
  When leaves are hashed too, under an encoding that no node has, the root determines the leaves
  without knowing how many there are.
\<close>

locale leaf_encoding = node_encoding node_in for node_in +
  fixes leaf_in :: "'a \<Rightarrow> string"
  assumes leaf_in_inject: "leaf_in x = leaf_in y \<Longrightarrow> x = y"
    and leaf_not_node: "leaf_in x \<noteq> node_in a b"
begin

lemma tree_inject:
  assumes "sha (top_input leaf_in node_in sha s) = sha (top_input leaf_in node_in sha t)"
    and "inj_on sha (tree_inputs leaf_in node_in sha s \<union> tree_inputs leaf_in node_in sha t)"
  shows "s = t"
  using assms
proof (induction s arbitrary: t)
  case (Tip x)
  have "leaf_in x = top_input leaf_in node_in sha t"
    by (rule inj_onD [OF Tip.prems(2)]) (use Tip.prems(1) top_in_inputs [of leaf_in node_in sha t] in simp_all)
  with leaf_in_inject leaf_not_node show ?case by (cases t) auto
next
  case (Bin l r)
  have e: "top_input leaf_in node_in sha (Bin l r) = top_input leaf_in node_in sha t"
    by (rule inj_onD [OF Bin.prems(2)]) (use Bin.prems(1) top_in_inputs [of leaf_in node_in sha t] in simp_all)
  then obtain l' r' where t: "t = Bin l' r'" by (cases t) (auto simp: leaf_not_node [symmetric])
  have h: "sha (top_input leaf_in node_in sha l) = sha (top_input leaf_in node_in sha l')" "sha (top_input leaf_in node_in sha r) = sha (top_input leaf_in node_in sha r')"
    using e by (auto simp: t dest: node_in_inject)
  have i: "inj_on sha (tree_inputs leaf_in node_in sha l \<union> tree_inputs leaf_in node_in sha l')" "inj_on sha (tree_inputs leaf_in node_in sha r \<union> tree_inputs leaf_in node_in sha r')"
    by (rule inj_on_subset [OF Bin.prems(2)]; auto simp: t)+
  show ?case using Bin.IH(1) [OF h(1) i(1)] Bin.IH(2) [OF h(2) i(2)] by (simp add: t)
qed

lemma leaves_inject:
  assumes "reduce (\<lambda>a b. sha (node_in a b)) (map (\<lambda>x. sha (leaf_in x)) xs)
      = reduce (\<lambda>a b. sha (node_in a b)) (map (\<lambda>x. sha (leaf_in x)) ys)"
    and "xs \<noteq> []" "ys \<noteq> []"
    and "inj_on sha (leaf_inputs leaf_in node_in sha xs \<union> leaf_inputs leaf_in node_in sha ys)"
  shows "xs = ys"
proof -
  have "sha (top_input leaf_in node_in sha (tree_of xs)) = sha (top_input leaf_in node_in sha (tree_of ys))"
    using assms(1-3) by (simp add: eval_tree_of eval_top)
  then have "tree_of xs = tree_of ys"
    using assms(2-4) by (intro tree_inject [of sha]) (simp_all add: leaf_inputs_def)
  with assms(2,3) show ?thesis by (metis tips_tree_of)
qed

end

end
