(* ===== verification/Undo_Merkle.thy ===== *)
theory Undo_Merkle
  imports Hash_Tree
begin

text \<open>
  The data of the undo system (\<open>undo/types.rs\<close>) and the Merkle tree over a snapshot's files
  (\<open>undo/merkle.rs\<close>).  A \<open>HashMap<PathBuf, _>\<close> is an association list without two keys that are equal
  as paths; the order of the list stands for the unspecified iteration order of the map.
\<close>

section \<open>Snapshot data\<close>

record file_state =
  fst_hash :: content_hash
  fst_size :: u64
  fst_mtime :: int
  fst_permissions :: u32

datatype change_type = Created | Modified | Deleted | PermissionsChanged

definition change_type_display :: "change_type \<Rightarrow> string" where
  "change_type_display t =
     (case t of Created \<Rightarrow> ''+'' | Modified \<Rightarrow> ''~'' | Deleted \<Rightarrow> ''-'' | PermissionsChanged \<Rightarrow> ''p'')"

record change =
  ch_path :: path
  ch_change_type :: change_type
  ch_size_delta :: "int option"
  ch_old_hash :: "content_hash option"
  ch_new_hash :: "content_hash option"

type_synonym file_map = "(path \<times> file_state) list"

record snapshot_manifest =
  sm_number :: u32
  sm_timestamp :: string
  sm_parent :: "u32 option"
  sm_files :: file_map
  sm_symlinks :: "path list"
  sm_merkle_root :: content_hash

definition wf_files :: "file_map \<Rightarrow> bool" where
  "wf_files files \<longleftrightarrow> distinct (map (components \<circ> fst) files)"

definition files_get :: "file_map \<Rightarrow> path \<Rightarrow> file_state option" where
  "files_get files p = map_option snd (find (\<lambda>e. path_eq (fst e) p) files)"

lemma files_get_in:
  "wf_files files \<Longrightarrow> (p, s) \<in> set files \<Longrightarrow> files_get files p = Some s"
proof -
  assume "wf_files files" "(p, s) \<in> set files"
  then have "find (\<lambda>e. path_eq (fst e) p) files = Some (p, s)"
    unfolding wf_files_def by (induction files) (force simp: path_eq_def)+
  then show ?thesis by (simp add: files_get_def)
qed

section \<open>The order of paths\<close>

text \<open>
  \<open>Path::cmp\<close> compares component lists, components being ordered by their kind and names as byte
  strings; a component is represented by a byte for its kind followed by its name.
\<close>

definition comp_key :: "component \<Rightarrow> string" where
  "comp_key c =
     (case c of
        RootDir \<Rightarrow> [CHR 0x01]
      | CurDir \<Rightarrow> [CHR 0x02]
      | ParentDir \<Rightarrow> [CHR 0x03]
      | Normal s \<Rightarrow> CHR 0x04 # s)"

definition path_key :: "path \<Rightarrow> string list" where
  "path_key p = map comp_key (components p)"

lemma comp_key_inject [simp]: "comp_key a = comp_key b \<longleftrightarrow> a = b"
  by (cases a; cases b) (simp_all add: comp_key_def)

lemma path_key_inject: "path_key p = path_key q \<longleftrightarrow> path_eq p q"
  by (simp add: path_key_def path_eq_def inj_map_eq_map inj_on_def)

section \<open>Hashing\<close>

definition LEAF_PREFIX :: char where
  "LEAF_PREFIX = CHR 0x00"

definition INTERNAL_PREFIX :: char where
  "INTERNAL_PREFIX = CHR 0x01"

definition path_bytes :: "path \<Rightarrow> string" where
  "path_bytes p = p"

definition leaf_input :: "path \<times> content_hash \<Rightarrow> string" where
  "leaf_input e = [LEAF_PREFIX] @ path_bytes (fst e) @ raw32 (as_bytes (snd e))"

definition compute_leaf_hash :: "sha256 \<Rightarrow> path \<Rightarrow> content_hash \<Rightarrow> bytes32" where
  "compute_leaf_hash sha p h = sha (leaf_input (p, h))"

definition internal_input :: "bytes32 \<Rightarrow> bytes32 \<Rightarrow> string" where
  "internal_input left right = [INTERNAL_PREFIX] @ raw32 left @ raw32 right"

definition compute_internal_hash :: "sha256 \<Rightarrow> bytes32 \<Rightarrow> bytes32 \<Rightarrow> bytes32" where
  "compute_internal_hash sha left right = sha (internal_input left right)"

section \<open>Tree construction\<close>

record merkle_tree =
  mt_root :: content_hash
  mt_leaf_count :: nat

text \<open>The inner loop, over an index into the level, and the outer loop over the levels.\<close>

function next_level_loop :: "(bytes32 \<Rightarrow> bytes32 \<Rightarrow> bytes32) \<Rightarrow> bytes32 list \<Rightarrow> nat \<Rightarrow> bytes32 list \<Rightarrow> bytes32 list" where
  "next_level_loop f level i next_level =
     (if i < length level then
        if i + 1 < length level then
          next_level_loop f level (i + 2) (next_level @ [f (level ! i) (level ! (i + 1))])
        else next_level_loop f level (i + 1) (next_level @ [level ! i])
      else next_level)"
  by auto

termination
  by (relation "measure (\<lambda>(f, level, i, acc). length level - i)") auto

declare next_level_loop.simps [simp del]

lemma next_level_pair_up: "next_level_loop f level i acc = acc @ pair_up f (drop i level)"
proof (induction f level i acc rule: next_level_loop.induct)
  case (1 f level i acc)
  consider "length level \<le> i" | "Suc i = length level" | "Suc i < length level" by linarith
  then show ?case
  proof cases
    case 2
    then have "drop i level = [level ! i]" by (metis Cons_nth_drop_Suc drop_all lessI order_refl)
    with 1 2 show ?thesis by (simp add: next_level_loop.simps [of f level i])
  next
    case 3
    then have "drop i level = level ! i # level ! Suc i # drop (Suc (Suc i)) level"
      by (metis Cons_nth_drop_Suc Suc_lessD)
    with 1 3 show ?thesis by (simp add: next_level_loop.simps [of f level i])
  qed (simp add: next_level_loop.simps [of f level i])
qed

function levels_loop :: "(bytes32 \<Rightarrow> bytes32 \<Rightarrow> bytes32) \<Rightarrow> bytes32 list \<Rightarrow> bytes32 list" where
  "levels_loop f level =
     (if 1 < length level then levels_loop f (next_level_loop f level 0 []) else level)"
  by auto

termination
  by (relation "measure (length \<circ> snd)") (simp_all add: next_level_pair_up length_pair_up)

declare levels_loop.simps [simp del]

lemma levels_loop_reduce: "levels_loop f level = reduce f level"
  by (induction f level rule: levels_loop.induct)
     (simp add: levels_loop.simps reduce.simps next_level_pair_up)

definition manifest_leaves :: "file_map \<Rightarrow> (path \<times> content_hash) list" where
  "manifest_leaves files =
     map (\<lambda>p. (p, case files_get files p of Some s \<Rightarrow> fst_hash s | None \<Rightarrow> ContentHash (bytes32_of [])))
         (sort_key path_key (map fst files))"

definition from_manifest :: "sha256 \<Rightarrow> file_map \<Rightarrow> merkle_tree res" where
  "from_manifest sha files =
     (if files = [] then Inr \<lparr>mt_root = from_bytes (sha []), mt_leaf_count = 0\<rparr>
      else
        (let level = map (\<lambda>(p, h). compute_leaf_hash sha p h) (manifest_leaves files);
             leaf_count = length level;
             final = levels_loop (compute_internal_hash sha) level
         in case final of
              [] \<Rightarrow> Inl (Snapshot ''Merkle tree construction produced no root'')
            | root_bytes # _ \<Rightarrow> Inr \<lparr>mt_root = from_bytes root_bytes, mt_leaf_count = leaf_count\<rparr>))"

section \<open>What the root commits to\<close>

lemma fixed_tail_inject: "length b = length d \<Longrightarrow> a @ b = c @ d \<longleftrightarrow> a = c \<and> b = d"
  by simp

interpretation undo: leaf_encoding internal_input leaf_input
proof unfold_locales
  show "x = y" if "leaf_input x = leaf_input y" for x y
    using that by (simp add: leaf_input_def path_bytes_def raw32_inject prod_eq_iff content_hash.expand)
qed (auto simp: internal_input_def leaf_input_def raw32_inject INTERNAL_PREFIX_def LEAF_PREFIX_def)

lemma set_manifest_leaves:
  assumes "wf_files files"
  shows "set (manifest_leaves files) = (\<lambda>(p, s). (p, fst_hash s)) ` set files"
proof -
  have "set (manifest_leaves files) = (\<lambda>e. (fst e, case files_get files (fst e) of
      Some s \<Rightarrow> fst_hash s | None \<Rightarrow> ContentHash (bytes32_of []))) ` set files"
    by (simp add: manifest_leaves_def image_image)
  also have "\<dots> = (\<lambda>(p, s). (p, fst_hash s)) ` set files"
    by (rule image_cong) (auto simp: files_get_in [OF assms])
  finally show ?thesis .
qed

lemma manifest_leaves_Nil [simp]: "manifest_leaves files = [] \<longleftrightarrow> files = []"
  by (simp add: manifest_leaves_def flip: length_0_conv)

lemma from_manifest_root:
  "files \<noteq> [] \<Longrightarrow>
   from_manifest sha files =
     Inr \<lparr>mt_root = from_bytes (sha (top_input leaf_input internal_input sha (tree_of (manifest_leaves files)))),
          mt_leaf_count = length files\<rparr>"
  using eval_tree_of [of "manifest_leaves files" "compute_internal_hash sha" "\<lambda>(p, h). compute_leaf_hash sha p h"]
    eval_top [of sha leaf_input internal_input "tree_of (manifest_leaves files)"]
  by (simp add: from_manifest_def levels_loop_reduce compute_internal_hash_def [abs_def]
      compute_leaf_hash_def [abs_def] case_prod_unfold) (simp add: manifest_leaves_def)

text \<open>The byte strings hashed while a manifest's tree is built.\<close>

definition hashed_inputs :: "sha256 \<Rightarrow> file_map \<Rightarrow> string set" where
  "hashed_inputs sha files = (if files = [] then {[]} else leaf_inputs leaf_input internal_input sha (manifest_leaves files))"

lemma top_input_ne [simp]: "top_input leaf_input internal_input sha t \<noteq> []" "[] \<noteq> top_input leaf_input internal_input sha t"
  by (cases t; simp add: leaf_input_def internal_input_def)+

lemma top_in_hashed: "files \<noteq> [] \<Longrightarrow> top_input leaf_input internal_input sha (tree_of (manifest_leaves files)) \<in> hashed_inputs sha files"
  by (simp add: hashed_inputs_def leaf_inputs_def top_in_inputs)

text \<open>
  C16. The Merkle root commits to the whole snapshot: if two file maps have the same root, then either
  they hold the same paths with the same content hashes, or two of the byte strings hashed while the
  trees were built collide under SHA-256.  The number of files need not be known to be the same, since
  leaves and inner nodes are hashed under different prefixes.
\<close>

theorem merkle_root_commits:
  assumes "wf_files f" "wf_files g"
    and "from_manifest sha f = Inr t" "from_manifest sha g = Inr u" "mt_root t = mt_root u"
    and "inj_on sha (hashed_inputs sha f \<union> hashed_inputs sha g)"
  shows "(\<lambda>(p, s). (p, fst_hash s)) ` set f = (\<lambda>(p, s). (p, fst_hash s)) ` set g"
proof -
  define input where "input files = (if files = [] then [] else top_input leaf_input internal_input sha (tree_of (manifest_leaves files)))" for files
  have r: "mt_root v = from_bytes (sha (input files))" if "from_manifest sha files = Inr v" for files v
    using that from_manifest_root [of files sha] by (cases "files = []") (auto simp: input_def from_manifest_def)
  have "input files \<in> hashed_inputs sha files" for files
    using top_in_hashed [of files sha] by (simp add: input_def hashed_inputs_def)
  moreover have "sha (input f) = sha (input g)" using assms(5) r [OF assms(3)] r [OF assms(4)] by simp
  ultimately have i: "input f = input g" by (intro inj_onD [OF assms(6)]) auto
  show ?thesis
  proof (cases "f = [] \<or> g = []")
    case True
    with i show ?thesis by (auto simp: input_def split: if_splits)
  next
    case False
    then have "tree_of (manifest_leaves f) = tree_of (manifest_leaves g)"
      using i assms(6) by (intro undo.tree_inject [of sha]) (simp_all add: input_def hashed_inputs_def leaf_inputs_def)
    with False have "manifest_leaves f = manifest_leaves g" by (metis manifest_leaves_Nil tips_tree_of)
    with assms(1,2) show ?thesis by (metis set_manifest_leaves)
  qed
qed
definition demo_sha :: sha256 where
  "demo_sha s = bytes32_of (rev s)"

definition demo_files :: file_map where
  "demo_files =
     [(''/w/a'', \<lparr>fst_hash = ContentHash (bytes32_of ''one''), fst_size = 1, fst_mtime = 0, fst_permissions = 420\<rparr>),
      (''/w/b'', \<lparr>fst_hash = ContentHash (bytes32_of ''two''), fst_size = 2, fst_mtime = 0, fst_permissions = 384\<rparr>)]"

theorem merkle_root_commits_witness:
  "demo_files \<noteq> rev demo_files
   \<and> (\<lambda>(p, s). (p, fst_hash s)) ` set demo_files = (\<lambda>(p, s). (p, fst_hash s)) ` set (rev demo_files)"
proof -
  have w: "wf_files demo_files" "wf_files (rev demo_files)" by code_simp+
  have n: "demo_files \<noteq> []" "rev demo_files \<noteq> []" "demo_files \<noteq> rev demo_files" by code_simp+
  have m: "manifest_leaves demo_files = manifest_leaves (rev demo_files)" by code_simp
  have h: "inj_on demo_sha (hashed_inputs demo_sha demo_files \<union> hashed_inputs demo_sha (rev demo_files))"
    unfolding inj_on_def by code_simp
  show ?thesis
    using merkle_root_commits [OF w from_manifest_root [OF n(1)] from_manifest_root [OF n(2)] _ h] m n(3) by simp
qed

end
