(* ===== verification/Audit_Types.thy ===== *)
theory Audit_Types
  imports Capability Scrub Undo_Merkle
begin

text \<open>
  The data that audit records carry: approval requests and decisions (\<open>supervisor/types.rs\<close>), network and
  command-policy events (\<open>undo/types.rs\<close>, \<open>audit.rs\<close>), and the metadata of a session.  A \<open>SystemTime\<close> is
  a number of nanoseconds since the epoch; an \<open>i32\<close> exit code is an integer.
\<close>

type_synonym system_time = int
type_synonym i32 = int

section \<open>Approval requests and decisions\<close>

record capability_request =
  cr_request_id :: string
  cr_path :: path
  cr_access :: access_mode
  cr_reason :: "string option"
  cr_child_pid :: u32
  cr_session_id :: string

datatype approval_request =
    CapabilityReq (req_id: string) path access_mode "string option" u32 (req_session: string)
  | NetworkReq (req_id: string) string u16 string "string list" "string option" u32 (req_session: string)
  | EndpointReq (req_id: string) string string string string string "string option" u32 (req_session: string)
  | CommandReq (req_id: string) string "string list" string string "string option" u32 (req_session: string)
  | UnixSocketReq (req_id: string) path unix_socket_op "string option" u32 (req_session: string)

definition request_id :: "approval_request \<Rightarrow> string" where
  "request_id r =
     (case r of
        CapabilityReq i _ _ _ _ _ \<Rightarrow> i
      | NetworkReq i _ _ _ _ _ _ _ \<Rightarrow> i
      | EndpointReq i _ _ _ _ _ _ _ _ \<Rightarrow> i
      | CommandReq i _ _ _ _ _ _ _ \<Rightarrow> i
      | UnixSocketReq i _ _ _ _ _ \<Rightarrow> i)"

definition session_id :: "approval_request \<Rightarrow> string" where
  "session_id r =
     (case r of
        CapabilityReq _ _ _ _ _ s \<Rightarrow> s
      | NetworkReq _ _ _ _ _ _ _ s \<Rightarrow> s
      | EndpointReq _ _ _ _ _ _ _ _ s \<Rightarrow> s
      | CommandReq _ _ _ _ _ _ _ s \<Rightarrow> s
      | UnixSocketReq _ _ _ _ _ s \<Rightarrow> s)"

definition from_capability_request :: "capability_request \<Rightarrow> approval_request" where
  "from_capability_request r =
     CapabilityReq (cr_request_id r) (cr_path r) (cr_access r) (cr_reason r) (cr_child_pid r) (cr_session_id r)"

datatype approval_decision =
    Granted
  | GrantedForSession
  | Denied string
  | DeniedForSession
  | Timeout

definition is_granted :: "approval_decision \<Rightarrow> bool" where
  "is_granted d = (case d of Granted \<Rightarrow> True | GrantedForSession \<Rightarrow> True | _ \<Rightarrow> False)"

definition is_denied :: "approval_decision \<Rightarrow> bool" where
  "is_denied d = (case d of Denied _ \<Rightarrow> True | DeniedForSession \<Rightarrow> True | _ \<Rightarrow> False)"

definition without_session_scope :: "approval_decision \<Rightarrow> approval_decision" where
  "without_session_scope d =
     (case d of
        GrantedForSession \<Rightarrow> Granted
      | DeniedForSession \<Rightarrow> Denied ''denied for this session''
      | other \<Rightarrow> other)"

lemma without_session_scope_decision:
  "is_granted (without_session_scope d) = is_granted d"
  "is_denied (without_session_scope d) = is_denied d"
  "without_session_scope (without_session_scope d) = without_session_scope d"
  "without_session_scope d \<notin> {GrantedForSession, DeniedForSession}"
  by (cases d; simp add: without_session_scope_def is_granted_def is_denied_def)+

record audit_entry =
  ae_timestamp :: system_time
  ae_request :: approval_request
  ae_decision :: approval_decision
  ae_backend :: string
  ae_duration_ms :: u64

record url_open_request =
  uo_request_id :: string
  uo_url :: string
  uo_child_pid :: u32
  uo_session_id :: string

datatype supervisor_message = Request capability_request | OpenUrl url_open_request

datatype supervisor_response =
    Decision string approval_decision
  | UrlOpened string bool "string option"

section \<open>Network events\<close>

datatype network_audit_mode = ModeConnect | ModeConnectIntercept | ModeReverse | ModeExternal

datatype network_audit_decision =
    NetAllow | NetDeny | ApproveRequested | ApproveGranted | ApproveDenied | ApproveTimeout | ApproveError

datatype network_audit_auth_mechanism =
    ProxyAuthorization | PhantomHeader | PhantomPath | PhantomQuery | SpiffeJwtBearer | SpiffeOAuthAssertion

datatype network_audit_auth_outcome = Succeeded | Failed

datatype network_audit_injection_mode = Header | UrlPath | QueryParam | BasicAuth | OAuth2 | SpiffeJwt

record spiffe_delegation_context =
  sdc_authorized_by :: string
  sdc_on_behalf_of :: "string option"
  sdc_chain_depth :: u32

record spiffe_audit_context =
  sac_workload_spiffe_id :: string
  sac_trust_domain :: string
  sac_svid_type :: string
  sac_source :: string
  sac_upstream_spiffe_id :: "string option"
  sac_delegation :: "spiffe_delegation_context option"

datatype network_audit_denial_category =
    AuthenticationFailed | EndpointPolicy | ManagedCredentialUnavailable | HostDenied
  | InterceptHandshakeFailed | UpstreamConnectFailed | ConnectBypassesL7 | ExternalProxyRejected
  | UnsupportedUpgrade

record network_audit_event =
  na_timestamp_unix_ms :: u64
  na_mode :: network_audit_mode
  na_decision :: network_audit_decision
  na_route_id :: "string option"
  na_auth_mechanism :: "network_audit_auth_mechanism option"
  na_auth_outcome :: "network_audit_auth_outcome option"
  na_managed_credential_active :: "bool option"
  na_injection_mode :: "network_audit_injection_mode option"
  na_denial_category :: "network_audit_denial_category option"
  na_endpoint_policy_action :: "string option"
  na_endpoint_policy_rule :: "string option"
  na_approval_backend :: "string option"
  na_credential_capture_action :: "string option"
  na_credential_capture_name :: "string option"
  na_credential_capture_command :: "string option"
  na_credential_capture_argv :: "string list option"
  na_credential_capture_exit_status :: "i32 option"
  na_credential_capture_duration_ms :: "u64 option"
  na_credential_capture_stdout_bytes :: "u64 option"
  na_credential_capture_stderr :: "string option"
  na_credential_capture_cache_scope :: "string option"
  na_credential_capture_output_format :: "string option"
  na_credential_capture_header_names :: "string list option"
  na_credential_capture_stdin_mode :: "string option"
  na_credential_capture_interactive :: "bool option"
  na_spiffe_context :: "spiffe_audit_context option"
  na_target :: string
  na_upstream :: "string option"
  na_port :: "u16 option"
  na_method :: "string option"
  na_path :: "string option"
  na_status :: "u16 option"
  na_reason :: "string option"

section \<open>Command policy events\<close>

record command_policy_env_audit_entry =
  ce_name :: string
  ce_value_display :: string

record command_policy_stdio_stream_audit =
  ss_total_bytes :: u64
  ss_forwarded_bytes :: u64
  ss_max_bytes :: "u64 option"
  ss_limit_exceeded :: bool
  ss_on_limit :: "string option"

record command_policy_stdio_audit =
  cs_stdout :: "command_policy_stdio_stream_audit option"
  cs_stderr :: "command_policy_stdio_stream_audit option"

record command_policy_audit_event =
  cp_timestamp :: string
  cp_session_id :: "string option"
  cp_command :: string
  cp_caller :: string
  cp_caller_kind :: "string option"
  cp_caller_command :: "string option"
  cp_caller_pid :: "u32 option"
  cp_shim_pid :: "u32 option"
  cp_session_root_pid :: "u32 option"
  cp_decision :: string
  cp_reason :: "string option"
  cp_stdio_mode :: string
  cp_argv_hash :: string
  cp_env_name_hash :: string
  cp_cwd_hash :: string
  cp_argv_display :: "string list"
  cp_env_names_display :: "string list"
  cp_env_display :: "command_policy_env_audit_entry list"
  cp_cwd_display :: string
  cp_exit_code :: "i32 option"
  cp_stdio :: "command_policy_stdio_audit option"

record sandbox_runtime_audit_event =
  sr_timestamp :: string
  sr_platform :: string
  sr_landlock_abi :: "string option"
  sr_landlock_execute_enforced :: "bool option"
  sr_tool_sandbox_active :: bool

section \<open>Audit events\<close>

datatype audit_event_payload =
    SessionStarted string "string list" "scrub_policy_diff option"
  | SessionEnded string i32
  | CapabilityDecision audit_entry
  | UrlOpen url_open_request bool "string option"
  | Network network_audit_event
  | SandboxRuntime sandbox_runtime_audit_event
  | CommandPolicy command_policy_audit_event

record audit_integrity_summary =
  is_hash_algorithm :: string
  is_event_count :: u64
  is_chain_head :: content_hash
  is_merkle_root :: content_hash

definition COMMAND_POLICY_SUMMARY_MAX_COMMANDS :: nat where
  "COMMAND_POLICY_SUMMARY_MAX_COMMANDS = 256"

datatype command_policy_outcome = OutcomeAllowed | OutcomeDenied | OutcomePending | OutcomeOther

record command_policy_command_summary =
  cc_command :: string
  cc_allowed :: u64
  cc_denied :: u64
  cc_other :: u64

record command_policy_summary =
  ps_mediation_active :: bool
  ps_event_count :: u64
  ps_invocation_count :: u64
  ps_commands :: "command_policy_command_summary list"
  ps_truncated :: bool

record audit_attestation_summary =
  as_predicate_type :: string
  as_key_id :: string
  as_public_key :: string
  as_bundle_filename :: string

record executable_identity =
  ei_resolved_path :: path
  ei_sha256 :: content_hash

record session_metadata =
  md_session_id :: string
  md_started :: string
  md_ended :: "string option"
  md_command :: "string list"
  md_executable_identity :: "executable_identity option"
  md_tracked_paths :: "path list"
  md_snapshot_count :: u32
  md_exit_code :: "i32 option"
  md_merkle_roots :: "content_hash list"
  md_network_events :: "network_audit_event list"
  md_audit_event_count :: u64
  md_audit_integrity :: "audit_integrity_summary option"
  md_audit_attestation :: "audit_attestation_summary option"
  md_command_policy_summary :: "command_policy_summary option"

end
