(* ===== verification/Audit_Merkle.thy ===== *)
theory Audit_Merkle
  imports Hash_Tree
begin

text \<open>
  The hashing primitives of \<open>audit.rs\<close>: event leaves, the rolling chain, the Merkle root over the
  leaves of a log, and inclusion proofs, with the 64-bit arithmetic of their index loops.
\<close>

type_synonym usize = u64

section \<open>Domain separators\<close>

definition EVENT_DOMAIN_ALPHA :: string where
  "EVENT_DOMAIN_ALPHA = ''nono.audit.event.alpha'' @ [newline]"

definition CHAIN_DOMAIN_ALPHA :: string where
  "CHAIN_DOMAIN_ALPHA = ''nono.audit.chain.alpha'' @ [newline]"

definition MERKLE_NODE_DOMAIN_ALPHA :: string where
  "MERKLE_NODE_DOMAIN_ALPHA = ''nono.audit.merkle.alpha'' @ [newline]"

section \<open>Hashes\<close>

definition event_input :: "string \<Rightarrow> string" where
  "event_input event_bytes = EVENT_DOMAIN_ALPHA @ event_bytes"

definition hash_event :: "sha256 \<Rightarrow> string \<Rightarrow> content_hash" where
  "hash_event sha event_bytes = from_bytes (sha (event_input event_bytes))"

definition chain_input :: "content_hash option \<Rightarrow> content_hash \<Rightarrow> string" where
  "chain_input previous leaf_hash =
     CHAIN_DOMAIN_ALPHA
     @ (case previous of Some prev \<Rightarrow> raw32 (as_bytes prev) | None \<Rightarrow> replicate 32 (CHR 0x00))
     @ raw32 (as_bytes leaf_hash)"

definition hash_chain :: "sha256 \<Rightarrow> content_hash option \<Rightarrow> content_hash \<Rightarrow> content_hash" where
  "hash_chain sha previous leaf_hash = from_bytes (sha (chain_input previous leaf_hash))"

definition merkle_node_input :: "bytes32 \<Rightarrow> bytes32 \<Rightarrow> string" where
  "merkle_node_input left right = MERKLE_NODE_DOMAIN_ALPHA @ raw32 left @ raw32 right"

definition hash_merkle_node :: "sha256 \<Rightarrow> bytes32 \<Rightarrow> bytes32 \<Rightarrow> bytes32" where
  "hash_merkle_node sha left right = sha (merkle_node_input left right)"

section \<open>Merkle root\<close>

definition merkle_next :: "sha256 \<Rightarrow> bytes32 list \<Rightarrow> bytes32 list" where
  "merkle_next sha level =
     map (\<lambda>pair. if length pair = 1 then pair ! 0 else hash_merkle_node sha (pair ! 0) (pair ! 1))
         (chunks 2 level)"

lemma chunks_2:
  "chunks 2 [] = []" "chunks 2 [a] = [[a]]" "chunks 2 (a # b # xs) = [a, b] # chunks 2 xs"
  by (simp_all add: chunks.simps)

lemma merkle_next_pair_up: "merkle_next sha level = pair_up (hash_merkle_node sha) level"
  unfolding merkle_next_def by (induction level rule: induct_list012) (simp_all add: chunks_2)

function merkle_loop :: "sha256 \<Rightarrow> bytes32 list \<Rightarrow> bytes32 list" where
  "merkle_loop sha level = (if 1 < length level then merkle_loop sha (merkle_next sha level) else level)"
  by auto

termination
  by (relation "measure (length \<circ> snd)") (simp_all add: merkle_next_pair_up length_pair_up)

declare merkle_loop.simps [simp del]

definition merkle_root :: "sha256 \<Rightarrow> content_hash list \<Rightarrow> content_hash" where
  "merkle_root sha leaves =
     (if leaves = [] then from_bytes (sha [])
      else from_bytes (merkle_loop sha (map as_bytes leaves) ! 0))"

section \<open>Inclusion proofs\<close>

datatype audit_proof_direction = LeftSide | RightSide

record audit_proof_node =
  pn_direction :: audit_proof_direction
  pn_hash :: content_hash

record audit_inclusion_proof =
  ip_leaf_index :: u64
  ip_leaf_count :: u64
  ip_leaf_hash :: content_hash
  ip_merkle_root :: content_hash
  ip_siblings :: "audit_proof_node list"

definition sat_sub :: "'a::len word \<Rightarrow> 'a word \<Rightarrow> 'a word" where
  "sat_sub a b = (if b \<le> a then a - b else 0)"

definition list_get :: "'a list \<Rightarrow> usize \<Rightarrow> 'a option" where
  "list_get xs i = (if unat i < length xs then Some (xs ! unat i) else None)"

definition sibling_step :: "bytes32 list \<Rightarrow> usize \<Rightarrow> audit_proof_node list" where
  "sibling_step level index =
     (let sibling_index = if index mod 2 = 0 then sat_add index 1 else sat_sub index 1
      in case list_get level sibling_index of
           None \<Rightarrow> []
         | Some sibling \<Rightarrow>
             [\<lparr>pn_direction = (if sibling_index < index then LeftSide else RightSide),
               pn_hash = from_bytes sibling\<rparr>])"

function build_loop :: "sha256 \<Rightarrow> bytes32 list \<Rightarrow> usize \<Rightarrow> audit_proof_node list \<Rightarrow> bytes32 list \<times> audit_proof_node list" where
  "build_loop sha level index siblings =
     (if 1 < length level then
        build_loop sha (merkle_next sha level) (index div 2) (siblings @ sibling_step level index)
      else (level, siblings))"
  by auto

termination
  by (relation "measure (\<lambda>(sha, level, index, siblings). length level)")
     (simp_all add: merkle_next_pair_up length_pair_up)

declare build_loop.simps [simp del]

definition build_inclusion_proof :: "sha256 \<Rightarrow> content_hash list \<Rightarrow> usize \<Rightarrow> audit_inclusion_proof res" where
  "build_inclusion_proof sha leaves leaf_index =
     (if leaves = [] then Inl (Snapshot ''Cannot build an audit inclusion proof for an empty log'')
      else if length leaves \<le> unat leaf_index then
        Inl (Snapshot (''Audit inclusion proof leaf index '' @ show_nat (unat leaf_index)
              @ '' is out of range for '' @ show_nat (length leaves) @ '' leaves''))
      else
        (let (level, siblings) = build_loop sha (map as_bytes leaves) leaf_index []
         in Inr \<lparr>ip_leaf_index = leaf_index,
                 ip_leaf_count = of_nat (length leaves),
                 ip_leaf_hash = leaves ! unat leaf_index,
                 ip_merkle_root = from_bytes (level ! 0),
                 ip_siblings = siblings\<rparr>))"

definition div_ceil2 :: "'a::len word \<Rightarrow> 'a word" where
  "div_ceil2 w = (if w mod 2 \<noteq> 0 then w div 2 + 1 else w div 2)"

definition expected_direction :: "u64 \<Rightarrow> u64 \<Rightarrow> audit_proof_direction option" where
  "expected_direction index width =
     (if index mod 2 = 0 then (if sat_add index 1 < width then Some RightSide else None)
      else Some LeftSide)"

definition node_for :: "audit_proof_direction \<Rightarrow> bytes32 \<Rightarrow> bytes32 \<Rightarrow> bytes32 \<times> bytes32" where
  "node_for d sibling computed = (case d of LeftSide \<Rightarrow> (sibling, computed) | RightSide \<Rightarrow> (computed, sibling))"

lemma unat_2_u64 [simp]: "unat (2 :: u64) = 2"
  by simp

lemma unat_half: "unat (w div 2) = unat w div 2" for w :: u64
  by (simp add: unat_div)

lemma mod_2_0: "w mod 2 = 0 \<longleftrightarrow> even (unat w)" for w :: u64
  by (simp add: word_unat_eq_iff unat_mod even_iff_mod_2_eq_zero)

lemma unat_div_ceil2: "unat (div_ceil2 w) = (unat w + 1) div 2" for w :: u64
proof (cases "w mod 2 = 0")
  case True
  then show ?thesis by (simp add: div_ceil2_def unat_half mod_2_0)
next
  case False
  have "unat w div 2 < 2 ^ 63" using unsigned_less [of w, where 'a = nat] by simp
  then have "unat (w div 2 + 1) = unat w div 2 + 1" by (simp add: unat_word_ariths unat_half)
  with False show ?thesis by (simp add: div_ceil2_def mod_2_0)
qed

lemma div_ceil2_less: "1 < w \<Longrightarrow> unat (div_ceil2 w) < unat w" for w :: u64
  by (simp add: unat_div_ceil2 word_less_nat_alt)

function verify_loop :: "sha256 \<Rightarrow> bytes32 \<Rightarrow> u64 \<Rightarrow> u64 \<Rightarrow> audit_proof_node list
    \<Rightarrow> (bytes32 \<times> audit_proof_node list) option" where
  "verify_loop sha computed index width siblings =
     (if 1 < width then
        (case expected_direction index width of
           None \<Rightarrow> verify_loop sha computed (index div 2) (div_ceil2 width) siblings
         | Some direction \<Rightarrow>
             (case siblings of
                [] \<Rightarrow> None
              | node # rest \<Rightarrow>
                  if pn_direction node \<noteq> direction then None
                  else
                    (let (l, r) = node_for (pn_direction node) (as_bytes (pn_hash node)) computed
                     in verify_loop sha (hash_merkle_node sha l r) (index div 2) (div_ceil2 width) rest)))
      else Some (computed, siblings))"
  by auto

termination
  by (relation "measure (\<lambda>(sha, computed, index, width, siblings). unat width)")
     (simp_all add: div_ceil2_less)

declare verify_loop.simps [simp del]

definition verify_inclusion_proof :: "sha256 \<Rightarrow> audit_inclusion_proof \<Rightarrow> bool" where
  "verify_inclusion_proof sha p =
     (if ip_leaf_count p = 0 \<or> ip_leaf_count p \<le> ip_leaf_index p then False
      else (case verify_loop sha (as_bytes (ip_leaf_hash p)) (ip_leaf_index p) (ip_leaf_count p) (ip_siblings p) of
              None \<Rightarrow> False
            | Some (computed, rest) \<Rightarrow>
                if rest \<noteq> [] then False else computed = as_bytes (ip_merkle_root p)))"

section \<open>Completeness: a built proof verifies\<close>

lemma merkle_loop_reduce: "merkle_loop sha level = reduce (hash_merkle_node sha) level"
  by (induction sha level rule: merkle_loop.induct)
     (simp add: merkle_loop.simps reduce.simps merkle_next_pair_up)

lemma unat_succ: "unat i < unat w \<Longrightarrow> unat (sat_add i 1) = Suc (unat i)" for i w :: u64
  using unsigned_less [of w, where 'a = nat] by (simp add: unat_sat_add)

lemma expected_direction_cases:
  assumes "unat index < unat width"
  shows "expected_direction index width =
     (if odd (unat index) then Some LeftSide
      else if Suc (unat index) < unat width then Some RightSide else None)"
  using unat_succ [OF assms] by (auto simp: expected_direction_def mod_2_0 word_less_nat_alt)

lemma unat_pred: "odd (unat i) \<Longrightarrow> unat (sat_sub i 1) = unat i - 1" for i :: u64
proof -
  assume "odd (unat i)"
  then have "0 < unat i" by (rule odd_pos)
  then have "1 \<le> i" by (simp add: word_le_nat_alt)
  then show ?thesis by (simp add: sat_sub_def unat_sub)
qed

lemma sibling_step_cases:
  assumes "unat index < length level" "length level < 2 ^ 64"
  shows "sibling_step level index =
     (if odd (unat index) then [\<lparr>pn_direction = LeftSide, pn_hash = from_bytes (level ! (unat index - 1))\<rparr>]
      else if Suc (unat index) < length level then
        [\<lparr>pn_direction = RightSide, pn_hash = from_bytes (level ! Suc (unat index))\<rparr>]
      else [])"
proof -
  have s: "unat (sat_add index 1) = Suc (unat index)"
    using unat_succ [of index "of_nat (length level)"] assms by (simp add: unat_of_nat_u64)
  show ?thesis
  proof (cases "odd (unat index)")
    case True
    with assms(1) unat_pred [OF True] odd_pos [OF True] show ?thesis
      by (simp add: sibling_step_def mod_2_0 list_get_def word_less_nat_alt Let_def)
  next
    case False
    with s show ?thesis by (simp add: sibling_step_def mod_2_0 list_get_def word_less_nat_alt Let_def)
  qed
qed

lemma build_loop_acc:
  "build_loop sha level index acc =
     (merkle_loop sha level, acc @ snd (build_loop sha level index []))"
proof (induction "length level" arbitrary: level index acc rule: less_induct)
  case less
  show ?case
  proof (cases "1 < length level")
    case True
    then have l: "length (merkle_next sha level) < length level"
      by (simp add: merkle_next_pair_up pair_up_shorter)
    show ?thesis
      using True less [OF l, of "index div 2" "acc @ sibling_step level index"]
        less [OF l, of "index div 2" "sibling_step level index"]
      by (simp add: build_loop.simps [of sha level] merkle_loop.simps [of sha level])
  qed (simp add: build_loop.simps merkle_loop.simps)
qed

lemma fst_build_loop: "fst (build_loop sha level index acc) = merkle_loop sha level"
  by (subst build_loop_acc) simp

lemma build_loop_Cons:
  "1 < length level \<Longrightarrow>
   snd (build_loop sha level index []) =
     sibling_step level index @ snd (build_loop sha (merkle_next sha level) (index div 2) [])"
  by (subst build_loop.simps) (simp add: build_loop_acc [of sha "merkle_next sha level" _ "sibling_step level index"])

lemma div_ceil2_length:
  "length level < 2 ^ 64 \<Longrightarrow> div_ceil2 (of_nat (length level)) = (of_nat (length (merkle_next sha level)) :: u64)"
  by (simp add: word_unat_eq_iff unat_div_ceil2 unat_of_nat_u64 merkle_next_pair_up length_pair_up)

lemma verify_build:
  assumes "unat index < length level" "length level < 2 ^ 64"
  shows "verify_loop sha (level ! unat index) index (of_nat (length level))
      (snd (build_loop sha level index []) @ rest) = Some (hd (merkle_loop sha level), rest)"
  using assms
proof (induction "length level" arbitrary: level index rule: less_induct)
  case less
  let ?w = "of_nat (length level) :: u64" and ?next = "merkle_next sha level"
  have w: "unat ?w = length level" using less.prems by (simp add: unat_of_nat_u64)
  show ?case
  proof (cases "1 < length level")
    case False
    with less.prems have "unat index = 0" "length level = 1" by linarith+
    then show ?thesis
      using False by (cases level) (simp_all add: verify_loop.simps build_loop.simps merkle_loop.simps)
  next
    case True
    then have w1: "1 < ?w" using w by (simp add: word_less_nat_alt)
    have l: "length ?next < length level" using True by (simp add: merkle_next_pair_up pair_up_shorter)
    have i: "unat (index div 2) < length ?next"
      using less.prems by (simp add: unat_half merkle_next_pair_up length_pair_up)
    note IH = less.hyps [OF l i] and step = sibling_step_cases [OF less.prems]
    have nth: "?next ! unat (index div 2) =
        (if even (unat index) then
           (if Suc (unat index) < length level
            then hash_merkle_node sha (level ! unat index) (level ! Suc (unat index)) else level ! unat index)
         else hash_merkle_node sha (level ! (unat index - 1)) (level ! unat index))"
      using pair_up_nth [OF less.prems(1), of "hash_merkle_node sha"] by (simp add: merkle_next_pair_up unat_half)
    have ed: "expected_direction index ?w =
        (if odd (unat index) then Some LeftSide
         else if Suc (unat index) < length level then Some RightSide else None)"
      using expected_direction_cases [of index ?w] less.prems w by simp
    have "verify_loop sha (?next ! unat (index div 2)) (index div 2) (div_ceil2 ?w)
        (snd (build_loop sha ?next (index div 2) []) @ rest) = Some (hd (merkle_loop sha level), rest)"
      using IH l less.prems True by (simp add: div_ceil2_length [of _ sha] merkle_loop.simps [of sha level])
    with True w1 ed step nth show ?thesis
      by (subst verify_loop.simps) (auto simp: build_loop_Cons node_for_def)
  qed
qed

text \<open>
  C14. Inclusion proofs are complete: for every log of fewer than $2^{64}$ leaves and every index the
  builder either reports that the index is out of range, exactly when it is, or returns a proof that
  verifies, names the leaf at that index and the number of leaves, and whose root is the Merkle root.
\<close>

theorem inclusion_proof_complete:
  assumes "length leaves < 2 ^ 64"
  shows "case build_inclusion_proof sha leaves i of
      Inl e \<Rightarrow> length leaves \<le> unat i
    | Inr p \<Rightarrow> unat i < length leaves
        \<and> verify_inclusion_proof sha p
        \<and> ip_leaf_index p = i \<and> unat (ip_leaf_count p) = length leaves
        \<and> ip_leaf_hash p = leaves ! unat i
        \<and> ip_merkle_root p = merkle_root sha leaves"
proof (cases "unat i < length leaves")
  case False
  then show ?thesis by (simp add: build_inclusion_proof_def)
next
  case True
  let ?level = "map as_bytes leaves" and ?n = "of_nat (length leaves) :: u64"
  have n: "unat ?n = length leaves" using assms by (simp add: unat_of_nat_u64)
  then have ne: "?n \<noteq> 0" "\<not> ?n \<le> i" "leaves \<noteq> []" using True by (auto simp: word_le_nat_alt)
  have "merkle_loop sha ?level \<noteq> []"
    using length_reduce [of ?level "hash_merkle_node sha"] ne by (auto simp: merkle_loop_reduce)
  then have h: "hd (merkle_loop sha ?level) = merkle_loop sha ?level ! 0" by (rule hd_conv_nth)
  have "verify_loop sha (as_bytes (leaves ! unat i)) i ?n (snd (build_loop sha ?level i []))
      = Some (hd (merkle_loop sha ?level), [])"
    using verify_build [of i ?level sha "[]"] True assms by simp
  moreover have "build_inclusion_proof sha leaves i =
      Inr \<lparr>ip_leaf_index = i, ip_leaf_count = ?n, ip_leaf_hash = leaves ! unat i,
           ip_merkle_root = merkle_root sha leaves, ip_siblings = snd (build_loop sha ?level i [])\<rparr>"
    using True ne by (simp add: build_inclusion_proof_def merkle_root_def case_prod_unfold Let_def fst_build_loop)
  ultimately show ?thesis
    using True ne n h by (simp add: verify_inclusion_proof_def merkle_root_def)
qed

definition demo_hash :: sha256 where
  "demo_hash s = bytes32_of (rev s)"

definition demo_leaves :: "content_hash list" where
  "demo_leaves = map (\<lambda>s. ContentHash (bytes32_of s)) [''a'', ''b'', ''c'']"

lemma demo_leaves_simps: "length demo_leaves = 3" "demo_leaves ! 2 = ContentHash (bytes32_of ''c'')"
  by (simp_all add: demo_leaves_def)

theorem inclusion_proof_complete_witness:
  "\<exists>p. build_inclusion_proof demo_hash demo_leaves 2 = Inr p
     \<and> verify_inclusion_proof demo_hash p
     \<and> ip_leaf_hash p = ContentHash (bytes32_of ''c'')"
  using inclusion_proof_complete [of demo_leaves 2 demo_hash]
  by (simp add: demo_leaves_simps split: sum.splits)

section \<open>Soundness: a verified proof names a leaf of the log\<close>

text \<open>The byte strings hashed while the levels of a log are computed, and while a proof is verified.\<close>

definition pair_inputs :: "bytes32 list \<Rightarrow> string list" where
  "pair_inputs level =
     map (\<lambda>pair. merkle_node_input (pair ! 0) (pair ! 1)) (filter (\<lambda>pair. length pair = 2) (chunks 2 level))"

function level_inputs :: "sha256 \<Rightarrow> bytes32 list \<Rightarrow> string set" where
  "level_inputs sha level =
     (if 1 < length level then set (pair_inputs level) \<union> level_inputs sha (merkle_next sha level) else {})"
  by auto

termination
  by (relation "measure (length \<circ> snd)") (simp_all add: merkle_next_pair_up length_pair_up)

function verify_inputs :: "sha256 \<Rightarrow> bytes32 \<Rightarrow> u64 \<Rightarrow> u64 \<Rightarrow> audit_proof_node list \<Rightarrow> string set" where
  "verify_inputs sha computed index width siblings =
     (if 1 < width then
        (case expected_direction index width of
           None \<Rightarrow> verify_inputs sha computed (index div 2) (div_ceil2 width) siblings
         | Some direction \<Rightarrow>
             (case siblings of
                [] \<Rightarrow> {}
              | node # rest \<Rightarrow>
                  (let (l, r) = node_for direction (as_bytes (pn_hash node)) computed
                   in insert (merkle_node_input l r)
                        (verify_inputs sha (hash_merkle_node sha l r) (index div 2) (div_ceil2 width) rest))))
      else {})"
  by auto

termination
  by (relation "measure (\<lambda>(sha, computed, index, width, siblings). unat width)")
     (simp_all add: div_ceil2_less)

declare level_inputs.simps [simp del] verify_inputs.simps [simp del]

definition proof_inputs :: "sha256 \<Rightarrow> audit_inclusion_proof \<Rightarrow> string set" where
  "proof_inputs sha p =
     verify_inputs sha (as_bytes (ip_leaf_hash p)) (ip_leaf_index p) (ip_leaf_count p) (ip_siblings p)"

interpretation audit: node_encoding merkle_node_input
  by unfold_locales (simp add: merkle_node_input_def raw32_inject)

lemma pair_inputs_in:
  "even i \<Longrightarrow> Suc i < length level \<Longrightarrow> merkle_node_input (level ! i) (level ! Suc i) \<in> set (pair_inputs level)"
proof (induction level arbitrary: i rule: induct_list012)
  case (3 a b xs)
  show ?case
  proof (cases "i = 0")
    case False
    define j where "j = i - 2"
    have i: "i = Suc (Suc j)" using False 3(3) unfolding j_def by presburger
    with 3(3,4) 3(1) [of j] show ?thesis by (simp add: pair_inputs_def chunks_2)
  qed (simp add: pair_inputs_def chunks_2)
qed simp_all

text \<open>What the next level holds above a node, in terms of the direction the verifier expects.\<close>

lemma parent_node:
  assumes "unat width = length level" "unat index < length level"
  shows "case expected_direction index width of
      None \<Rightarrow> merkle_next sha level ! unat (index div 2) = level ! unat index
    | Some d \<Rightarrow> \<exists>sib l r. node_for d sib (level ! unat index) = (l, r)
        \<and> merkle_next sha level ! unat (index div 2) = hash_merkle_node sha l r
        \<and> merkle_node_input l r \<in> set (pair_inputs level)"
proof -
  let ?i = "unat index"
  have nth: "merkle_next sha level ! unat (index div 2) =
      (if even ?i then (if Suc ?i < length level then hash_merkle_node sha (level ! ?i) (level ! Suc ?i) else level ! ?i)
       else hash_merkle_node sha (level ! (?i - 1)) (level ! ?i))"
    using pair_up_nth [OF assms(2), of "hash_merkle_node sha"] by (simp add: merkle_next_pair_up unat_half)
  have ed: "expected_direction index width =
      (if odd ?i then Some LeftSide else if Suc ?i < length level then Some RightSide else None)"
    using expected_direction_cases [of index width] assms by simp
  show ?thesis
  proof (cases "odd ?i")
    case True
    then have "even (?i - 1)" "Suc (?i - 1) = ?i" by (auto elim: oddE)
    with pair_inputs_in [of "?i - 1" level] assms(2)
    have "merkle_node_input (level ! (?i - 1)) (level ! ?i) \<in> set (pair_inputs level)" by simp
    with True ed nth show ?thesis by (auto simp: node_for_def)
  next
    case False
    with ed nth pair_inputs_in [of ?i level] show ?thesis by (auto simp: node_for_def)
  qed
qed

lemma node_for_inject: "node_for d s c = (l, r) \<Longrightarrow> node_for d s' c' = (l, r) \<Longrightarrow> c = c'"
  by (cases d) (auto simp: node_for_def)

lemma verify_loop_sound:
  assumes "verify_loop sha c index width siblings = Some (root, rest)" "merkle_loop sha level = [root]"
    and "unat width = length level" "unat index < length level"
    and "inj_on sha (verify_inputs sha c index width siblings \<union> level_inputs sha level)"
  shows "c = level ! unat index"
  using assms
proof (induction "length level" arbitrary: level c index width siblings rule: less_induct)
  case less
  show ?case
  proof (cases "1 < length level")
    case False
    then have "level = [root]" "\<not> 1 < width"
      using less.prems(2,3) by (simp_all add: merkle_loop.simps word_less_nat_alt)
    with less.prems show ?thesis by (simp add: verify_loop.simps)
  next
    case True
    let ?next = "merkle_next sha level"
    have w: "1 < width" using True less.prems(3) by (simp add: word_less_nat_alt)
    have l: "length ?next < length level" using True by (simp add: merkle_next_pair_up pair_up_shorter)
    have m: "merkle_loop sha ?next = [root]" using True less.prems(2) by (simp add: merkle_loop.simps [of sha level])
    have n: "unat (div_ceil2 width) = length ?next" "unat (index div 2) < length ?next"
      using less.prems(3,4) by (simp_all add: unat_div_ceil2 unat_half merkle_next_pair_up length_pair_up)
    note IH = less.hyps [OF l _ m n] and parent = parent_node [OF less.prems(3,4), of sha]
    have li: "level_inputs sha level = set (pair_inputs level) \<union> level_inputs sha ?next"
      using True by (simp add: level_inputs.simps [of sha level])
    show ?thesis
    proof (cases "expected_direction index width")
      case None
      have "c = ?next ! unat (index div 2)"
        by (rule IH [of c siblings]) (use None w less.prems(1) in \<open>simp add: verify_loop.simps [of sha c index]\<close>,
            rule inj_on_subset [OF less.prems(5)], use None w li in \<open>auto simp: verify_inputs.simps [of sha c index]\<close>)
      with parent None show ?thesis by simp
    next
      case (Some d)
      obtain node rest' where sb: "siblings = node # rest'" "pn_direction node = d"
        using less.prems(1) Some w by (auto simp: verify_loop.simps [of sha c index] split: list.splits if_splits)
      obtain a b where ab: "node_for d (as_bytes (pn_hash node)) c = (a, b)" by fastforce
      have vi: "verify_inputs sha c index width siblings = insert (merkle_node_input a b)
          (verify_inputs sha (hash_merkle_node sha a b) (index div 2) (div_ceil2 width) rest')"
        using Some w sb ab by (simp add: verify_inputs.simps [of sha c index])
      have "hash_merkle_node sha a b = ?next ! unat (index div 2)"
        by (rule IH [of _ rest']) (use Some w sb ab less.prems(1) in \<open>simp add: verify_loop.simps [of sha c index]\<close>,
            rule inj_on_subset [OF less.prems(5)], use vi li in auto)
      moreover from parent Some obtain sib p q where pq: "node_for d sib (level ! unat index) = (p, q)"
        "?next ! unat (index div 2) = hash_merkle_node sha p q" "merkle_node_input p q \<in> set (pair_inputs level)"
        by auto
      ultimately have "sha (merkle_node_input a b) = sha (merkle_node_input p q)"
        by (simp add: hash_merkle_node_def)
      then have "merkle_node_input a b = merkle_node_input p q"
        by (rule inj_onD [OF less.prems(5)]) (use vi li pq in auto)
      then have "a = p" "b = q" by (auto dest: audit.node_in_inject)
      with ab pq(1) show ?thesis by (auto dest: node_for_inject)
    qed
  qed
qed

text \<open>
  C2. Inclusion proofs are sound: a verified proof whose root and leaf count are those of a log names
  the leaf that the log has at the proof's index, unless two of the byte strings hashed for the log's
  tree and for the verification collide under SHA-256.
\<close>

theorem inclusion_proof_sound:
  assumes "verify_inclusion_proof sha p"
    and "ip_merkle_root p = merkle_root sha leaves" "unat (ip_leaf_count p) = length leaves"
    and "inj_on sha (proof_inputs sha p \<union> level_inputs sha (map as_bytes leaves))"
  shows "unat (ip_leaf_index p) < length leaves \<and> ip_leaf_hash p = leaves ! unat (ip_leaf_index p)"
proof -
  let ?level = "map as_bytes leaves"
  have i: "unat (ip_leaf_index p) < length leaves" and ne: "leaves \<noteq> []"
    using assms(1,3) by (auto simp: verify_inclusion_proof_def word_le_nat_alt split: if_splits)
  obtain root where m: "merkle_loop sha ?level = [root]"
    using reduce_single [of ?level "hash_merkle_node sha"] ne by (auto simp: merkle_loop_reduce)
  then have "merkle_root sha leaves = from_bytes root" using ne by (simp add: merkle_root_def)
  with assms(1,2) have v: "verify_loop sha (as_bytes (ip_leaf_hash p)) (ip_leaf_index p) (ip_leaf_count p) (ip_siblings p)
      = Some (root, [])"
    by (auto simp: verify_inclusion_proof_def split: if_splits option.splits)
  from verify_loop_sound [OF v m] i assms(3,4)
  have "as_bytes (ip_leaf_hash p) = as_bytes (leaves ! unat (ip_leaf_index p))" by (simp add: proof_inputs_def)
  with i show ?thesis by (simp add: content_hash.expand)
qed

definition demo_proof :: audit_inclusion_proof where
  "demo_proof =
     \<lparr>ip_leaf_index = 2, ip_leaf_count = 3, ip_leaf_hash = ContentHash (bytes32_of ''c''),
      ip_merkle_root = merkle_root demo_hash demo_leaves,
      ip_siblings = [\<lparr>pn_direction = LeftSide,
        pn_hash = ContentHash (hash_merkle_node demo_hash (bytes32_of ''a'') (bytes32_of ''b''))\<rparr>]\<rparr>"

theorem inclusion_proof_sound_witness:
  "ip_leaf_hash demo_proof = demo_leaves ! 2"
proof -
  have v: "verify_inclusion_proof demo_hash demo_proof" by code_simp
  have i: "inj_on demo_hash (proof_inputs demo_hash demo_proof \<union> level_inputs demo_hash (map as_bytes demo_leaves))"
    unfolding inj_on_def by code_simp
  show ?thesis
    using inclusion_proof_sound [OF v _ _ i] by (simp add: demo_proof_def demo_leaves_simps)
qed

end
