(* ===== verification/Audit_Log.thy ===== *)
theory Audit_Log
  imports Audit_Types Audit_Merkle
begin

text \<open>
  The append-only audit log of \<open>audit.rs\<close>: the recorder with its rollup of command-policy events, and
  the verifier.  JSON encoding (\<open>serde_json\<close>) is a parameter; \<open>json_ok\<close> states what is relied on.  The
  log file is its content; each write may fail after part of the bytes was written.
\<close>

section \<open>Records\<close>

definition AUDIT_EVENTS_FILENAME :: string where
  "AUDIT_EVENTS_FILENAME = ''audit-events.ndjson''"

definition MERKLE_SCHEME_ALPHA :: string where
  "MERKLE_SCHEME_ALPHA = ''alpha''"

definition AUDIT_HASH_ALGORITHM :: string where
  "AUDIT_HASH_ALGORITHM = ''sha256''"

record audit_event_record =
  er_sequence :: u64
  er_prev_chain :: "content_hash option"
  er_leaf_hash :: content_hash
  er_chain_hash :: content_hash
  er_event_json :: "string option"
  er_event :: audit_event_payload

record audit_verification_result =
  vr_hash_algorithm :: string
  vr_merkle_scheme :: string
  vr_event_count :: u64
  vr_computed_chain_head :: "content_hash option"
  vr_computed_merkle_root :: "content_hash option"
  vr_stored_event_count :: "u64 option"
  vr_stored_chain_head :: "content_hash option"
  vr_stored_merkle_root :: "content_hash option"
  vr_event_count_matches :: bool
  vr_records_verified :: bool

section \<open>JSON\<close>

text \<open>\<open>serde_json::to_vec\<close> and \<open>serde_json::from_str\<close> on events and records; errors by their text.\<close>

record audit_json =
  to_vec_event :: "audit_event_payload \<Rightarrow> string + string"
  from_str_event :: "string \<Rightarrow> string + audit_event_payload"
  to_vec_record :: "audit_event_record \<Rightarrow> string + string"
  from_str_record :: "string \<Rightarrow> string + audit_event_record"

text \<open>
  What the log relies on: text that was produced parses back to the value; it is UTF-8; a record is
  one line, not blank, and does not end in a carriage return.
\<close>

definition json_ok :: "audit_json \<Rightarrow> bool" where
  "json_ok j \<longleftrightarrow>
     (\<forall>e b. to_vec_event j e = Inr b \<longrightarrow> valid_utf8 b \<and> from_str_event j b = Inr e)
     \<and> (\<forall>r b. to_vec_record j r = Inr b \<longrightarrow> line_ok b \<and> trim_str b \<noteq> [] \<and> from_str_record j b = Inr r)"

section \<open>Rollup of command policy events\<close>

record command_policy_summary_builder =
  sb_mediation_active :: bool
  sb_event_count :: u64
  sb_invocation_count :: u64
  sb_commands :: "command_policy_command_summary list"
  sb_truncated :: bool

text \<open>The \<open>BTreeMap\<close> from command names to their counters is the list of its values in key order.\<close>

definition builder_new :: command_policy_summary_builder where
  "builder_new =
     \<lparr>sb_mediation_active = False, sb_event_count = 0, sb_invocation_count = 0, sb_commands = [], sb_truncated = False\<rparr>"

definition observe_mediation_active :: "command_policy_summary_builder \<Rightarrow> command_policy_summary_builder" where
  "observe_mediation_active b = b\<lparr>sb_mediation_active := True\<rparr>"

definition bump :: "command_policy_outcome \<Rightarrow> command_policy_command_summary \<Rightarrow> command_policy_command_summary" where
  "bump outcome entry =
     (case outcome of
        OutcomeAllowed \<Rightarrow> entry\<lparr>cc_allowed := sat_add (cc_allowed entry) 1\<rparr>
      | OutcomeDenied \<Rightarrow> entry\<lparr>cc_denied := sat_add (cc_denied entry) 1\<rparr>
      | OutcomeOther \<Rightarrow> entry\<lparr>cc_other := sat_add (cc_other entry) 1\<rparr>
      | OutcomePending \<Rightarrow> entry)"

definition update_command ::
  "string \<Rightarrow> (command_policy_command_summary \<Rightarrow> command_policy_command_summary)
   \<Rightarrow> command_policy_command_summary list \<Rightarrow> command_policy_command_summary list" where
  "update_command c f cs = map (\<lambda>e. if cc_command e = c then f e else e) cs"

definition observe ::
  "command_policy_audit_event \<Rightarrow> command_policy_outcome \<Rightarrow> command_policy_summary_builder
   \<Rightarrow> command_policy_summary_builder" where
  "observe event outcome b0 =
     (let b1 = b0\<lparr>sb_event_count := sat_add (sb_event_count b0) 1\<rparr>
      in if outcome = OutcomePending then b1
         else
           (let b2 = b1\<lparr>sb_invocation_count := sat_add (sb_invocation_count b1) 1\<rparr>;
                c = cp_command event
            in if c \<in> cc_command ` set (sb_commands b2)
               then b2\<lparr>sb_commands := update_command c (bump outcome) (sb_commands b2)\<rparr>
               else if COMMAND_POLICY_SUMMARY_MAX_COMMANDS \<le> length (sb_commands b2)
               then b2\<lparr>sb_truncated := True\<rparr>
               else b2\<lparr>sb_commands := insort_key cc_command
                        (bump outcome \<lparr>cc_command = c, cc_allowed = 0, cc_denied = 0, cc_other = 0\<rparr>)
                        (sb_commands b2)\<rparr>))"

definition builder_finish :: "command_policy_summary_builder \<Rightarrow> command_policy_summary option" where
  "builder_finish b =
     (if \<not> sb_mediation_active b \<and> sb_event_count b = 0 then None
      else Some \<lparr>ps_mediation_active = sb_mediation_active b, ps_event_count = sb_event_count b,
             ps_invocation_count = sb_invocation_count b, ps_commands = sb_commands b,
             ps_truncated = sb_truncated b\<rparr>)"

section \<open>The recorder\<close>

record audit_recorder =
  ar_file :: string
  ar_next_sequence :: u64
  ar_previous_chain :: "content_hash option"
  ar_leaf_hashes :: "content_hash list"
  ar_redaction_policy :: scrub_policy
  ar_command_policy_summary :: command_policy_summary_builder
  ar_ended :: bool

text \<open>The content an existing log file has (empty when it is created), or the error of opening it.\<close>

definition new_with_policy :: "string + string \<Rightarrow> path \<Rightarrow> scrub_policy \<Rightarrow> audit_recorder res" where
  "new_with_policy opened session_dir policy =
     (let path = join session_dir AUDIT_EVENTS_FILENAME
      in map_sum (\<lambda>e. Snapshot (''Failed to open audit event log '' @ path @ '': '' @ e))
           (\<lambda>content. \<lparr>ar_file = content, ar_next_sequence = 0, ar_previous_chain = None, ar_leaf_hashes = [],
              ar_redaction_policy = policy, ar_command_policy_summary = builder_new, ar_ended = False\<rparr>)
           opened)"

record append_io =
  io_line :: write_outcome
  io_newline :: write_outcome
  io_flush :: "string option"

text \<open>\<open>write_all(line)\<close>, then \<open>write_all("\n")\<close>, then \<open>flush\<close>, each only if the one before succeeded.\<close>

definition write_line :: "append_io \<Rightarrow> string \<Rightarrow> string \<Rightarrow> string \<times> (string + unit)" where
  "write_line io content line =
     (case write_all (io_line io) content line of
        (content1, Inl e) \<Rightarrow> (content1, Inl e)
      | (content1, Inr _) \<Rightarrow>
          (case write_all (io_newline io) content1 [newline] of
             (content2, Inl e) \<Rightarrow> (content2, Inl e)
           | (content2, Inr _) \<Rightarrow> (content2, case io_flush io of Some e \<Rightarrow> Inl e | None \<Rightarrow> Inr ())))"

definition append_event ::
  "audit_json \<Rightarrow> sha256 \<Rightarrow> append_io \<Rightarrow> audit_event_payload \<Rightarrow> audit_recorder \<Rightarrow> audit_recorder \<times> unit res" where
  "append_event j sha io event st =
     (if ar_ended st then (st, Inl (Snapshot ''Audit log is closed: session already ended''))
      else
        (case to_vec_event j event of
           Inl e \<Rightarrow> (st, Inl (Snapshot (''Failed to serialize audit event: '' @ e)))
         | Inr event_bytes \<Rightarrow>
             (let leaf_hash = hash_event sha event_bytes;
                  chain_hash = hash_chain sha (ar_previous_chain st) leaf_hash
              in if \<not> valid_utf8 event_bytes then
                   (st, Inl (Snapshot (''Failed to encode canonical audit event JSON as UTF-8: ''
                     @ utf8_error_text 0 event_bytes)))
                 else
                   (let r = \<lparr>er_sequence = ar_next_sequence st, er_prev_chain = ar_previous_chain st,
                             er_leaf_hash = leaf_hash, er_chain_hash = chain_hash,
                             er_event_json = Some event_bytes, er_event = event\<rparr>
                    in case to_vec_record j r of
                         Inl e \<Rightarrow> (st, Inl (Snapshot (''Failed to serialize audit record: '' @ e)))
                       | Inr line \<Rightarrow>
                           (case write_line io (ar_file st) line of
                              (content, Inl e) \<Rightarrow>
                                (st\<lparr>ar_file := content\<rparr>, Inl (Snapshot (''Failed to append audit record: '' @ e)))
                            | (content, Inr _) \<Rightarrow>
                                (st\<lparr>ar_file := content,
                                    ar_next_sequence := sat_add (ar_next_sequence st) 1,
                                    ar_previous_chain := Some chain_hash,
                                    ar_leaf_hashes := ar_leaf_hashes st @ [leaf_hash]\<rparr>, Inr ()))))))"

text \<open>The \<open>record_*\<close> operations.  What happens after a successful append is the last argument.\<close>

definition after_append ::
  "audit_recorder \<times> unit res \<Rightarrow> (audit_recorder \<Rightarrow> audit_recorder) \<Rightarrow> audit_recorder \<times> unit res" where
  "after_append r f = (case r of (st, Inl e) \<Rightarrow> (st, Inl e) | (st, Inr _) \<Rightarrow> (f st, Inr ()))"

definition record_session_started ::
  "audit_json \<Rightarrow> sha256 \<Rightarrow> append_io \<Rightarrow> string \<Rightarrow> string list \<Rightarrow> audit_recorder \<Rightarrow> audit_recorder \<times> unit res" where
  "record_session_started j sha io started command st =
     append_event j sha io
       (SessionStarted started (scrub_argv_with_policy command (ar_redaction_policy st))
          (into_option (diff_from_secure_default (ar_redaction_policy st)))) st"

definition record_session_ended ::
  "audit_json \<Rightarrow> sha256 \<Rightarrow> append_io \<Rightarrow> string \<Rightarrow> i32 \<Rightarrow> audit_recorder \<Rightarrow> audit_recorder \<times> unit res" where
  "record_session_ended j sha io ended exit_code st =
     after_append (append_event j sha io (SessionEnded ended exit_code) st) (\<lambda>st. st\<lparr>ar_ended := True\<rparr>)"

definition record_capability_decision ::
  "audit_json \<Rightarrow> sha256 \<Rightarrow> append_io \<Rightarrow> audit_entry \<Rightarrow> audit_recorder \<Rightarrow> audit_recorder \<times> unit res" where
  "record_capability_decision j sha io entry st = append_event j sha io (CapabilityDecision entry) st"

definition record_open_url ::
  "audit_json \<Rightarrow> sha256 \<Rightarrow> append_io \<Rightarrow> url_open_request \<Rightarrow> bool \<Rightarrow> string option \<Rightarrow> audit_recorder
   \<Rightarrow> audit_recorder \<times> unit res" where
  "record_open_url j sha io request success err st = append_event j sha io (UrlOpen request success err) st"

definition record_network_event ::
  "audit_json \<Rightarrow> sha256 \<Rightarrow> append_io \<Rightarrow> network_audit_event \<Rightarrow> audit_recorder \<Rightarrow> audit_recorder \<times> unit res" where
  "record_network_event j sha io event st = append_event j sha io (Network event) st"

definition record_sandbox_runtime_event ::
  "audit_json \<Rightarrow> sha256 \<Rightarrow> append_io \<Rightarrow> sandbox_runtime_audit_event \<Rightarrow> audit_recorder
   \<Rightarrow> audit_recorder \<times> unit res" where
  "record_sandbox_runtime_event j sha io event st =
     after_append (append_event j sha io (SandboxRuntime event) st)
       (\<lambda>st. if sr_tool_sandbox_active event
             then st\<lparr>ar_command_policy_summary := observe_mediation_active (ar_command_policy_summary st)\<rparr>
             else st)"

definition record_command_policy_event ::
  "audit_json \<Rightarrow> sha256 \<Rightarrow> append_io \<Rightarrow> command_policy_audit_event \<Rightarrow> command_policy_outcome \<Rightarrow> audit_recorder
   \<Rightarrow> audit_recorder \<times> unit res" where
  "record_command_policy_event j sha io event outcome st =
     after_append (append_event j sha io (CommandPolicy event) st)
       (\<lambda>st. st\<lparr>ar_command_policy_summary := observe event outcome (ar_command_policy_summary st)\<rparr>)"

definition recorder_summary :: "audit_recorder \<Rightarrow> command_policy_summary option" where
  "recorder_summary st = builder_finish (ar_command_policy_summary st)"

definition event_count :: "audit_recorder \<Rightarrow> u64" where
  "event_count st = of_nat (length (ar_leaf_hashes st))"

definition finalize :: "sha256 \<Rightarrow> audit_recorder \<Rightarrow> audit_integrity_summary option" where
  "finalize sha st =
     (case ar_previous_chain st of
        None \<Rightarrow> None
      | Some chain_head \<Rightarrow>
          Some \<lparr>is_hash_algorithm = AUDIT_HASH_ALGORITHM, is_event_count = event_count st,
                is_chain_head = chain_head, is_merkle_root = merkle_root sha (ar_leaf_hashes st)\<rparr>)"

section \<open>The verifier\<close>

record verify_state =
  vs_previous_chain :: "content_hash option"
  vs_leaf_hashes :: "content_hash list"
  vs_chain_head :: "content_hash option"
  vs_missing_json :: bool

definition at_line :: "string \<Rightarrow> nat \<Rightarrow> nono_error" where
  "at_line msg n = Snapshot (msg @ '' at line '' @ show_nat n)"

text \<open>The canonical bytes of a record's event, checked against the record when it carries them.\<close>

definition record_event_bytes :: "audit_json \<Rightarrow> nat \<Rightarrow> audit_event_record \<Rightarrow> string res" where
  "record_event_bytes j n r =
     (case er_event_json r of
        Some raw \<Rightarrow>
          (case from_str_event j raw of
             Inl e \<Rightarrow> Inl (Snapshot (''Failed to parse canonical audit event JSON at line '' @ show_nat n @ '': '' @ e))
           | Inr _ \<Rightarrow>
               (case to_vec_event j (er_event r) of
                  Inl e \<Rightarrow> Inl (Snapshot (''Failed to serialize audit event payload at line '' @ show_nat n @ '': '' @ e))
                | Inr canonical \<Rightarrow>
                    if raw \<noteq> canonical then Inl (at_line ''Audit event JSON mismatch'' n) else Inr raw))
      | None \<Rightarrow>
          map_err (\<lambda>e. Snapshot (''Failed to serialize audit event for verification at line '' @ show_nat n @ '': '' @ e))
            (to_vec_event j (er_event r)))"

definition verify_record ::
  "audit_json \<Rightarrow> sha256 \<Rightarrow> nat \<Rightarrow> verify_state \<Rightarrow> audit_event_record \<Rightarrow> verify_state res" where
  "verify_record j sha n st r =
     (let expected_sequence = of_nat (length (vs_leaf_hashes st))
      in if er_sequence r \<noteq> expected_sequence then
           Inl (Snapshot (''Audit event record sequence mismatch at line '' @ show_nat n @ '': expected ''
             @ show_nat (unat expected_sequence) @ '', got '' @ show_nat (unat (er_sequence r))))
         else if er_prev_chain r \<noteq> vs_previous_chain st then
           Inl (at_line ''Audit event record prev_chain mismatch'' n)
         else
           and_then (record_event_bytes j n r) (\<lambda>event_bytes.
             let leaf_hash = hash_event sha event_bytes
             in if er_leaf_hash r \<noteq> leaf_hash then Inl (at_line ''Audit event leaf hash mismatch'' n)
                else
                  (let chain_hash = hash_chain sha (vs_previous_chain st) leaf_hash
                   in if er_chain_hash r \<noteq> chain_hash then Inl (at_line ''Audit event chain hash mismatch'' n)
                      else Inr \<lparr>vs_previous_chain = Some chain_hash,
                             vs_leaf_hashes = vs_leaf_hashes st @ [leaf_hash],
                             vs_chain_head = Some chain_hash,
                             vs_missing_json = (vs_missing_json st \<or> er_event_json r = None)\<rparr>)))"

definition verify_line ::
  "audit_json \<Rightarrow> sha256 \<Rightarrow> path \<Rightarrow> verify_state \<Rightarrow> nat \<times> (string + string) \<Rightarrow> verify_state res" where
  "verify_line j sha path st il =
     (case il of (index, l) \<Rightarrow>
        and_then (map_err (\<lambda>e. Snapshot (''Failed to read audit event log '' @ path @ '': '' @ e)) l) (\<lambda>line.
          if trim_str line = [] then Inr st
          else
            and_then (map_err (\<lambda>e. Snapshot (''Failed to parse audit event record '' @ path @ '' line ''
                @ show_nat (index + 1) @ '': '' @ e)) (from_str_record j line))
              (verify_record j sha (index + 1) st)))"

definition verify_lines :: "audit_json \<Rightarrow> sha256 \<Rightarrow> path \<Rightarrow> reader \<Rightarrow> verify_state res" where
  "verify_lines j sha path rd =
     fold_res (verify_line j sha path)
       \<lparr>vs_previous_chain = None, vs_leaf_hashes = [], vs_chain_head = None, vs_missing_json = False\<rparr>
       (enumerate 0 (lines rd))"

definition verify_audit_log ::
  "audit_json \<Rightarrow> sha256 \<Rightarrow> string + reader \<Rightarrow> path \<Rightarrow> audit_integrity_summary option
   \<Rightarrow> audit_verification_result res" where
  "verify_audit_log j sha opened session_dir stored =
     (let path = join session_dir AUDIT_EVENTS_FILENAME
      in and_then (map_err (\<lambda>e. Snapshot (''Failed to open audit event log '' @ path @ '': '' @ e)) opened) (\<lambda>rd.
         and_then (verify_lines j sha path rd) (\<lambda>st.
         let leaf_hashes = vs_leaf_hashes st;
             computed_merkle_root = if leaf_hashes = [] then None else Some (merkle_root sha leaf_hashes);
             event_count = of_nat (length leaf_hashes)
         in if stored \<noteq> None \<and> leaf_hashes \<noteq> [] \<and> vs_missing_json st then
              Inl (Snapshot ''Alpha audit log is missing canonical event_json bytes'')
            else if stored \<noteq> None \<and> map_option is_chain_head stored \<noteq> vs_chain_head st then
              Inl (Snapshot ''Alpha audit log chain head mismatch'')
            else if stored \<noteq> None \<and> map_option is_merkle_root stored \<noteq> computed_merkle_root then
              Inl (Snapshot ''Alpha audit log Merkle root mismatch'')
            else Inr \<lparr>vr_hash_algorithm = AUDIT_HASH_ALGORITHM, vr_merkle_scheme = MERKLE_SCHEME_ALPHA,
                   vr_event_count = event_count, vr_computed_chain_head = vs_chain_head st,
                   vr_computed_merkle_root = computed_merkle_root,
                   vr_stored_event_count = map_option is_event_count stored,
                   vr_stored_chain_head = map_option is_chain_head stored,
                   vr_stored_merkle_root = map_option is_merkle_root stored,
                   vr_event_count_matches = (case stored of None \<Rightarrow> True | Some s \<Rightarrow> is_event_count s = event_count),
                   vr_records_verified = True\<rparr>)))"

section \<open>Well-formed sequences of records\<close>

fun wf_records :: "audit_json \<Rightarrow> sha256 \<Rightarrow> content_hash option \<Rightarrow> nat \<Rightarrow> audit_event_record list \<Rightarrow> bool" where
  "wf_records j sha prev n [] \<longleftrightarrow> True"
| "wf_records j sha prev n (r # rs) \<longleftrightarrow>
     er_sequence r = of_nat n \<and> er_prev_chain r = prev
     \<and> (\<exists>b. to_vec_event j (er_event r) = Inr b \<and> er_event_json r = Some b \<and> er_leaf_hash r = hash_event sha b)
     \<and> er_chain_hash r = hash_chain sha prev (er_leaf_hash r)
     \<and> wf_records j sha (Some (er_chain_hash r)) (Suc n) rs"

definition chain_after :: "content_hash option \<Rightarrow> audit_event_record list \<Rightarrow> content_hash option" where
  "chain_after prev rs = (if rs = [] then prev else Some (er_chain_hash (last rs)))"

lemma chain_after_simps [simp]:
  "chain_after prev [] = prev"
  "chain_after prev (r # rs) = chain_after (Some (er_chain_hash r)) rs"
  "chain_after prev (rs @ [r]) = Some (er_chain_hash r)"
  by (simp_all add: chain_after_def)

lemma wf_records_snoc:
  "wf_records j sha prev n (rs @ [r]) \<longleftrightarrow>
     wf_records j sha prev n rs \<and> wf_records j sha (chain_after prev rs) (n + length rs) [r]"
  by (induction rs arbitrary: prev n) auto

definition written_as :: "audit_json \<Rightarrow> audit_event_record list \<Rightarrow> string list \<Rightarrow> bool" where
  "written_as j rs ls \<longleftrightarrow> list_all2 (\<lambda>r l. to_vec_record j r = Inr l) rs ls"

lemma verify_good_line:
  assumes "json_ok j" "to_vec_record j r = Inr l" "wf_records j sha (vs_previous_chain st) (length (vs_leaf_hashes st)) [r]"
  shows "verify_line j sha path st (k, Inr l) =
    Inr \<lparr>vs_previous_chain = Some (er_chain_hash r), vs_leaf_hashes = vs_leaf_hashes st @ [er_leaf_hash r],
         vs_chain_head = Some (er_chain_hash r), vs_missing_json = vs_missing_json st\<rparr>"
proof -
  obtain b where b: "to_vec_event j (er_event r) = Inr b" "er_event_json r = Some b" "er_leaf_hash r = hash_event sha b"
    using assms(3) by auto
  have "from_str_event j b = Inr (er_event r)" using assms(1) b(1) by (auto simp: json_ok_def)
  with b have "record_event_bytes j n r = Inr b" for n by (simp add: record_event_bytes_def)
  moreover have "trim_str l \<noteq> []" "from_str_record j l = Inr r" using assms(1,2) by (auto simp: json_ok_def)
  ultimately show ?thesis using assms(3) b by (simp add: verify_line_def verify_record_def Let_def)
qed

lemma verify_good_lines:
  assumes "json_ok j" "written_as j rs ls" "wf_records j sha (vs_previous_chain st) (length (vs_leaf_hashes st)) rs"
  shows "fold_res (verify_line j sha path) st (enumerate k (map Inr ls)) =
    Inr \<lparr>vs_previous_chain = chain_after (vs_previous_chain st) rs,
         vs_leaf_hashes = vs_leaf_hashes st @ map er_leaf_hash rs,
         vs_chain_head = (if rs = [] then vs_chain_head st else Some (er_chain_hash (last rs))),
         vs_missing_json = vs_missing_json st\<rparr>"
  using assms(2,3) unfolding written_as_def
proof (induction rs ls arbitrary: st k rule: list_all2_induct)
  case Nil
  then show ?case by simp
next
  case (Cons r rs l ls)
  let ?st = "\<lparr>vs_previous_chain = Some (er_chain_hash r), vs_leaf_hashes = vs_leaf_hashes st @ [er_leaf_hash r],
      vs_chain_head = Some (er_chain_hash r), vs_missing_json = vs_missing_json st\<rparr>"
  have w: "wf_records j sha (vs_previous_chain st) (length (vs_leaf_hashes st)) [r]"
    "wf_records j sha (vs_previous_chain ?st) (length (vs_leaf_hashes ?st)) rs"
    using Cons.prems by auto
  show ?case
    using verify_good_line [OF assms(1) Cons.hyps(1) w(1), of path k] Cons.IH [OF w(2), of "Suc k"] by simp
qed

lemma written_lines_ok:
  assumes "json_ok j" "written_as j rs ls"
  shows "\<forall>l \<in> set ls. line_ok l"
  using assms(2) unfolding written_as_def
proof (induction rs ls rule: list_all2_induct)
  case (Cons r rs l ls)
  moreover have "line_ok l" using assms(1) Cons.hyps(1) by (simp add: json_ok_def)
  ultimately show ?case by simp
qed simp

section \<open>What a recorder writes\<close>

datatype audit_op =
    Op_Started string "string list"
  | Op_Ended string i32
  | Op_Decision audit_entry
  | Op_Url url_open_request bool "string option"
  | Op_Network network_audit_event
  | Op_Runtime sandbox_runtime_audit_event
  | Op_Command command_policy_audit_event command_policy_outcome

definition run_op :: "audit_json \<Rightarrow> sha256 \<Rightarrow> append_io \<Rightarrow> audit_op \<Rightarrow> audit_recorder \<Rightarrow> audit_recorder \<times> unit res" where
  "run_op j sha io op =
     (case op of
        Op_Started s c \<Rightarrow> record_session_started j sha io s c
      | Op_Ended e c \<Rightarrow> record_session_ended j sha io e c
      | Op_Decision e \<Rightarrow> record_capability_decision j sha io e
      | Op_Url r s e \<Rightarrow> record_open_url j sha io r s e
      | Op_Network e \<Rightarrow> record_network_event j sha io e
      | Op_Runtime e \<Rightarrow> record_sandbox_runtime_event j sha io e
      | Op_Command e d \<Rightarrow> record_command_policy_event j sha io e d)"

text \<open>
  The states a recorder reaches from an empty log file by operations that succeed, or that fail
  without leaving bytes in the file.
\<close>

inductive recorded :: "audit_json \<Rightarrow> sha256 \<Rightarrow> audit_recorder \<Rightarrow> bool" for j sha where
  new: "new_with_policy (Inr []) dir policy = Inr st \<Longrightarrow> recorded j sha st"
| step: "recorded j sha st \<Longrightarrow> run_op j sha io op st = (st', r) \<Longrightarrow> r = Inr () \<or> ar_file st' = ar_file st
    \<Longrightarrow> recorded j sha st'"

definition same_log :: "audit_recorder \<Rightarrow> audit_recorder \<Rightarrow> bool" where
  "same_log a b \<longleftrightarrow>
     ar_file a = ar_file b \<and> ar_next_sequence a = ar_next_sequence b
     \<and> ar_previous_chain a = ar_previous_chain b \<and> ar_leaf_hashes a = ar_leaf_hashes b"

lemma run_op_append:
  "\<exists>event. case run_op j sha io op st of (st', r) \<Rightarrow>
     (case append_event j sha io event st of (st'', r') \<Rightarrow> r = r' \<and> same_log st' st'')"
proof -
  have after: "case after_append x f of (st', r) \<Rightarrow> (case x of (st'', r') \<Rightarrow> r = r' \<and> same_log st' st'')"
    if "\<And>s. same_log (f s) s" for x f
    using that by (auto simp: after_append_def same_log_def split: prod.splits sum.splits)
  have plain: "case x of (st', r) \<Rightarrow> (case x of (st'', r') \<Rightarrow> r = r' \<and> same_log st' st'')" for x
    by (simp add: same_log_def split: prod.split)
  show ?thesis
  proof (cases op)
    case (Op_Started s c)
    show ?thesis unfolding Op_Started run_op_def audit_op.case record_session_started_def by (rule exI, rule plain)
  next
    case (Op_Ended e c)
    show ?thesis unfolding Op_Ended run_op_def audit_op.case record_session_ended_def by (rule exI, rule after, simp add: same_log_def)
  next
    case (Op_Decision e)
    show ?thesis unfolding Op_Decision run_op_def audit_op.case record_capability_decision_def by (rule exI, rule plain)
  next
    case (Op_Url r s e)
    show ?thesis unfolding Op_Url run_op_def audit_op.case record_open_url_def by (rule exI, rule plain)
  next
    case (Op_Network e)
    show ?thesis unfolding Op_Network run_op_def audit_op.case record_network_event_def by (rule exI, rule plain)
  next
    case (Op_Runtime e)
    show ?thesis unfolding Op_Runtime run_op_def audit_op.case record_sandbox_runtime_event_def by (rule exI, rule after, simp add: same_log_def)
  next
    case (Op_Command e d)
    show ?thesis unfolding Op_Command run_op_def audit_op.case record_command_policy_event_def by (rule exI, rule after, simp add: same_log_def)
  qed
qed

lemma run_op_appendE:
  assumes "run_op j sha io op st = (st', r)"
  obtains event st'' where "append_event j sha io event st = (st'', r)" "same_log st' st''"
proof -
  have "\<exists>event. case append_event j sha io event st of (st'', r') \<Rightarrow> r = r' \<and> same_log st' st''"
    using run_op_append [where j = j and sha = sha and io = io and op = op and st = st] assms
    by (simp only: prod.case)
  then obtain event where e: "case append_event j sha io event st of (st'', r') \<Rightarrow> r = r' \<and> same_log st' st''"
    by (rule exE)
  show thesis by (cases "append_event j sha io event st") (use e that in auto)
qed

lemma write_line_ok: "write_line io content line = (c, Inr u) \<Longrightarrow> c = content @ line @ [newline]"
  by (auto simp: write_line_def write_all_def split: write_outcome.splits option.splits)

text \<open>The record an append writes, given the bytes of its event.\<close>

definition new_record :: "sha256 \<Rightarrow> audit_recorder \<Rightarrow> audit_event_payload \<Rightarrow> string \<Rightarrow> audit_event_record" where
  "new_record sha st event b =
     \<lparr>er_sequence = ar_next_sequence st, er_prev_chain = ar_previous_chain st, er_leaf_hash = hash_event sha b,
      er_chain_hash = hash_chain sha (ar_previous_chain st) (hash_event sha b), er_event_json = Some b,
      er_event = event\<rparr>"

lemma append_event_ok:
  assumes "append_event j sha io event st = (st', Inr u)"
  obtains b l where "to_vec_event j event = Inr b" "to_vec_record j (new_record sha st event b) = Inr l"
    "\<not> ar_ended st"
    "st' = st\<lparr>ar_file := ar_file st @ l @ [newline], ar_next_sequence := sat_add (ar_next_sequence st) 1,
      ar_previous_chain := Some (er_chain_hash (new_record sha st event b)),
      ar_leaf_hashes := ar_leaf_hashes st @ [hash_event sha b]\<rparr>"
  using assms
  by (auto simp: append_event_def Let_def new_record_def split: if_splits sum.splits prod.splits dest: write_line_ok)

lemma append_event_err:
  assumes "append_event j sha io event st = (st', Inl e)"
  shows "st' = st\<lparr>ar_file := ar_file st'\<rparr>"
  using assms by (auto simp: append_event_def Let_def split: if_splits sum.splits prod.splits)

definition log_inv :: "audit_json \<Rightarrow> sha256 \<Rightarrow> audit_recorder \<Rightarrow> bool" where
  "log_inv j sha st \<longleftrightarrow>
     (\<exists>rs ls. written_as j rs ls \<and> ar_file st = terminated ls \<and> wf_records j sha None 0 rs
        \<and> ar_previous_chain st = chain_after None rs \<and> ar_leaf_hashes st = map er_leaf_hash rs
        \<and> ar_next_sequence st = of_nat (length rs))"

lemma log_inv_append:
  assumes "log_inv j sha st" "append_event j sha io event st = (st', Inr u)" "length (ar_leaf_hashes st') < 2 ^ 64"
  shows "log_inv j sha st'"
proof -
  obtain rs ls where inv: "written_as j rs ls" "ar_file st = terminated ls" "wf_records j sha None 0 rs"
    "ar_previous_chain st = chain_after None rs" "ar_leaf_hashes st = map er_leaf_hash rs"
    "ar_next_sequence st = of_nat (length rs)"
    using assms(1) by (auto simp: log_inv_def)
  obtain b l where b: "to_vec_event j event = Inr b" "to_vec_record j (new_record sha st event b) = Inr l"
    and st': "st' = st\<lparr>ar_file := ar_file st @ l @ [newline], ar_next_sequence := sat_add (ar_next_sequence st) 1,
      ar_previous_chain := Some (er_chain_hash (new_record sha st event b)),
      ar_leaf_hashes := ar_leaf_hashes st @ [hash_event sha b]\<rparr>"
    by (rule append_event_ok [OF assms(2)])
  let ?r = "new_record sha st event b"
  have "wf_records j sha (chain_after None rs) (0 + length rs) [?r]"
    using b(1) inv(4,6) by (simp add: new_record_def)
  then have "wf_records j sha None 0 (rs @ [?r])" using inv(3) by (simp add: wf_records_snoc)
  moreover have "written_as j (rs @ [?r]) (ls @ [l])"
    using inv(1) b(2) by (simp add: written_as_def list_all2_appendI)
  moreover have "sat_add (of_nat (length rs)) 1 = (of_nat (Suc (length rs)) :: u64)"
  proof -
    have "Suc (length rs) < 2 ^ 64" using assms(3) st' inv(5) by simp
    then show ?thesis by (simp add: word_unat_eq_iff unat_sat_add unat_of_nat_u64 del: of_nat_Suc)
  qed
  ultimately show ?thesis
    unfolding log_inv_def using inv st'
    by (intro exI [of _ "rs @ [?r]"] exI [of _ "ls @ [l]"]) (simp add: new_record_def)
qed

lemma log_inv_same: "same_log st' st \<Longrightarrow> log_inv j sha st' = log_inv j sha st"
  by (simp add: log_inv_def same_log_def)

lemma recorded_log_inv:
  assumes "recorded j sha st" "length (ar_leaf_hashes st) < 2 ^ 64"
  shows "log_inv j sha st"
  using assms
proof (induction rule: recorded.induct)
  case (new dir policy st)
  then have "st = \<lparr>ar_file = [], ar_next_sequence = 0, ar_previous_chain = None, ar_leaf_hashes = [],
      ar_redaction_policy = policy, ar_command_policy_summary = builder_new, ar_ended = False\<rparr>"
    by (simp add: new_with_policy_def)
  then show ?case by (auto simp: log_inv_def written_as_def intro!: exI [of _ "[]"])
next
  case (step st io op st' r)
  obtain event st'' where a: "append_event j sha io event st = (st'', r)" and same: "same_log st' st''"
    by (rule run_op_appendE [OF step.hyps(2)])
  have l: "length (ar_leaf_hashes st'') < 2 ^ 64" using same step.prems by (simp add: same_log_def)
  show ?case
  proof (cases r)
    case (Inl e)
    with a append_event_err step.hyps(3) same have "same_log st'' st"
      by (auto simp: same_log_def) (metis audit_recorder.surjective audit_recorder.update_convs(1) audit_recorder.select_convs(2-4))+
    then show ?thesis
      using step.IH step.prems same by (simp add: log_inv_same) (simp add: same_log_def)
  next
    case (Inr u)
    then obtain b l where "st'' = st\<lparr>ar_file := ar_file st @ l @ [newline], ar_next_sequence := sat_add (ar_next_sequence st) 1,
      ar_previous_chain := Some (er_chain_hash (new_record sha st event b)),
      ar_leaf_hashes := ar_leaf_hashes st @ [hash_event sha b]\<rparr>"
      using append_event_ok [of j sha io event st st''] a by metis
    then have "log_inv j sha st" using step.IH l by simp
    then show ?thesis using log_inv_append [of j sha st io event st''] a Inr l same by (simp add: log_inv_same)
  qed
qed


section \<open>What a verified log commits to\<close>

text \<open>The records of a log, and the canonical bytes of their events.\<close>

definition line_record :: "audit_json \<Rightarrow> string + string \<Rightarrow> audit_event_record option" where
  "line_record j l =
     (case l of
        Inl _ \<Rightarrow> None
      | Inr line \<Rightarrow> if trim_str line = [] then None else ok_opt (from_str_record j line))"

definition log_records :: "audit_json \<Rightarrow> reader \<Rightarrow> audit_event_record list" where
  "log_records j rd = List.map_filter (line_record j) (lines rd)"

definition event_bytes :: "audit_json \<Rightarrow> audit_event_record \<Rightarrow> string" where
  "event_bytes j r = projr (to_vec_event j (er_event r))"

definition log_bytes :: "audit_json \<Rightarrow> reader \<Rightarrow> string list" where
  "log_bytes j rd = map (event_bytes j) (log_records j rd)"

lemma record_event_bytes_ok: "record_event_bytes j n r = Inr b \<Longrightarrow> to_vec_event j (er_event r) = Inr b"
  by (auto simp: record_event_bytes_def result_simps split: option.splits sum.splits if_splits)

lemma verify_record_ok:
  assumes "verify_record j sha n st r = Inr st'"
  shows "to_vec_event j (er_event r) = Inr (event_bytes j r)
    \<and> vs_leaf_hashes st' = vs_leaf_hashes st @ [hash_event sha (event_bytes j r)]"
  using assms
  by (auto simp: verify_record_def Let_def result_simps event_bytes_def split: if_splits dest: record_event_bytes_ok)

lemma verify_fold_records:
  assumes "fold_res (verify_line j sha path) st (enumerate k ls) = Inr st'"
  shows "(\<forall>r \<in> set (List.map_filter (line_record j) ls). to_vec_event j (er_event r) = Inr (event_bytes j r))
    \<and> vs_leaf_hashes st' = vs_leaf_hashes st @ map (\<lambda>r. hash_event sha (event_bytes j r)) (List.map_filter (line_record j) ls)"
  using assms
proof (induction ls arbitrary: st k)
  case Nil
  then show ?case by (simp add: map_filter_simps)
next
  case (Cons l ls)
  then obtain st1 where 1: "verify_line j sha path st (k, l) = Inr st1"
    and 2: "fold_res (verify_line j sha path) st1 (enumerate (Suc k) ls) = Inr st'"
    by (cases "verify_line j sha path st (k, l)") auto
  note IH = Cons.IH [OF 2]
  from 1 obtain line where l: "l = Inr line" by (cases l) (auto simp: verify_line_def)
  show ?case
  proof (cases "trim_str line = []")
    case True
    with 1 l have "st1 = st" "line_record j l = None" by (auto simp: verify_line_def line_record_def)
    with IH show ?thesis by (simp add: map_filter_simps)
  next
    case False
    with 1 l obtain r where r: "from_str_record j line = Inr r" "verify_record j sha (k + 1) st r = Inr st1"
      by (auto simp: verify_line_def result_simps)
    with False l have "line_record j l = Some r" by (simp add: line_record_def)
    with verify_record_ok [OF r(2)] IH show ?thesis by (simp add: map_filter_simps)
  qed
qed

lemma verify_lines_records:
  assumes "verify_lines j sha path rd = Inr st"
  shows "(\<forall>r \<in> set (log_records j rd). to_vec_event j (er_event r) = Inr (event_bytes j r))
    \<and> vs_leaf_hashes st = map (hash_event sha) (log_bytes j rd)"
  using verify_fold_records [OF assms [unfolded verify_lines_def]]
  by (simp add: log_records_def log_bytes_def)

interpretation alog: leaf_encoding merkle_node_input event_input
proof unfold_locales
  show "x = y" if "event_input x = event_input y" for x y
    using that by (simp add: event_input_def)
  show "event_input x \<noteq> merkle_node_input a b" for x a b
    by (simp add: event_input_def merkle_node_input_def EVENT_DOMAIN_ALPHA_def MERKLE_NODE_DOMAIN_ALPHA_def)
qed

lemma merkle_root_events:
  "bs \<noteq> [] \<Longrightarrow>
   [as_bytes (merkle_root sha (map (hash_event sha) bs))] =
     reduce (\<lambda>a b. sha (merkle_node_input a b)) (map (\<lambda>b. sha (event_input b)) bs)"
proof -
  assume "bs \<noteq> []"
  then have "reduce (hash_merkle_node sha) (map (\<lambda>b. sha (event_input b)) bs)
      = [hd (reduce (hash_merkle_node sha) (map (\<lambda>b. sha (event_input b)) bs))]"
    by (intro reduce_single) simp
  then have "[reduce (hash_merkle_node sha) (map (\<lambda>b. sha (event_input b)) bs) ! 0]
      = reduce (hash_merkle_node sha) (map (\<lambda>b. sha (event_input b)) bs)"
    by (metis nth_Cons_0)
  with \<open>bs \<noteq> []\<close> show ?thesis
    by (simp add: merkle_root_def merkle_loop_reduce hash_merkle_node_def [abs_def] hash_event_def comp_def)
qed

lemma verified_root:
  assumes "verify_audit_log j sha (Inr rd) dir (Some s) = Inr v"
  shows "log_bytes j rd \<noteq> [] \<and> is_merkle_root s = merkle_root sha (map (hash_event sha) (log_bytes j rd))
    \<and> (\<forall>r \<in> set (log_records j rd). to_vec_event j (er_event r) = Inr (event_bytes j r))"
  using assms verify_lines_records [of j sha "join dir AUDIT_EVENTS_FILENAME" rd]
  by (auto simp: verify_audit_log_def Let_def result_simps split: if_splits)

text \<open>
  C1. Tamper evidence: two log files that verify against the same integrity summary record the same
  events in the same order, unless two of the byte strings hashed for their Merkle trees collide under
  SHA-256.
\<close>

theorem verified_logs_agree:
  assumes "json_ok j"
    and "verify_audit_log j sha (Inr rd1) dir1 (Some s) = Inr v1"
    and "verify_audit_log j sha (Inr rd2) dir2 (Some s) = Inr v2"
    and "inj_on sha (leaf_inputs event_input merkle_node_input sha (log_bytes j rd1)
           \<union> leaf_inputs event_input merkle_node_input sha (log_bytes j rd2))"
  shows "map er_event (log_records j rd1) = map er_event (log_records j rd2)"
proof -
  note r1 = verified_root [OF assms(2)] and r2 = verified_root [OF assms(3)]
  have b: "log_bytes j rd1 = log_bytes j rd2"
    by (rule alog.leaves_inject [OF _ _ _ assms(4)])
       (use r1 r2 merkle_root_events [of "log_bytes j rd1" sha] merkle_root_events [of "log_bytes j rd2" sha] in simp_all)
  have e: "map er_event rs = map (\<lambda>b. projr (from_str_event j b)) (map (event_bytes j) rs)"
    if "\<forall>r \<in> set rs. to_vec_event j (er_event r) = Inr (event_bytes j r)" for rs
    using that assms(1) by (auto simp: json_ok_def)
  have "map er_event (log_records j rd1) = map (\<lambda>b. projr (from_str_event j b)) (log_bytes j rd1)"
    using e r1 unfolding log_bytes_def by blast
  moreover have "map er_event (log_records j rd2) = map (\<lambda>b. projr (from_str_event j b)) (log_bytes j rd2)"
    using e r2 unfolding log_bytes_def by blast
  ultimately show ?thesis by (simp only: b)
qed

section \<open>What the rollup counts\<close>

type_synonym observation = "command_policy_audit_event \<times> command_policy_outcome"

definition observe_all :: "observation list \<Rightarrow> command_policy_summary_builder" where
  "observe_all obs = foldl (\<lambda>b (event, outcome). observe event outcome b) builder_new obs"

definition n_outcomes :: "observation list \<Rightarrow> string \<Rightarrow> command_policy_outcome \<Rightarrow> nat" where
  "n_outcomes obs c outcome = length (filter (\<lambda>(e, d). cp_command e = c \<and> d = outcome) obs)"

definition n_terminal :: "observation list \<Rightarrow> nat" where
  "n_terminal obs = length (filter (\<lambda>(e, d). d \<noteq> OutcomePending) obs)"

definition counts_ok :: "observation list \<Rightarrow> command_policy_command_summary \<Rightarrow> bool" where
  "counts_ok obs e \<longleftrightarrow>
     unat (cc_allowed e) = n_outcomes obs (cc_command e) OutcomeAllowed
     \<and> unat (cc_denied e) = n_outcomes obs (cc_command e) OutcomeDenied
     \<and> unat (cc_other e) = n_outcomes obs (cc_command e) OutcomeOther"

definition rollup_inv :: "observation list \<Rightarrow> command_policy_summary_builder \<Rightarrow> bool" where
  "rollup_inv obs b \<longleftrightarrow>
     unat (sb_event_count b) = length obs \<and> unat (sb_invocation_count b) = n_terminal obs
     \<and> sorted (map cc_command (sb_commands b)) \<and> distinct (map cc_command (sb_commands b))
     \<and> length (sb_commands b) \<le> COMMAND_POLICY_SUMMARY_MAX_COMMANDS
     \<and> (\<forall>e \<in> set (sb_commands b). counts_ok obs e)
     \<and> (\<forall>(e, d) \<in> set obs. d \<noteq> OutcomePending \<longrightarrow> sb_truncated b \<or> cp_command e \<in> cc_command ` set (sb_commands b))
     \<and> (sb_truncated b \<longrightarrow> length (sb_commands b) = COMMAND_POLICY_SUMMARY_MAX_COMMANDS)"

lemma n_outcomes_le: "n_outcomes obs c d \<le> length obs" "n_terminal obs \<le> length obs"
  by (simp_all add: n_outcomes_def n_terminal_def)

lemma unat_inc: "unat w < 2 ^ 64 - 1 \<Longrightarrow> unat (sat_add w 1) = Suc (unat w)" for w :: u64
  by (simp add: unat_sat_add)

lemma counts_ok_bump:
  assumes "counts_ok obs e" "Suc (length obs) < 2 ^ 64" "cp_command event = cc_command e"
  shows "counts_ok (obs @ [(event, outcome)]) (bump outcome e)"
proof -
  have "n_outcomes obs (cc_command e) d < 2 ^ 64 - 1" for d
    using n_outcomes_le(1) [of obs "cc_command e" d] assms(2) by linarith
  then show ?thesis
    using assms(1,3) by (cases outcome) (simp_all add: counts_ok_def bump_def n_outcomes_def unat_inc)
qed

lemma counts_ok_other:
  "counts_ok obs e \<Longrightarrow> cp_command event \<noteq> cc_command e \<or> outcome = OutcomePending
    \<Longrightarrow> counts_ok (obs @ [(event, outcome)]) e"
  by (auto simp: counts_ok_def n_outcomes_def)

lemma cc_command_bump [simp]: "cc_command (bump d e) = cc_command e"
  by (cases d) (simp_all add: bump_def)

lemma map_update_command [simp]: "map cc_command (update_command c (bump d) cs) = map cc_command cs"
  by (simp add: update_command_def)

lemma rollup_inv_observe:
  assumes inv: "rollup_inv obs b" and len: "Suc (length obs) < 2 ^ 64"
  shows "rollup_inv (obs @ [(event, outcome)]) (observe event outcome b)"
proof (cases "outcome = OutcomePending")
  case True
  with inv len show ?thesis
    by (auto simp: rollup_inv_def observe_def n_terminal_def unat_inc counts_ok_other Let_def)
next
  case False
  let ?c = "cp_command event" and ?obs = "obs @ [(event, outcome)]"
  have t: "n_terminal ?obs = Suc (n_terminal obs)" using False by (simp add: n_terminal_def)
  have i: "unat (sat_add (sb_event_count b) 1) = length ?obs" "unat (sat_add (sb_invocation_count b) 1) = n_terminal ?obs"
    using inv len n_outcomes_le(2) [of obs] t by (simp_all add: rollup_inv_def unat_inc)
  consider (old) "?c \<in> cc_command ` set (sb_commands b)"
    | (full) "?c \<notin> cc_command ` set (sb_commands b)" "length (sb_commands b) = COMMAND_POLICY_SUMMARY_MAX_COMMANDS"
    | (new) "?c \<notin> cc_command ` set (sb_commands b)" "length (sb_commands b) < COMMAND_POLICY_SUMMARY_MAX_COMMANDS"
    using inv by (fastforce simp: rollup_inv_def)
  then show ?thesis
  proof cases
    case old
    have "counts_ok ?obs e" if "e \<in> set (update_command ?c (bump outcome) (sb_commands b))" for e
      using that inv len counts_ok_bump counts_ok_other [of obs _ event outcome]
      by (auto simp: rollup_inv_def update_command_def)
    moreover have "cc_command ` set (update_command ?c (bump outcome) (sb_commands b)) = cc_command ` set (sb_commands b)"
      by (metis list.set_map map_update_command)
    moreover have "length (update_command ?c (bump outcome) (sb_commands b)) = length (sb_commands b)"
      by (simp add: update_command_def)
    ultimately show ?thesis
      using old inv False i by (auto simp: rollup_inv_def observe_def Let_def)
  next
    case full
    have "counts_ok ?obs e" if "e \<in> set (sb_commands b)" for e
      using that full inv counts_ok_other [of obs e event outcome] by (force simp: rollup_inv_def)
    with full inv False i show ?thesis by (auto simp: rollup_inv_def observe_def Let_def)
  next
    case new
    let ?e = "\<lparr>cc_command = ?c, cc_allowed = 0, cc_denied = 0, cc_other = 0\<rparr>"
    have none: "\<forall>(e, d) \<in> set obs. d \<noteq> OutcomePending \<longrightarrow> cp_command e \<noteq> ?c"
      using new inv by (force simp: rollup_inv_def)
    then have "n_outcomes obs ?c d = 0" if "d \<noteq> OutcomePending" for d
      using that by (auto simp: n_outcomes_def filter_empty_conv)
    then have "counts_ok obs ?e" by (simp add: counts_ok_def)
    from counts_ok_bump [OF this len, of event outcome] have "counts_ok ?obs (bump outcome ?e)" by simp
    moreover have "counts_ok ?obs e" if "e \<in> set (sb_commands b)" for e
      using that new inv counts_ok_other [of obs e event outcome] by (force simp: rollup_inv_def)
    ultimately show ?thesis
      using new inv False i
      by (auto simp: rollup_inv_def observe_def Let_def set_insort_key sorted_insort_key distinct_insort_key)
  qed
qed

lemma rollup_inv_all: "length obs < 2 ^ 64 \<Longrightarrow> rollup_inv obs (observe_all obs)"
proof (induction obs rule: rev_induct)
  case Nil
  then show ?case by (simp add: rollup_inv_def observe_all_def builder_new_def n_terminal_def)
next
  case (snoc ob obs)
  then show ?case
    using rollup_inv_observe [of obs "observe_all obs" "fst ob" "snd ob"] by (simp add: observe_all_def case_prod_unfold)
qed

text \<open>
  C40. The rollup of command policy events refines plain counting: for any sequence of fewer than
  $2^{64}$ events it reports their number and the number of terminal ones; its entries are sorted by
  command, at most 256, and each has exactly the numbers of allowed, denied and other decisions of its
  command; unless it is marked truncated, which happens only when all 256 entries are in use, every
  command with a terminal decision has an entry.
\<close>

theorem command_policy_summary_counts:
  assumes "length obs < 2 ^ 64"
  shows "let b = observe_all obs; cs = sb_commands b in
    unat (sb_event_count b) = length obs \<and> unat (sb_invocation_count b) = n_terminal obs
    \<and> sorted (map cc_command cs) \<and> distinct (map cc_command cs) \<and> length cs \<le> 256
    \<and> (\<forall>e \<in> set cs.
          unat (cc_allowed e) = n_outcomes obs (cc_command e) OutcomeAllowed
          \<and> unat (cc_denied e) = n_outcomes obs (cc_command e) OutcomeDenied
          \<and> unat (cc_other e) = n_outcomes obs (cc_command e) OutcomeOther)
    \<and> (if sb_truncated b then length cs = 256
       else \<forall>(e, d) \<in> set obs. d \<noteq> OutcomePending \<longrightarrow> cp_command e \<in> cc_command ` set cs)"
  using rollup_inv_all [OF assms]
  by (auto simp: rollup_inv_def counts_ok_def COMMAND_POLICY_SUMMARY_MAX_COMMANDS_def Let_def)

definition demo_command_event :: "string \<Rightarrow> command_policy_audit_event" where
  "demo_command_event c =
     \<lparr>cp_timestamp = [], cp_session_id = None, cp_command = c, cp_caller = [], cp_caller_kind = None,
      cp_caller_command = None, cp_caller_pid = None, cp_shim_pid = None, cp_session_root_pid = None,
      cp_decision = [], cp_reason = None, cp_stdio_mode = [], cp_argv_hash = [], cp_env_name_hash = [],
      cp_cwd_hash = [], cp_argv_display = [], cp_env_names_display = [], cp_env_display = [],
      cp_cwd_display = [], cp_exit_code = None, cp_stdio = None\<rparr>"

theorem command_policy_summary_counts_witness:
  "unat (sb_invocation_count (observe_all
      [(demo_command_event ''git'', OutcomePending), (demo_command_event ''git'', OutcomeAllowed),
       (demo_command_event ''curl'', OutcomeDenied)])) = 2"
  using command_policy_summary_counts [of
      "[(demo_command_event ''git'', OutcomePending), (demo_command_event ''git'', OutcomeAllowed),
        (demo_command_event ''curl'', OutcomeDenied)]"]
  by (simp add: Let_def n_terminal_def)

section \<open>The end of a session\<close>

lemma run_op_ended: "ar_ended st \<Longrightarrow> run_op j sha io op st = (st, Inl (Snapshot ''Audit log is closed: session already ended''))"
  by (cases op)
     (simp_all add: run_op_def append_event_def after_append_def record_session_started_def record_session_ended_def
        record_capability_decision_def record_open_url_def record_network_event_def
        record_sandbox_runtime_event_def record_command_policy_event_def)

text \<open>
  C37. The end of a session seals the log: once \<open>record_session_ended\<close> has succeeded, every later
  operation is refused and leaves the recorder as it is, whatever operations and I/O outcomes follow, so
  the log file and the integrity summary stay those of the moment the session ended.
\<close>

theorem session_end_seals:
  assumes "record_session_ended j sha io ended code st = (st', Inr u)"
  shows "fst (run_op j sha io' op st') = st' \<and> snd (run_op j sha io' op st') \<noteq> Inr ()
    \<and> foldl (\<lambda>s (i, op). fst (run_op j sha i op s)) st' ops = st'"
proof -
  have e: "ar_ended st'"
    using assms by (auto simp: record_session_ended_def after_append_def split: prod.splits sum.splits)
  then have "foldl (\<lambda>s (i, op). fst (run_op j sha i op s)) st' ops = st'"
    by (induction ops) (simp_all add: run_op_ended case_prod_unfold)
  with e show ?thesis by (simp add: run_op_ended)
qed

section \<open>A log of one event\<close>

definition demo_event :: audit_event_payload where
  "demo_event = SessionEnded ''2026-01-01T00:00:00Z'' 0"

definition demo_record :: audit_event_record where
  "demo_record =
     \<lparr>er_sequence = 0, er_prev_chain = None, er_leaf_hash = hash_event demo_hash ''{}'',
      er_chain_hash = hash_chain demo_hash None (hash_event demo_hash ''{}''),
      er_event_json = Some ''{}'', er_event = demo_event\<rparr>"

definition demo_json :: audit_json where
  "demo_json =
     \<lparr>to_vec_event = (\<lambda>e. if e = demo_event then Inr ''{}'' else Inl ''unsupported''),
      from_str_event = (\<lambda>s. if s = ''{}'' then Inr demo_event else Inl ''syntax''),
      to_vec_record = (\<lambda>r. if r = demo_record then Inr ''[]'' else Inl ''unsupported''),
      from_str_record = (\<lambda>s. if s = ''[]'' then Inr demo_record else Inl ''syntax'')\<rparr>"

definition demo_io :: append_io where
  "demo_io = \<lparr>io_line = Written, io_newline = Written, io_flush = None\<rparr>"

definition demo_recorder :: "bool \<Rightarrow> audit_recorder" where
  "demo_recorder ended =
     \<lparr>ar_file = (if ended then ''[]'' @ [newline] else []), ar_next_sequence = (if ended then 1 else 0),
      ar_previous_chain = (if ended then Some (er_chain_hash demo_record) else None),
      ar_leaf_hashes = (if ended then [er_leaf_hash demo_record] else []),
      ar_redaction_policy = secure_default, ar_command_policy_summary = builder_new, ar_ended = ended\<rparr>"

lemma demo_json_ok: "json_ok demo_json"
proof -
  have "valid_utf8 ''{}''" "line_ok ''[]''" "trim_str ''[]'' \<noteq> []" by code_simp+
  then show ?thesis by (auto simp: json_ok_def demo_json_def)
qed

lemma demo_recorder_step:
  "record_session_ended demo_json demo_hash demo_io ''2026-01-01T00:00:00Z'' 0 (demo_recorder False)
     = (demo_recorder True, Inr ())"
proof -
  have "valid_utf8 ''{}''" by code_simp
  then show ?thesis
    by (simp add: record_session_ended_def after_append_def append_event_def demo_json_def demo_event_def [symmetric]
        demo_recorder_def demo_io_def write_line_def Let_def demo_record_def sat_add_code)
qed

theorem session_end_seals_witness:
  "fst (run_op demo_json demo_hash demo_io (Op_Started ''x'' []) (demo_recorder True)) = demo_recorder True"
  using session_end_seals [OF demo_recorder_step, of demo_io "Op_Started ''x'' []" "[]"] by simp


definition demo_summary :: audit_integrity_summary where
  "demo_summary =
     \<lparr>is_hash_algorithm = AUDIT_HASH_ALGORITHM, is_event_count = 1, is_chain_head = er_chain_hash demo_record,
      is_merkle_root = merkle_root demo_hash [er_leaf_hash demo_record]\<rparr>"

lemma demo_lines:
  "lines (file_reader (''[]'' @ [newline])) = [Inr ''[]'']"
  "lines (file_reader ([newline] @ ''[]'' @ [newline])) = [Inr [], Inr ''[]'']"
  "trim_str ''[]'' = ''[]''"
  by code_simp+

lemma demo_verify_record:
  "verify_record demo_json demo_hash n
     \<lparr>vs_previous_chain = None, vs_leaf_hashes = [], vs_chain_head = None, vs_missing_json = False\<rparr> demo_record =
   Inr \<lparr>vs_previous_chain = Some (er_chain_hash demo_record), vs_leaf_hashes = [er_leaf_hash demo_record],
        vs_chain_head = Some (er_chain_hash demo_record), vs_missing_json = False\<rparr>"
  by (simp add: verify_record_def record_event_bytes_def demo_record_def demo_json_def Let_def)

lemma demo_verify:
  assumes "lines rd = [Inr ''[]''] \<or> lines rd = [Inr [], Inr ''[]'']"
  shows "\<exists>v. verify_audit_log demo_json demo_hash (Inr rd) dir (Some demo_summary) = Inr v"
    and "log_bytes demo_json rd = [''{}'']"
proof -
  have p: "from_str_record demo_json ''[]'' = Inr demo_record" by (simp add: demo_json_def)
  show "\<exists>v. verify_audit_log demo_json demo_hash (Inr rd) dir (Some demo_summary) = Inr v"
    using assms p
    by (auto simp: verify_audit_log_def verify_lines_def verify_line_def demo_lines demo_verify_record demo_summary_def Let_def)
  have "event_bytes demo_json demo_record = ''{}''" by (simp add: event_bytes_def demo_json_def demo_record_def)
  then show "log_bytes demo_json rd = [''{}'']"
    using assms p by (auto simp: log_bytes_def log_records_def line_record_def map_filter_simps demo_lines)
qed

theorem verified_logs_agree_witness:
  "map er_event (log_records demo_json (file_reader (''[]'' @ [newline])))
     = map er_event (log_records demo_json (file_reader ([newline] @ ''[]'' @ [newline])))"
proof -
  let ?r1 = "file_reader (''[]'' @ [newline])" and ?r2 = "file_reader ([newline] @ ''[]'' @ [newline])"
  obtain v1 v2 where v: "verify_audit_log demo_json demo_hash (Inr ?r1) [] (Some demo_summary) = Inr v1"
    "verify_audit_log demo_json demo_hash (Inr ?r2) [] (Some demo_summary) = Inr v2"
    using demo_verify(1) demo_lines by metis
  have "log_bytes demo_json ?r1 = [''{}'']" "log_bytes demo_json ?r2 = [''{}'']"
    using demo_verify(2) demo_lines by blast+
  then have "inj_on demo_hash (leaf_inputs event_input merkle_node_input demo_hash (log_bytes demo_json ?r1)
      \<union> leaf_inputs event_input merkle_node_input demo_hash (log_bytes demo_json ?r2))"
    by (simp add: leaf_inputs_def tree_of_def reduce.simps)
  with verified_logs_agree [OF demo_json_ok v] show ?thesis by simp
qed

end
