(* ===== verification/Audit_Ledger.thy ===== *)
theory Audit_Ledger
  imports Audit_Log
begin

text \<open>
  The append-only session ledger of \<open>audit.rs\<close>: session digests, the append of one session to the
  ledger file and the verification of a ledger.  JSON encoding is a parameter as in the audit log.
\<close>

section \<open>Session digests\<close>

definition SESSION_DIGEST_DOMAIN_ALPHA :: string where
  "SESSION_DIGEST_DOMAIN_ALPHA = ''nono.audit.session-digest.alpha'' @ [newline]"

definition LEDGER_CHAIN_DOMAIN_ALPHA :: string where
  "LEDGER_CHAIN_DOMAIN_ALPHA = ''nono.audit.ledger.chain.alpha'' @ [newline]"

record executable_identity_digest_payload =
  ed_resolved_path :: string
  ed_sha256 :: content_hash

record session_digest_payload =
  sdp_session_id :: string
  sdp_started :: string
  sdp_ended :: "string option"
  sdp_command :: "string list"
  sdp_executable_identity :: "executable_identity_digest_payload option"
  sdp_tracked_paths :: "string list"
  sdp_snapshot_count :: u32
  sdp_exit_code :: "i32 option"
  sdp_merkle_roots :: "content_hash list"
  sdp_network_events :: "network_audit_event list"
  sdp_audit_event_count :: u64
  sdp_audit_integrity :: "audit_integrity_summary option"
  sdp_audit_attestation :: "audit_attestation_summary option"
  sdp_command_policy_summary :: "command_policy_summary option"

record ledger_record =
  lr_sequence :: u64
  lr_prev_chain :: "content_hash option"
  lr_session_id :: string
  lr_session_digest :: content_hash
  lr_completed_at :: string
  lr_chain_hash :: content_hash

record ledger_link_payload =
  lp_sequence :: u64
  lp_session_id :: string
  lp_session_digest :: content_hash
  lp_completed_at :: string

record ledger_verification_result =
  lv_hash_algorithm :: string
  lv_entry_count :: u64
  lv_session_digest :: content_hash
  lv_session_found :: bool
  lv_session_digest_matches :: bool
  lv_ledger_chain_verified :: bool
  lv_ledger_head :: "content_hash option"

record ledger_json =
  to_vec_payload :: "session_digest_payload \<Rightarrow> string + string"
  to_vec_link :: "ledger_link_payload \<Rightarrow> string + string"
  to_vec_ledger :: "ledger_record \<Rightarrow> string + string"
  from_str_ledger :: "string \<Rightarrow> string + ledger_record"

text \<open>
  What the ledger relies on: a ledger record is one line that is not blank and parses back, and the
  text of a link payload determines the payload.
\<close>

definition ledger_json_ok :: "ledger_json \<Rightarrow> bool" where
  "ledger_json_ok j \<longleftrightarrow>
     (\<forall>r b. to_vec_ledger j r = Inr b \<longrightarrow> line_ok b \<and> trim_str b \<noteq> [] \<and> from_str_ledger j b = Inr r)
     \<and> (\<forall>p q b. to_vec_link j p = Inr b \<longrightarrow> to_vec_link j q = Inr b \<longrightarrow> p = q)"

definition audit_path_bytes :: "path \<Rightarrow> string" where
  "audit_path_bytes p = p"

definition canonical_session_digest_payload :: "ledger_json \<Rightarrow> session_metadata \<Rightarrow> string res" where
  "canonical_session_digest_payload j md =
     map_err (\<lambda>e. Snapshot (''Failed to serialize session digest payload: '' @ e))
       (to_vec_payload j
         \<lparr>sdp_session_id = md_session_id md,
          sdp_started = md_started md,
          sdp_ended = md_ended md,
          sdp_command = md_command md,
          sdp_executable_identity =
            map_option (\<lambda>i. \<lparr>ed_resolved_path = audit_path_bytes (ei_resolved_path i), ed_sha256 = ei_sha256 i\<rparr>)
              (md_executable_identity md),
          sdp_tracked_paths = map audit_path_bytes (md_tracked_paths md),
          sdp_snapshot_count = md_snapshot_count md,
          sdp_exit_code = md_exit_code md,
          sdp_merkle_roots = md_merkle_roots md,
          sdp_network_events = md_network_events md,
          sdp_audit_event_count = md_audit_event_count md,
          sdp_audit_integrity = md_audit_integrity md,
          sdp_audit_attestation = md_audit_attestation md,
          sdp_command_policy_summary = md_command_policy_summary md\<rparr>)"

definition compute_session_digest :: "ledger_json \<Rightarrow> sha256 \<Rightarrow> session_metadata \<Rightarrow> content_hash res" where
  "compute_session_digest j sha md =
     and_then (canonical_session_digest_payload j md) (\<lambda>bytes.
       Inr (from_bytes (sha (SESSION_DIGEST_DOMAIN_ALPHA @ bytes))))"

definition validate_ledger_session_id :: "string \<Rightarrow> unit res" where
  "validate_ledger_session_id sid =
     (if sid \<noteq> [] \<and> length sid \<le> 64
         \<and> list_all (\<lambda>b. is_ascii_alphanumeric b \<or> b = CHR ''-'' \<or> b = CHR ''_'') sid
      then Inr ()
      else Inl (ConfigParse (''invalid audit session id: '' @ sid)))"

section \<open>Links\<close>

definition link_input :: "content_hash option \<Rightarrow> string \<Rightarrow> string" where
  "link_input previous payload_bytes =
     LEDGER_CHAIN_DOMAIN_ALPHA
     @ (case previous of Some prev \<Rightarrow> raw32 (as_bytes prev) | None \<Rightarrow> replicate 32 (CHR 0x00))
     @ payload_bytes"

definition hash_ledger_link ::
  "ledger_json \<Rightarrow> sha256 \<Rightarrow> content_hash option \<Rightarrow> u64 \<Rightarrow> string \<Rightarrow> content_hash \<Rightarrow> string \<Rightarrow> content_hash res" where
  "hash_ledger_link j sha previous sequence sid digest completed_at =
     and_then
       (map_err (\<lambda>e. Snapshot (''Failed to serialize audit ledger link payload: '' @ e))
         (to_vec_link j \<lparr>lp_sequence = sequence, lp_session_id = sid, lp_session_digest = digest,
                         lp_completed_at = completed_at\<rparr>))
       (\<lambda>payload_bytes. Inr (from_bytes (sha (link_input previous payload_bytes))))"

text \<open>Reading one line of a ledger: a blank line is skipped.\<close>

definition parse_ledger_line :: "ledger_json \<Rightarrow> nat \<times> (string + string) \<Rightarrow> ledger_record option res" where
  "parse_ledger_line j il =
     (case il of (index, l) \<Rightarrow>
        and_then (map_err (\<lambda>e. Snapshot (''Failed to read audit ledger: '' @ e)) l) (\<lambda>line.
          if trim_str line = [] then Inr None
          else map_sum (\<lambda>e. AuditLedgerCorrupt (index + 1) e) Some (from_str_ledger j line)))"

section \<open>Appending\<close>

record ledger_io =
  li_seek_start :: "string option"
  li_read_error :: "string option"
  li_seek_end :: "string option"
  li_write :: append_io

definition ledger_scan_step ::
  "ledger_json \<Rightarrow> content_hash option \<times> u64 \<Rightarrow> nat \<times> (string + string) \<Rightarrow> (content_hash option \<times> u64) res" where
  "ledger_scan_step j st il =
     and_then (parse_ledger_line j il) (\<lambda>r.
       case r of
         None \<Rightarrow> Inr st
       | Some record \<Rightarrow> Inr (Some (lr_chain_hash record), sat_add (lr_sequence record) 1))"

definition append_session_to_ledger_file ::
  "ledger_json \<Rightarrow> sha256 \<Rightarrow> ledger_io \<Rightarrow> session_metadata \<Rightarrow> string \<Rightarrow> string \<times> ledger_record res" where
  "append_session_to_ledger_file j sha io md content =
     (let prepared =
        and_then (validate_ledger_session_id (md_session_id md)) (\<lambda>_.
        and_then (case li_seek_start io of Some e \<Rightarrow> Inl (Snapshot (''Failed to seek audit ledger: '' @ e)) | None \<Rightarrow> Inr ()) (\<lambda>_.
        and_then (fold_res (ledger_scan_step j) (None, 0)
            (enumerate 0 (lines \<lparr>rd_data = content, rd_error = li_read_error io\<rparr>))) (\<lambda>(previous_chain, next_sequence).
        and_then (compute_session_digest j sha md) (\<lambda>session_digest.
        let completed_at = (case md_ended md of Some e \<Rightarrow> e | None \<Rightarrow> md_started md)
        in and_then (hash_ledger_link j sha previous_chain next_sequence (md_session_id md) session_digest completed_at)
             (\<lambda>chain_hash.
        let r = \<lparr>lr_sequence = next_sequence, lr_prev_chain = previous_chain, lr_session_id = md_session_id md,
                 lr_session_digest = session_digest, lr_completed_at = completed_at, lr_chain_hash = chain_hash\<rparr>
        in and_then (case li_seek_end io of
               Some e \<Rightarrow> Inl (Snapshot (''Failed to seek audit ledger for append: '' @ e)) | None \<Rightarrow> Inr ()) (\<lambda>_.
           map_sum (\<lambda>e. Snapshot (''Failed to serialize audit ledger record: '' @ e)) (Pair r) (to_vec_ledger j r)))))))
      in case prepared of
           Inl e \<Rightarrow> (content, Inl e)
         | Inr (r, line) \<Rightarrow>
             (case write_line (li_write io) content line of
                (content', Inl e) \<Rightarrow> (content', Inl (Snapshot (''Failed to append audit ledger record: '' @ e)))
              | (content', Inr _) \<Rightarrow> (content', Inr r)))"

section \<open>Verification\<close>

definition missing_ledger_verification_result ::
  "ledger_json \<Rightarrow> sha256 \<Rightarrow> session_metadata \<Rightarrow> ledger_verification_result res" where
  "missing_ledger_verification_result j sha md =
     and_then (compute_session_digest j sha md) (\<lambda>digest.
       Inr \<lparr>lv_hash_algorithm = AUDIT_HASH_ALGORITHM, lv_entry_count = 0, lv_session_digest = digest,
            lv_session_found = False, lv_session_digest_matches = False, lv_ledger_chain_verified = False,
            lv_ledger_head = None\<rparr>)"

record ledger_verify_state =
  ls_previous_chain :: "content_hash option"
  ls_entry_count :: u64
  ls_ledger_head :: "content_hash option"
  ls_session_found :: bool
  ls_session_digest_matches :: bool

definition verify_ledger_record ::
  "ledger_json \<Rightarrow> sha256 \<Rightarrow> session_metadata \<Rightarrow> content_hash \<Rightarrow> nat \<Rightarrow> ledger_verify_state \<Rightarrow> ledger_record
   \<Rightarrow> ledger_verify_state res" where
  "verify_ledger_record j sha md expected_digest n st r =
     (if lr_sequence r \<noteq> ls_entry_count st then Inl (at_line ''Audit ledger sequence mismatch'' n)
      else if lr_prev_chain r \<noteq> ls_previous_chain st then Inl (at_line ''Audit ledger prev_chain mismatch'' n)
      else
        and_then (hash_ledger_link j sha (ls_previous_chain st) (lr_sequence r) (lr_session_id r)
                   (lr_session_digest r) (lr_completed_at r)) (\<lambda>chain_hash.
          if chain_hash \<noteq> lr_chain_hash r then Inl (at_line ''Audit ledger chain hash mismatch'' n)
          else
            (let same = lr_session_id r = md_session_id md
             in Inr \<lparr>ls_previous_chain = Some (lr_chain_hash r),
                     ls_entry_count = sat_add (ls_entry_count st) 1,
                     ls_ledger_head = Some (lr_chain_hash r),
                     ls_session_found = (if same then True else ls_session_found st),
                     ls_session_digest_matches =
                       (if same then lr_session_digest r = expected_digest else ls_session_digest_matches st)\<rparr>)))"

definition verify_ledger_line ::
  "ledger_json \<Rightarrow> sha256 \<Rightarrow> session_metadata \<Rightarrow> content_hash \<Rightarrow> ledger_verify_state \<Rightarrow> nat \<times> (string + string)
   \<Rightarrow> ledger_verify_state res" where
  "verify_ledger_line j sha md expected_digest st il =
     and_then (parse_ledger_line j il) (\<lambda>r.
       case r of
         None \<Rightarrow> Inr st
       | Some record \<Rightarrow> verify_ledger_record j sha md expected_digest (fst il + 1) st record)"

definition ledger_start :: ledger_verify_state where
  "ledger_start =
     \<lparr>ls_previous_chain = None, ls_entry_count = 0, ls_ledger_head = None, ls_session_found = False,
      ls_session_digest_matches = False\<rparr>"

definition verify_session_in_ledger_reader ::
  "ledger_json \<Rightarrow> sha256 \<Rightarrow> reader \<Rightarrow> session_metadata \<Rightarrow> ledger_verification_result res" where
  "verify_session_in_ledger_reader j sha rd md =
     and_then (compute_session_digest j sha md) (\<lambda>expected_digest.
     and_then (fold_res (verify_ledger_line j sha md expected_digest) ledger_start (enumerate 0 (lines rd))) (\<lambda>st.
       Inr \<lparr>lv_hash_algorithm = AUDIT_HASH_ALGORITHM, lv_entry_count = ls_entry_count st,
            lv_session_digest = expected_digest, lv_session_found = ls_session_found st,
            lv_session_digest_matches = ls_session_digest_matches st, lv_ledger_chain_verified = True,
            lv_ledger_head = ls_ledger_head st\<rparr>))"

section \<open>An append keeps a verified ledger verified\<close>

definition newline_terminated :: "string \<Rightarrow> bool" where
  "newline_terminated content \<longleftrightarrow> content = [] \<or> last content = newline"

lemma newline_terminatedE:
  assumes "newline_terminated content"
  obtains segs where "content = terminated segs" "\<forall>l \<in> set segs. newline \<notin> set l"
proof -
  let ?p = "split_on newline content"
  have j: "join_with [newline] ?p = content" by simp
  have f: "\<forall>l \<in> set ?p. newline \<notin> set l" using split_on_parts [of _ newline content] by blast
  have join: "join_with [newline] (ls @ [[]]) = terminated ls" for ls
    by (induction ls) (simp_all add: join_with_Cons)
  have "last ?p = []"
  proof (rule ccontr)
    assume ne: "last ?p \<noteq> []"
    have c: "content = join_with [newline] (butlast ?p @ [last ?p])" using j by simp
    obtain q where q: "content = q @ last ?p"
    proof (cases "butlast ?p = []")
      case True
      with c that [of "[]"] show ?thesis by simp
    next
      case False
      from c have "content = join_with [newline] (butlast ?p) @ [newline] @ last ?p"
        by (simp only: join_with_snoc [OF False])
      with that [of "join_with [newline] (butlast ?p) @ [newline]"] show ?thesis by simp
    qed
    have "last content = last (last ?p)" by (rule trans [OF arg_cong [OF q, of last] last_appendR [OF ne]])
    moreover have "content \<noteq> []" using q ne by auto
    ultimately have "newline \<in> set (last ?p)" using ne assms by (metis last_in_set newline_terminated_def)
    with f show False by (metis last_in_set split_on_ne)
  qed
  then have "content = terminated (butlast ?p)" using join [of "butlast ?p"] j by (metis append_butlast_last_id split_on_ne)
  moreover have "\<forall>l \<in> set (butlast ?p). newline \<notin> set l" using f by (auto dest: in_set_butlastD)
  ultimately show thesis by (rule that)
qed

lemma lines_segments:
  assumes "\<forall>l \<in> set segs. newline \<notin> set l"
  shows "lines (file_reader (terminated segs)) = map (\<lambda>l. map_sum (\<lambda>e. e) chomp_cr (decode_line l)) segs"
  using assms by (simp add: lines_def file_reader_def split_terminated)

lemma lines_append_line:
  assumes "newline_terminated content" "line_ok l"
  shows "lines (file_reader (content @ l @ [newline])) = lines (file_reader content) @ [Inr l]"
proof -
  obtain segs where s: "content = terminated segs" "\<forall>l \<in> set segs. newline \<notin> set l"
    by (rule newline_terminatedE [OF assms(1)])
  have "content @ l @ [newline] = terminated (segs @ [l])" using s by simp
  moreover have "map_sum (\<lambda>e. e) chomp_cr (decode_line l) = Inr l"
    using assms(2) by (auto simp: line_ok_def decode_line_def chomp_cr_def)
  moreover have "\<forall>l' \<in> set (segs @ [l]). newline \<notin> set l'" using s(2) assms(2) by (auto simp: line_ok_def)
  ultimately show ?thesis using s lines_segments [of segs] lines_segments [of "segs @ [l]"] by simp
qed

text \<open>The part of the verifier's state that does not depend on the session looked for.\<close>

definition same_position :: "ledger_verify_state \<Rightarrow> ledger_verify_state \<Rightarrow> bool" where
  "same_position a b \<longleftrightarrow>
     ls_previous_chain a = ls_previous_chain b \<and> ls_entry_count a = ls_entry_count b
     \<and> ls_ledger_head a = ls_ledger_head b"

lemma verify_record_position:
  assumes "verify_ledger_record j sha md d n st r = Inr st'" "same_position st st2"
  shows "\<exists>st2'. verify_ledger_record j sha md2 d2 n2 st2 r = Inr st2' \<and> same_position st' st2'"
  using assms by (auto simp: verify_ledger_record_def same_position_def Let_def result_simps split: if_splits)

lemma verify_lines_position:
  assumes "fold_res (verify_ledger_line j sha md d) st (enumerate k ls) = Inr st'" "same_position st st2"
  shows "\<exists>st2'. fold_res (verify_ledger_line j sha md2 d2) st2 (enumerate k ls) = Inr st2' \<and> same_position st' st2'"
  using assms
proof (induction ls arbitrary: st st2 k)
  case (Cons l ls)
  then obtain st1 where 1: "verify_ledger_line j sha md d st (k, l) = Inr st1"
    and 2: "fold_res (verify_ledger_line j sha md d) st1 (enumerate (Suc k) ls) = Inr st'"
    by (cases "verify_ledger_line j sha md d st (k, l)") auto
  from 1 obtain r where r: "parse_ledger_line j (k, l) = Inr r" by (auto simp: verify_ledger_line_def result_simps)
  have "\<exists>st3. verify_ledger_line j sha md2 d2 st2 (k, l) = Inr st3 \<and> same_position st1 st3"
  proof (cases r)
    case None
    with 1 r Cons.prems(2) show ?thesis by (simp add: verify_ledger_line_def)
  next
    case (Some x)
    with 1 r verify_record_position [OF _ Cons.prems(2)] show ?thesis by (simp add: verify_ledger_line_def)
  qed
  then obtain st3 where "verify_ledger_line j sha md2 d2 st2 (k, l) = Inr st3" "same_position st1 st3" by blast
  with Cons.IH [OF 2] show ?case by simp
qed simp

lemma scan_position:
  assumes "fold_res (verify_ledger_line j sha md d) st (enumerate k ls) = Inr st'"
  shows "fold_res (ledger_scan_step j) (ls_previous_chain st, ls_entry_count st) (enumerate k ls)
    = Inr (ls_previous_chain st', ls_entry_count st')"
  using assms
proof (induction ls arbitrary: st k)
  case (Cons l ls)
  then obtain st1 where 1: "verify_ledger_line j sha md d st (k, l) = Inr st1"
    and 2: "fold_res (verify_ledger_line j sha md d) st1 (enumerate (Suc k) ls) = Inr st'"
    by (cases "verify_ledger_line j sha md d st (k, l)") auto
  from 1 obtain r where r: "parse_ledger_line j (k, l) = Inr r" by (auto simp: verify_ledger_line_def result_simps)
  have "ledger_scan_step j (ls_previous_chain st, ls_entry_count st) (k, l) = Inr (ls_previous_chain st1, ls_entry_count st1)"
    using 1 r
    by (cases r) (auto simp: verify_ledger_line_def ledger_scan_step_def verify_ledger_record_def Let_def result_simps split: if_splits)
  with Cons.IH [OF 2] show ?case by simp
qed simp

lemma map_sum_Inr: "map_sum f g r = Inr y \<longleftrightarrow> (\<exists>x. r = Inr x \<and> y = g x)"
  by (cases r) auto

lemma scan_read_error:
  assumes "fold_res (ledger_scan_step j) st (enumerate 0 (lines \<lparr>rd_data = content, rd_error = e\<rparr>)) = Inr x"
  shows "e = None"
proof (rule ccontr)
  assume "e \<noteq> None"
  then obtain m ls where "lines \<lparr>rd_data = content, rd_error = e\<rparr> = ls @ [Inl m]"
    by (auto simp: lines_def Let_def)
  with assms show False
    by (auto simp: enumerate_append_eq fold_res_append ledger_scan_step_def parse_ledger_line_def result_simps)
qed

lemma append_ok:
  assumes "append_session_to_ledger_file j sha io md content = (content', Inr r)"
    and "fold_res (ledger_scan_step j) (None, 0) (enumerate 0 (lines (file_reader content))) = Inr (prev, n)"
  obtains d l where "compute_session_digest j sha md = Inr d" "to_vec_ledger j r = Inr l"
    "content' = content @ l @ [newline]" "lr_sequence r = n" "lr_prev_chain r = prev"
    "lr_session_id r = md_session_id md" "lr_session_digest r = d"
    "hash_ledger_link j sha prev n (md_session_id md) d (lr_completed_at r) = Inr (lr_chain_hash r)"
proof -
  have "li_read_error io = None"
    using assms(1)
    by (auto simp: append_session_to_ledger_file_def Let_def result_simps map_sum_Inr split: sum.splits prod.splits intro: scan_read_error)
  then have "fold_res (ledger_scan_step j) (None, 0) (enumerate 0 (lines \<lparr>rd_data = content, rd_error = li_read_error io\<rparr>)) = Inr (prev, n)"
    using assms(2) by (simp add: file_reader_def)
  with assms(1) show thesis
    by (auto simp: append_session_to_ledger_file_def Let_def result_simps map_sum_Inr split: sum.splits prod.splits
        dest!: write_line_ok intro!: that)
qed


section \<open>The head commits to the whole ledger\<close>

definition ledger_line_record :: "ledger_json \<Rightarrow> string + string \<Rightarrow> ledger_record option" where
  "ledger_line_record j l =
     (case l of
        Inl _ \<Rightarrow> None
      | Inr line \<Rightarrow> if trim_str line = [] then None else ok_opt (from_str_ledger j line))"

definition ledger_records :: "ledger_json \<Rightarrow> reader \<Rightarrow> ledger_record list" where
  "ledger_records j rd = List.map_filter (ledger_line_record j) (lines rd)"

definition link_payload :: "ledger_record \<Rightarrow> ledger_link_payload" where
  "link_payload r =
     \<lparr>lp_sequence = lr_sequence r, lp_session_id = lr_session_id r, lp_session_digest = lr_session_digest r,
      lp_completed_at = lr_completed_at r\<rparr>"

text \<open>The byte string hashed for a record.\<close>

definition record_input :: "ledger_json \<Rightarrow> ledger_record \<Rightarrow> string" where
  "record_input j r = link_input (lr_prev_chain r) (projr (to_vec_link j (link_payload r)))"

definition chain_of :: "ledger_record list \<Rightarrow> content_hash option" where
  "chain_of rs = (if rs = [] then None else Some (lr_chain_hash (last rs)))"

text \<open>Well-formed ledgers, built from the front.\<close>

inductive wf_ledger :: "ledger_json \<Rightarrow> sha256 \<Rightarrow> ledger_record list \<Rightarrow> bool" for j sha where
  empty: "wf_ledger j sha []"
| link: "wf_ledger j sha rs \<Longrightarrow> lr_sequence r = of_nat (length rs) \<Longrightarrow> lr_prev_chain r = chain_of rs
    \<Longrightarrow> to_vec_link j (link_payload r) = Inr b \<Longrightarrow> lr_chain_hash r = from_bytes (sha (record_input j r))
    \<Longrightarrow> wf_ledger j sha (rs @ [r])"

lemma verify_record_wf:
  assumes "verify_ledger_record j sha md d n st r = Inr st'" "wf_ledger j sha rs" "length rs < 2 ^ 64 - 1"
    and "ls_previous_chain st = chain_of rs" "ls_entry_count st = of_nat (length rs)"
  shows "wf_ledger j sha (rs @ [r]) \<and> ls_previous_chain st' = chain_of (rs @ [r])
    \<and> ls_entry_count st' = of_nat (length (rs @ [r])) \<and> ls_ledger_head st' = chain_of (rs @ [r])"
proof -
  have r: "lr_sequence r = of_nat (length rs)" "lr_prev_chain r = chain_of rs"
    and st': "ls_previous_chain st' = Some (lr_chain_hash r)" "ls_ledger_head st' = Some (lr_chain_hash r)"
      "ls_entry_count st' = sat_add (of_nat (length rs)) 1"
    and h: "hash_ledger_link j sha (chain_of rs) (lr_sequence r) (lr_session_id r) (lr_session_digest r) (lr_completed_at r)
      = Inr (lr_chain_hash r)"
    using assms(1,4,5) by (auto simp: verify_ledger_record_def Let_def result_simps split: if_splits)
  from h obtain b where b: "to_vec_link j (link_payload r) = Inr b" "lr_chain_hash r = from_bytes (sha (record_input j r))"
    using r(2) by (auto simp: hash_ledger_link_def result_simps link_payload_def record_input_def)
  have "sat_add (of_nat (length rs)) 1 = (of_nat (Suc (length rs)) :: u64)"
    using assms(3) by (simp add: word_unat_eq_iff unat_sat_add unat_of_nat_u64 del: of_nat_Suc)
  with wf_ledger.link [OF assms(2) r b] st' show ?thesis by (simp add: chain_of_def)
qed

lemma verify_fold_wf:
  assumes "fold_res (verify_ledger_line j sha md d) st (enumerate k ls) = Inr st'" "wf_ledger j sha rs"
    and "length (rs @ List.map_filter (ledger_line_record j) ls) < 2 ^ 64"
    and "ls_previous_chain st = chain_of rs" "ls_entry_count st = of_nat (length rs)" "ls_ledger_head st = chain_of rs"
  shows "wf_ledger j sha (rs @ List.map_filter (ledger_line_record j) ls)
    \<and> ls_ledger_head st' = chain_of (rs @ List.map_filter (ledger_line_record j) ls)"
  using assms
proof (induction ls arbitrary: st k rs)
  case Nil
  then show ?case by (simp add: map_filter_simps)
next
  case (Cons l ls)
  then obtain st1 where 1: "verify_ledger_line j sha md d st (k, l) = Inr st1"
    and 2: "fold_res (verify_ledger_line j sha md d) st1 (enumerate (Suc k) ls) = Inr st'"
    by (cases "verify_ledger_line j sha md d st (k, l)") auto
  from 1 obtain line where l: "l = Inr line"
    by (cases l) (auto simp: verify_ledger_line_def parse_ledger_line_def)
  show ?case
  proof (cases "trim_str line = []")
    case True
    with 1 l have "st1 = st" "ledger_line_record j l = None"
      by (auto simp: verify_ledger_line_def parse_ledger_line_def ledger_line_record_def)
    with Cons.IH [OF 2, of rs] Cons.prems show ?thesis by (simp add: map_filter_simps)
  next
    case False
    with 1 l obtain r where r: "from_str_ledger j line = Inr r" "verify_ledger_record j sha md d (k + 1) st r = Inr st1"
      by (auto simp: verify_ledger_line_def parse_ledger_line_def result_simps map_sum_Inr)
    with False l have f: "ledger_line_record j l = Some r" by (simp add: ledger_line_record_def)
    then have "length rs < 2 ^ 64 - 1" using Cons.prems(3) by (simp add: map_filter_simps)
    from verify_record_wf [OF r(2) Cons.prems(2) this Cons.prems(4,5)] Cons.IH [OF 2, of "rs @ [r]"] Cons.prems(3) f
    show ?thesis by (simp add: map_filter_simps)
  qed
qed

lemma verified_wf:
  assumes "verify_session_in_ledger_reader j sha rd md = Inr v" "length (ledger_records j rd) < 2 ^ 64"
  shows "wf_ledger j sha (ledger_records j rd) \<and> lv_ledger_head v = chain_of (ledger_records j rd)"
proof -
  obtain d st where "fold_res (verify_ledger_line j sha md d) ledger_start (enumerate 0 (lines rd)) = Inr st"
    "lv_ledger_head v = ls_ledger_head st"
    using assms(1) by (auto simp: verify_session_in_ledger_reader_def result_simps)
  with verify_fold_wf [OF this(1) wf_ledger.empty] assms(2) show ?thesis
    by (simp add: ledger_records_def ledger_start_def chain_of_def)
qed

inductive_cases wf_ledger_snocE: "wf_ledger j sha (rs @ [r])"

lemma link_input_inject:
  assumes "link_input p b = link_input q c" "p = None \<longleftrightarrow> q = None"
  shows "p = q"
  using assms by (auto simp: link_input_def raw32_inject content_hash.expand split: option.splits)

lemma link_input_payload: "link_input p b = link_input q c \<Longrightarrow> b = c"
  by (auto simp: link_input_def split: option.splits)

lemma wf_ledger_commits:
  assumes "ledger_json_ok j" "wf_ledger j sha rs" "wf_ledger j sha rs'" "chain_of rs = chain_of rs'"
    and "inj_on sha (record_input j ` (set rs \<union> set rs'))" "length rs < 2 ^ 64" "length rs' < 2 ^ 64"
  shows "rs = rs'"
  using assms(2-)
proof (induction arbitrary: rs' rule: wf_ledger.induct)
  case empty
  then show ?case by (simp add: chain_of_def split: if_splits)
next
  case (link rs r b)
  from link.prems(2) have "rs' \<noteq> []" by (auto simp: chain_of_def split: if_splits)
  then obtain qs q where rs': "rs' = qs @ [q]" by (metis append_butlast_last_id)
  with link.prems(1) obtain c where q: "wf_ledger j sha qs" "lr_sequence q = of_nat (length qs)" "lr_prev_chain q = chain_of qs"
    "to_vec_link j (link_payload q) = Inr c" "lr_chain_hash q = from_bytes (sha (record_input j q))"
    by (auto elim: wf_ledger_snocE)
  have h: "lr_chain_hash r = lr_chain_hash q" using link.prems(2) rs' by (simp add: chain_of_def)
  with link.hyps(5) q(5) have "sha (record_input j r) = sha (record_input j q)" by simp
  then have i: "record_input j r = record_input j q" by (rule inj_onD [OF link.prems(3)]) (simp_all add: rs')
  then have "b = c" using link.hyps(4) q(4) by (auto simp: record_input_def dest: link_input_payload)
  then have p: "link_payload r = link_payload q" using assms(1) link.hyps(4) q(4) by (auto simp: ledger_json_ok_def)
  then have "(of_nat (length rs) :: u64) = of_nat (length qs)" using link.hyps(2) q(2) by (simp add: link_payload_def)
  then have "unat (of_nat (length rs) :: u64) = unat (of_nat (length qs) :: u64)" by (rule arg_cong)
  moreover have short: "length rs < 2 ^ 64" "length qs < 2 ^ 64" using link.prems(4,5) by (simp_all add: rs')
  ultimately have len: "length rs = length qs" by (simp only: unat_of_nat_u64)
  then have "lr_prev_chain r = None \<longleftrightarrow> lr_prev_chain q = None"
    using link.hyps(3) q(3) by (auto simp: chain_of_def)
  with i have prev: "lr_prev_chain r = lr_prev_chain q" unfolding record_input_def by (rule link_input_inject)
  have "rs = qs"
  proof (rule link.IH [OF q(1)])
    show "chain_of rs = chain_of qs" using prev link.hyps(3) q(3) by simp
    show "inj_on sha (record_input j ` (set rs \<union> set qs))"
      by (rule inj_on_subset [OF link.prems(3)]) (auto simp: rs')
  qed (rule short)+
  moreover have "r = q" using p prev h by (cases r, cases q) (simp add: link_payload_def)
  ultimately show ?case using rs' by simp
qed

text \<open>
  C6. The head of the ledger commits to its whole history: two ledgers that verify and have the same
  head hold the same records in the same order, unless SHA-256 collides on the links hashed for them.
\<close>

theorem ledger_head_commits:
  assumes "ledger_json_ok j"
    and "verify_session_in_ledger_reader j sha rd md = Inr v" "verify_session_in_ledger_reader j sha rd' md' = Inr v'"
    and "lv_ledger_head v = lv_ledger_head v'"
    and "inj_on sha (record_input j ` (set (ledger_records j rd) \<union> set (ledger_records j rd')))"
    and "length (ledger_records j rd) < 2 ^ 64" "length (ledger_records j rd') < 2 ^ 64"
  shows "ledger_records j rd = ledger_records j rd'"
  using wf_ledger_commits [OF assms(1) _ _ _ assms(5-7)] verified_wf [OF assms(2,6)] verified_wf [OF assms(3,7)] assms(4)
  by simp

section \<open>A concrete ledger\<close>

definition demo_session :: session_metadata where
  "demo_session =
     \<lparr>md_session_id = ''s1'', md_started = ''t0'', md_ended = Some ''t1'', md_command = [''ls''],
      md_executable_identity = None, md_tracked_paths = [''/w''], md_snapshot_count = 0, md_exit_code = Some 0,
      md_merkle_roots = [], md_network_events = [], md_audit_event_count = 0, md_audit_integrity = None,
      md_audit_attestation = None, md_command_policy_summary = None\<rparr>"

definition demo_digest :: content_hash where
  "demo_digest = from_bytes (demo_hash (SESSION_DIGEST_DOMAIN_ALPHA @ ''p''))"

definition demo_ledger_record :: ledger_record where
  "demo_ledger_record =
     \<lparr>lr_sequence = 0, lr_prev_chain = None, lr_session_id = ''s1'', lr_session_digest = demo_digest,
      lr_completed_at = ''t1'', lr_chain_hash = from_bytes (demo_hash (link_input None ''{}''))\<rparr>"

definition demo_ledger_json :: ledger_json where
  "demo_ledger_json =
     \<lparr>to_vec_payload = (\<lambda>p. Inr ''p''),
      to_vec_link = (\<lambda>p. if p = link_payload demo_ledger_record then Inr ''{}'' else Inl ''unsupported''),
      to_vec_ledger = (\<lambda>r. if r = demo_ledger_record then Inr ''[]'' else Inl ''unsupported''),
      from_str_ledger = (\<lambda>s. if s = ''[]'' then Inr demo_ledger_record else Inl ''syntax'')\<rparr>"

definition demo_ledger_io :: ledger_io where
  "demo_ledger_io = \<lparr>li_seek_start = None, li_read_error = None, li_seek_end = None, li_write = demo_io\<rparr>"

lemma demo_ledger_json_ok: "ledger_json_ok demo_ledger_json"
proof -
  have "line_ok ''[]''" "trim_str ''[]'' \<noteq> []" by code_simp+
  then show ?thesis by (auto simp: ledger_json_ok_def demo_ledger_json_def split: if_splits)
qed

lemma demo_session_digest: "compute_session_digest demo_ledger_json demo_hash demo_session = Inr demo_digest"
  by (simp add: compute_session_digest_def canonical_session_digest_payload_def demo_ledger_json_def demo_digest_def)

lemma demo_link:
  "hash_ledger_link demo_ledger_json demo_hash None 0 ''s1'' demo_digest ''t1'' = Inr (lr_chain_hash demo_ledger_record)"
  by (simp add: hash_ledger_link_def demo_ledger_json_def link_payload_def demo_ledger_record_def)

lemma demo_ledger_append:
  "append_session_to_ledger_file demo_ledger_json demo_hash demo_ledger_io demo_session []
     = (''[]'' @ [newline], Inr demo_ledger_record)"
proof -
  have l: "lines \<lparr>rd_data = [], rd_error = None\<rparr> = []" by code_simp
  have v: "validate_ledger_session_id ''s1'' = Inr ()" by code_simp
  have r: "\<lparr>lr_sequence = 0, lr_prev_chain = None, lr_session_id = ''s1'', lr_session_digest = demo_digest,
      lr_completed_at = ''t1'', lr_chain_hash = lr_chain_hash demo_ledger_record\<rparr> = demo_ledger_record"
    by (simp add: demo_ledger_record_def)
  have w: "write_line demo_io [] ''[]'' = (''[]'' @ [newline], Inr ())"
    by (simp add: write_line_def demo_io_def)
  have s: "md_session_id demo_session = ''s1''" "md_ended demo_session = Some ''t1''" by (simp_all add: demo_session_def)
  have j: "to_vec_ledger demo_ledger_json demo_ledger_record = Inr ''[]''" by (simp add: demo_ledger_json_def)
  show ?thesis
    by (simp add: append_session_to_ledger_file_def l v s demo_session_digest demo_link r w j demo_ledger_io_def Let_def)
qed

lemma demo_ledger_empty:
  "verify_session_in_ledger_reader demo_ledger_json demo_hash (file_reader []) demo_session
     = Inr \<lparr>lv_hash_algorithm = AUDIT_HASH_ALGORITHM, lv_entry_count = 0, lv_session_digest = demo_digest,
            lv_session_found = False, lv_session_digest_matches = False, lv_ledger_chain_verified = True,
            lv_ledger_head = None\<rparr>"
proof -
  have "lines (file_reader []) = []" by code_simp
  then show ?thesis by (simp add: verify_session_in_ledger_reader_def demo_session_digest ledger_start_def)
qed


lemma demo_ledger_fold:
  "verify_ledger_line demo_ledger_json demo_hash demo_session demo_digest ledger_start (n, Inr ''[]'')
     = Inr \<lparr>ls_previous_chain = Some (lr_chain_hash demo_ledger_record), ls_entry_count = sat_add 0 1,
            ls_ledger_head = Some (lr_chain_hash demo_ledger_record), ls_session_found = True,
            ls_session_digest_matches = True\<rparr>"
proof -
  have p: "parse_ledger_line demo_ledger_json (n, Inr ''[]'') = Inr (Some demo_ledger_record)"
    using demo_lines(3) by (simp add: parse_ledger_line_def demo_ledger_json_def)
  have f: "lr_sequence demo_ledger_record = 0" "lr_prev_chain demo_ledger_record = None"
    "lr_session_id demo_ledger_record = ''s1''" "lr_session_digest demo_ledger_record = demo_digest"
    "lr_completed_at demo_ledger_record = ''t1''" "md_session_id demo_session = ''s1''"
    by (simp_all add: demo_ledger_record_def demo_session_def)
  show ?thesis by (simp add: verify_ledger_line_def p verify_ledger_record_def f ledger_start_def demo_link)
qed

theorem ledger_head_commits_witness:
  "ledger_records demo_ledger_json (file_reader (''[]'' @ [newline]))
     = ledger_records demo_ledger_json (file_reader ([newline] @ ''[]'' @ [newline]))"
proof -
  let ?j = demo_ledger_json and ?a = "''[]'' @ [newline]"
  let ?v = "\<lparr>lv_hash_algorithm = AUDIT_HASH_ALGORITHM, lv_entry_count = sat_add 0 1, lv_session_digest = demo_digest,
    lv_session_found = True, lv_session_digest_matches = True, lv_ledger_chain_verified = True,
    lv_ledger_head = Some (lr_chain_hash demo_ledger_record)\<rparr>"
  have t: "trim_str [] = []" by code_simp
  have blank: "verify_ledger_line ?j demo_hash demo_session demo_digest ledger_start (0, Inr []) = Inr ledger_start"
    by (simp add: verify_ledger_line_def parse_ledger_line_def t)
  have l: "ledger_line_record ?j (Inr ''[]'') = Some demo_ledger_record" "ledger_line_record ?j (Inr []) = None"
    using demo_lines(3) by (simp_all add: ledger_line_record_def demo_ledger_json_def ok_opt_def t)
  have r: "ledger_records ?j (file_reader ?a) = [demo_ledger_record]"
    "ledger_records ?j (file_reader ([newline] @ ?a)) = [demo_ledger_record]"
    unfolding ledger_records_def demo_lines by (simp_all add: map_filter_simps l)
  have v: "verify_session_in_ledger_reader ?j demo_hash (file_reader ?a) demo_session = Inr ?v"
    "verify_session_in_ledger_reader ?j demo_hash (file_reader ([newline] @ ?a)) demo_session = Inr ?v"
    unfolding verify_session_in_ledger_reader_def demo_lines by (simp_all add: demo_session_digest demo_ledger_fold blank)
  have i: "inj_on demo_hash (record_input ?j ` (set [demo_ledger_record] \<union> set [demo_ledger_record]))" by simp
  have len: "length [demo_ledger_record] < 2 ^ 64" by simp
  show ?thesis
    by (rule ledger_head_commits [OF demo_ledger_json_ok v(1) v(2)]; (unfold r)?) (rule refl i len)+
qed

end
