(* ===== verification/Seccomp.thy ===== *)
theory Seccomp
  imports Capability
begin

unbundle bit_operations_syntax

named_theorems bpf_step \<open>symbolic execution of BPF programs\<close>

text \<open>
  The seccomp programs of \<open>sandbox/linux.rs\<close>.  A program is a list of classic BPF instructions with
  16-bit opcodes, 8-bit relative jumps and a 32-bit operand.  \<open>evaluate_loop\<close> is the interpreter of the
  module; a panic of the interpreter is \<^const>\<open>None\<close>.  The constants of the \<open>libc\<close> crate are a record
  parameter; the architecture dependent constants of the sources depend on \<open>target_arch\<close>.
\<close>

section \<open>Constants\<close>

datatype target_arch = X86_64 | Aarch64

record libc =
  SYS_SOCKET :: u32
  SYS_SOCKETPAIR :: u32
  SYS_CONNECT :: u32
  SYS_BIND :: u32
  SYS_SENDTO :: u32
  SYS_SENDMSG :: u32
  SYS_SENDMMSG :: u32
  SYS_IO_URING_SETUP :: u32
  SYS_IO_URING_ENTER :: u32
  SYS_IO_URING_REGISTER :: u32
  AF_UNIX :: u32
  AF_INET :: u32
  AF_INET6 :: u32
  SOCK_STREAM :: u32
  IPPROTO_TCP :: u32
  EPERM :: u32
  EACCES :: u32
  O_ACCMODE :: u32
  O_RDONLY :: u32
  O_WRONLY :: u32

abbreviation BPF_LD :: u16 where "BPF_LD \<equiv> 0x00"
abbreviation BPF_ALU :: u16 where "BPF_ALU \<equiv> 0x04"
abbreviation BPF_W :: u16 where "BPF_W \<equiv> 0x00"
abbreviation BPF_ABS :: u16 where "BPF_ABS \<equiv> 0x20"
abbreviation BPF_JMP :: u16 where "BPF_JMP \<equiv> 0x05"
abbreviation BPF_JEQ :: u16 where "BPF_JEQ \<equiv> 0x10"
abbreviation BPF_JSET :: u16 where "BPF_JSET \<equiv> 0x40"
abbreviation BPF_AND :: u16 where "BPF_AND \<equiv> 0x50"
abbreviation BPF_K :: u16 where "BPF_K \<equiv> 0x00"
abbreviation BPF_RET :: u16 where "BPF_RET \<equiv> 0x06"

definition SECCOMP_RET_ERRNO :: u32 where "SECCOMP_RET_ERRNO = 0x00050000"
definition SECCOMP_RET_USER_NOTIF :: u32 where "SECCOMP_RET_USER_NOTIF = 0x7fc00000"
definition SECCOMP_RET_ALLOW :: u32 where "SECCOMP_RET_ALLOW = 0x7fff0000"

definition SECCOMP_RET_IO_URING_DENIED :: "libc \<Rightarrow> u32" where
  "SECCOMP_RET_IO_URING_DENIED c = SECCOMP_RET_ERRNO OR EPERM c"

abbreviation SECCOMP_DATA_ARCH_OFFSET :: u32 where "SECCOMP_DATA_ARCH_OFFSET \<equiv> 4"
definition X32_SYSCALL_BIT :: u32 where "X32_SYSCALL_BIT = 0x40000000"

fun NATIVE_AUDIT_ARCH :: "target_arch \<Rightarrow> u32" where
  "NATIVE_AUDIT_ARCH X86_64 = 0xc000003e"
| "NATIVE_AUDIT_ARCH Aarch64 = 0xc00000b7"

fun SYS_OPENAT :: "target_arch \<Rightarrow> u32" where
  "SYS_OPENAT X86_64 = 257"
| "SYS_OPENAT Aarch64 = 56"

fun SYS_OPENAT2 :: "target_arch \<Rightarrow> u32" where
  "SYS_OPENAT2 X86_64 = 437"
| "SYS_OPENAT2 Aarch64 = 437"


abbreviation SECCOMP_DATA_NR_OFFSET :: u32 where "SECCOMP_DATA_NR_OFFSET \<equiv> 0"
abbreviation SECCOMP_DATA_ARG0_OFFSET :: u32 where "SECCOMP_DATA_ARG0_OFFSET \<equiv> 16"
abbreviation SECCOMP_DATA_ARG1_OFFSET :: u32 where "SECCOMP_DATA_ARG1_OFFSET \<equiv> 24"
abbreviation SECCOMP_DATA_ARG2_OFFSET :: u32 where "SECCOMP_DATA_ARG2_OFFSET \<equiv> 32"
definition SOCK_TYPE_MASK :: u32 where "SOCK_TYPE_MASK = 0xf"

definition OPENAT2_HOW_SIZE_MAX :: u64 where "OPENAT2_HOW_SIZE_MAX = 4096"

section \<open>Arguments of open calls\<close>

definition classify_access_from_flags :: "libc \<Rightarrow> u32 \<Rightarrow> access_mode" where
  "classify_access_from_flags c flags =
     (let m = flags AND O_ACCMODE c
      in if m = O_RDONLY c then Read else if m = O_WRONLY c then Write else ReadWrite)"

text \<open>\<open>struct open_how\<close> is three 64-bit words.\<close>

definition validate_openat2_size :: "u64 \<Rightarrow> bool" where
  "validate_openat2_size how_size \<longleftrightarrow> 24 \<le> how_size \<and> how_size \<le> OPENAT2_HOW_SIZE_MAX"

section \<open>Instructions and their interpreter\<close>

record sock_filter_insn =
  si_code :: u16
  si_jt :: u8
  si_jf :: u8
  si_k :: u32

definition insn :: "u16 \<Rightarrow> u8 \<Rightarrow> u8 \<Rightarrow> u32 \<Rightarrow> sock_filter_insn" where
  "insn code jt jf k = \<lparr>si_code = code, si_jt = jt, si_jf = jf, si_k = k\<rparr>"

type_synonym bpf = "sock_filter_insn list"

text \<open>The words of \<open>seccomp_data\<close> a program can load; every other offset panics.\<close>

definition seccomp_load :: "u32 \<Rightarrow> u32 \<Rightarrow> u64 list \<Rightarrow> u32 \<Rightarrow> u32 option" where
  "seccomp_load arch nr args k =
     (if k = SECCOMP_DATA_NR_OFFSET then Some nr
      else if k = SECCOMP_DATA_ARCH_OFFSET then Some arch
      else if k = SECCOMP_DATA_ARG0_OFFSET then Some (ucast (args ! 0))
      else if k = SECCOMP_DATA_ARG1_OFFSET then Some (ucast (args ! 1))
      else if k = SECCOMP_DATA_ARG2_OFFSET then Some (ucast (args ! 2))
      else None)"

function evaluate_loop :: "bpf \<Rightarrow> u32 \<Rightarrow> u32 \<Rightarrow> u64 list \<Rightarrow> u32 \<Rightarrow> nat \<Rightarrow> u32 option" where
  "evaluate_loop prog arch nr args accumulator pc =
     (if pc < length prog then
        (let i = prog ! pc
         in if si_code i = BPF_LD OR BPF_W OR BPF_ABS then
              (case seccomp_load arch nr args (si_k i) of
                 None \<Rightarrow> None
               | Some a \<Rightarrow> evaluate_loop prog arch nr args a (pc + 1))
            else if si_code i = BPF_ALU OR BPF_AND OR BPF_K then
              evaluate_loop prog arch nr args (accumulator AND si_k i) (pc + 1)
            else if si_code i = BPF_JMP OR BPF_JEQ OR BPF_K then
              evaluate_loop prog arch nr args accumulator
                (pc + unat (if accumulator = si_k i then si_jt i else si_jf i) + 1)
            else if si_code i = BPF_JMP OR BPF_JSET OR BPF_K then
              evaluate_loop prog arch nr args accumulator
                (pc + unat (if accumulator AND si_k i \<noteq> 0 then si_jt i else si_jf i) + 1)
            else if si_code i = BPF_RET OR BPF_K then Some (si_k i)
            else None)
      else None)"
  by pat_completeness auto
termination by (relation "measure (\<lambda>(prog, _, _, _, _, pc). length prog - pc)") auto

declare evaluate_loop.simps [simp del]

definition evaluate_static_bpf_with_arch :: "bpf \<Rightarrow> u32 \<Rightarrow> u32 \<Rightarrow> u64 list \<Rightarrow> u32 option" where
  "evaluate_static_bpf_with_arch prog arch nr args = evaluate_loop prog arch nr args 0 0"

section \<open>The architecture guard\<close>

definition seccomp_arch_guard :: "target_arch \<Rightarrow> u32 \<Rightarrow> bpf" where
  "seccomp_arch_guard t mismatch_action =
     [insn (BPF_LD OR BPF_W OR BPF_ABS) 0 0 SECCOMP_DATA_ARCH_OFFSET,
      insn (BPF_JMP OR BPF_JEQ OR BPF_K) 1 0 (NATIVE_AUDIT_ARCH t),
      insn (BPF_RET OR BPF_K) 0 0 mismatch_action,
      insn (BPF_LD OR BPF_W OR BPF_ABS) 0 0 SECCOMP_DATA_NR_OFFSET,
      insn (BPF_JMP OR BPF_JSET OR BPF_K) 0 1 X32_SYSCALL_BIT,
      insn (BPF_RET OR BPF_K) 0 0 mismatch_action]"

definition prepend_seccomp_arch_guard :: "target_arch \<Rightarrow> bpf \<Rightarrow> u32 \<Rightarrow> bpf" where
  "prepend_seccomp_arch_guard t tail mismatch_action = seccomp_arch_guard t mismatch_action @ tail"

definition prepend_seccomp_arch_guard_vec :: "target_arch \<Rightarrow> bpf \<Rightarrow> u32 \<Rightarrow> bpf" where
  "prepend_seccomp_arch_guard_vec t tail mismatch_action = seccomp_arch_guard t mismatch_action @ tail"

section \<open>The programs\<close>

definition build_seccomp_openat_notify_filter :: "target_arch \<Rightarrow> bpf" where
  "build_seccomp_openat_notify_filter t =
    prepend_seccomp_arch_guard t
     [insn (BPF_LD OR BPF_W OR BPF_ABS) 0 0 SECCOMP_DATA_NR_OFFSET,
      insn (BPF_JMP OR BPF_JEQ OR BPF_K) 2 0 (SYS_OPENAT t),
      insn (BPF_JMP OR BPF_JEQ OR BPF_K) 1 0 (SYS_OPENAT2 t),
      insn (BPF_RET OR BPF_K) 0 0 SECCOMP_RET_ALLOW,
      insn (BPF_RET OR BPF_K) 0 0 SECCOMP_RET_USER_NOTIF]
     SECCOMP_RET_ALLOW"

definition build_seccomp_block_network_filter :: "target_arch \<Rightarrow> libc \<Rightarrow> bpf" where
  "build_seccomp_block_network_filter t c =
   (let errno_ret = SECCOMP_RET_ERRNO OR EPERM c in
    prepend_seccomp_arch_guard t
     [insn (BPF_LD OR BPF_W OR BPF_ABS) 0 0 SECCOMP_DATA_NR_OFFSET,
      insn (BPF_JMP OR BPF_JEQ OR BPF_K) 4 0 (SYS_SOCKET c),
      insn (BPF_JMP OR BPF_JEQ OR BPF_K) 3 0 (SYS_SOCKETPAIR c),
      insn (BPF_JMP OR BPF_JEQ OR BPF_K) 1 0 (SYS_IO_URING_SETUP c),
      insn (BPF_RET OR BPF_K) 0 0 SECCOMP_RET_ALLOW,
      insn (BPF_RET OR BPF_K) 0 0 errno_ret,
      insn (BPF_LD OR BPF_W OR BPF_ABS) 0 0 SECCOMP_DATA_ARG0_OFFSET,
      insn (BPF_JMP OR BPF_JEQ OR BPF_K) 1 0 (AF_UNIX c),
      insn (BPF_RET OR BPF_K) 0 0 errno_ret,
      insn (BPF_RET OR BPF_K) 0 0 SECCOMP_RET_ALLOW]
     errno_ret)"

definition build_seccomp_tcp_only_network_filter :: "target_arch \<Rightarrow> libc \<Rightarrow> bpf" where
  "build_seccomp_tcp_only_network_filter t c =
   (let errno_ret = SECCOMP_RET_ERRNO OR EPERM c in
    prepend_seccomp_arch_guard t
     [insn (BPF_LD OR BPF_W OR BPF_ABS) 0 0 SECCOMP_DATA_NR_OFFSET,
      insn (BPF_JMP OR BPF_JEQ OR BPF_K) 4 0 (SYS_SOCKET c),
      insn (BPF_JMP OR BPF_JEQ OR BPF_K) 16 0 (SYS_SOCKETPAIR c),
      insn (BPF_JMP OR BPF_JEQ OR BPF_K) 1 0 (SYS_IO_URING_SETUP c),
      insn (BPF_RET OR BPF_K) 0 0 SECCOMP_RET_ALLOW,
      insn (BPF_RET OR BPF_K) 0 0 errno_ret,
      insn (BPF_LD OR BPF_W OR BPF_ABS) 0 0 SECCOMP_DATA_ARG0_OFFSET,
      insn (BPF_JMP OR BPF_JEQ OR BPF_K) 14 0 (AF_UNIX c),
      insn (BPF_JMP OR BPF_JEQ OR BPF_K) 2 0 (AF_INET c),
      insn (BPF_JMP OR BPF_JEQ OR BPF_K) 1 0 (AF_INET6 c),
      insn (BPF_RET OR BPF_K) 0 0 errno_ret,
      insn (BPF_LD OR BPF_W OR BPF_ABS) 0 0 SECCOMP_DATA_ARG1_OFFSET,
      insn (BPF_ALU OR BPF_AND OR BPF_K) 0 0 SOCK_TYPE_MASK,
      insn (BPF_JMP OR BPF_JEQ OR BPF_K) 1 0 (SOCK_STREAM c),
      insn (BPF_RET OR BPF_K) 0 0 errno_ret,
      insn (BPF_LD OR BPF_W OR BPF_ABS) 0 0 SECCOMP_DATA_ARG2_OFFSET,
      insn (BPF_JMP OR BPF_JEQ OR BPF_K) 5 0 0,
      insn (BPF_JMP OR BPF_JEQ OR BPF_K) 4 0 (IPPROTO_TCP c),
      insn (BPF_RET OR BPF_K) 0 0 errno_ret,
      insn (BPF_LD OR BPF_W OR BPF_ABS) 0 0 SECCOMP_DATA_ARG0_OFFSET,
      insn (BPF_JMP OR BPF_JEQ OR BPF_K) 1 0 (AF_UNIX c),
      insn (BPF_RET OR BPF_K) 0 0 errno_ret,
      insn (BPF_RET OR BPF_K) 0 0 SECCOMP_RET_ALLOW]
     errno_ret)"

definition build_seccomp_proxy_filter :: "target_arch \<Rightarrow> libc \<Rightarrow> bool \<Rightarrow> bpf" where
  "build_seccomp_proxy_filter t c has_bind_ports =
   (let errno_ret = SECCOMP_RET_ERRNO OR EACCES c; bind_action = SECCOMP_RET_USER_NOTIF in
    prepend_seccomp_arch_guard_vec t
     [insn (BPF_LD OR BPF_W OR BPF_ABS) 0 0 SECCOMP_DATA_NR_OFFSET,
      insn (BPF_JMP OR BPF_JEQ OR BPF_K) 11 0 (SYS_SOCKET c),
      insn (BPF_JMP OR BPF_JEQ OR BPF_K) 18 0 (SYS_CONNECT c),
      insn (BPF_JMP OR BPF_JEQ OR BPF_K) 18 0 (SYS_BIND c),
      insn (BPF_JMP OR BPF_JEQ OR BPF_K) 13 0 (SYS_SOCKETPAIR c),
      insn (BPF_JMP OR BPF_JEQ OR BPF_K) 17 0 (SYS_SENDTO c),
      insn (BPF_JMP OR BPF_JEQ OR BPF_K) 16 0 (SYS_SENDMSG c),
      insn (BPF_JMP OR BPF_JEQ OR BPF_K) 15 0 (SYS_SENDMMSG c),
      insn (BPF_JMP OR BPF_JEQ OR BPF_K) 3 0 (SYS_IO_URING_SETUP c),
      insn (BPF_JMP OR BPF_JEQ OR BPF_K) 2 0 (SYS_IO_URING_ENTER c),
      insn (BPF_JMP OR BPF_JEQ OR BPF_K) 1 0 (SYS_IO_URING_REGISTER c),
      insn (BPF_RET OR BPF_K) 0 0 SECCOMP_RET_ALLOW,
      insn (BPF_RET OR BPF_K) 0 0 (SECCOMP_RET_IO_URING_DENIED c),
      insn (BPF_LD OR BPF_W OR BPF_ABS) 0 0 SECCOMP_DATA_ARG0_OFFSET,
      insn (BPF_JMP OR BPF_JEQ OR BPF_K) 17 0 (AF_UNIX c),
      insn (BPF_JMP OR BPF_JEQ OR BPF_K) 8 0 (AF_INET c),
      insn (BPF_JMP OR BPF_JEQ OR BPF_K) 7 0 (AF_INET6 c),
      insn (BPF_RET OR BPF_K) 0 0 errno_ret,
      insn (BPF_LD OR BPF_W OR BPF_ABS) 0 0 SECCOMP_DATA_ARG0_OFFSET,
      insn (BPF_JMP OR BPF_JEQ OR BPF_K) 12 0 (AF_UNIX c),
      insn (BPF_RET OR BPF_K) 0 0 errno_ret,
      insn (BPF_RET OR BPF_K) 0 0 SECCOMP_RET_USER_NOTIF,
      insn (BPF_RET OR BPF_K) 0 0 bind_action,
      insn (BPF_RET OR BPF_K) 0 0 SECCOMP_RET_USER_NOTIF,
      insn (BPF_LD OR BPF_W OR BPF_ABS) 0 0 SECCOMP_DATA_ARG1_OFFSET,
      insn (BPF_ALU OR BPF_AND OR BPF_K) 0 0 SOCK_TYPE_MASK,
      insn (BPF_JMP OR BPF_JEQ OR BPF_K) 1 0 (SOCK_STREAM c),
      insn (BPF_RET OR BPF_K) 0 0 errno_ret,
      insn (BPF_LD OR BPF_W OR BPF_ABS) 0 0 SECCOMP_DATA_ARG2_OFFSET,
      insn (BPF_JMP OR BPF_JEQ OR BPF_K) 2 0 0,
      insn (BPF_JMP OR BPF_JEQ OR BPF_K) 1 0 (IPPROTO_TCP c),
      insn (BPF_RET OR BPF_K) 0 0 errno_ret,
      insn (BPF_RET OR BPF_K) 0 0 SECCOMP_RET_ALLOW]
     errno_ret)"

definition build_seccomp_af_unix_filter :: "target_arch \<Rightarrow> libc \<Rightarrow> bpf" where
  "build_seccomp_af_unix_filter t c =
   (let errno_ret = SECCOMP_RET_ERRNO OR EACCES c in
    prepend_seccomp_arch_guard_vec t
     [insn (BPF_LD OR BPF_W OR BPF_ABS) 0 0 SECCOMP_DATA_NR_OFFSET,
      insn (BPF_JMP OR BPF_JEQ OR BPF_K) 9 0 (SYS_CONNECT c),
      insn (BPF_JMP OR BPF_JEQ OR BPF_K) 8 0 (SYS_BIND c),
      insn (BPF_JMP OR BPF_JEQ OR BPF_K) 7 0 (SYS_SENDTO c),
      insn (BPF_JMP OR BPF_JEQ OR BPF_K) 6 0 (SYS_SENDMSG c),
      insn (BPF_JMP OR BPF_JEQ OR BPF_K) 5 0 (SYS_SENDMMSG c),
      insn (BPF_JMP OR BPF_JEQ OR BPF_K) 3 0 (SYS_IO_URING_SETUP c),
      insn (BPF_JMP OR BPF_JEQ OR BPF_K) 2 0 (SYS_IO_URING_ENTER c),
      insn (BPF_JMP OR BPF_JEQ OR BPF_K) 1 0 (SYS_IO_URING_REGISTER c),
      insn (BPF_RET OR BPF_K) 0 0 SECCOMP_RET_ALLOW,
      insn (BPF_RET OR BPF_K) 0 0 (SECCOMP_RET_IO_URING_DENIED c),
      insn (BPF_RET OR BPF_K) 0 0 SECCOMP_RET_USER_NOTIF]
     errno_ret)"

definition with_openat_notifications :: "target_arch \<Rightarrow> libc \<Rightarrow> bpf \<Rightarrow> bpf" where
  "with_openat_notifications t c self =
   (let prog =
     [insn (BPF_LD OR BPF_W OR BPF_ABS) 0 0 SECCOMP_DATA_NR_OFFSET,
      insn (BPF_JMP OR BPF_JEQ OR BPF_K) 1 0 (SYS_OPENAT t),
      insn (BPF_JMP OR BPF_JEQ OR BPF_K) 0 1 (SYS_OPENAT2 t),
      insn (BPF_RET OR BPF_K) 0 0 SECCOMP_RET_USER_NOTIF]
      @ self
    in prepend_seccomp_arch_guard_vec t prog (SECCOMP_RET_ERRNO OR EPERM c))"

text \<open>The notification programs that can be prepared, as the public interface composes them.\<close>

definition prepare_seccomp_proxy_filter :: "target_arch \<Rightarrow> libc \<Rightarrow> bool \<Rightarrow> bpf" where
  "prepare_seccomp_proxy_filter t c has_bind_ports = build_seccomp_proxy_filter t c has_bind_ports"

definition prepare_seccomp_af_unix_filter :: "target_arch \<Rightarrow> libc \<Rightarrow> bpf" where
  "prepare_seccomp_af_unix_filter t c = build_seccomp_af_unix_filter t c"

definition prepare_seccomp_openat_filter :: "target_arch \<Rightarrow> bpf" where
  "prepare_seccomp_openat_filter t = build_seccomp_openat_notify_filter t"

section \<open>Evaluation of composed programs\<close>

text \<open>One step of the interpreter, by opcode; jumps are relative, so a prefix does not matter.\<close>

lemma evaluate_loop_append:
  "evaluate_loop (pre @ f) arch nr args a (length pre + pc) = evaluate_loop f arch nr args a pc"
proof (induction "length f - pc" arbitrary: a pc rule: less_induct)
  case less
  show ?case
  proof (cases "pc < length f")
    case True
    then have IH: "evaluate_loop (pre @ f) arch nr args a' (Suc (length pre + (pc + n))) = evaluate_loop f arch nr args a' (Suc (pc + n))" for a' n
      using less [of "Suc (pc + n)" a'] by simp
    have "(pre @ f) ! (length pre + pc) = f ! pc" by simp
    with True show ?thesis
      using IH [of _ 0] IH
      by (subst (1 2) evaluate_loop.simps) (simp add: Let_def add.assoc split: option.split)
  next
    case False
    then show ?thesis by (subst (1 2) evaluate_loop.simps) simp
  qed
qed

lemma evaluate_loop_drop:
  "pc \<le> length f \<Longrightarrow> evaluate_loop f arch nr args a pc = evaluate_loop (drop pc f) arch nr args a 0"
  using evaluate_loop_append [of "take pc f" "drop pc f" arch nr args a 0] by simp

lemma evaluate_loop_jump:
  "evaluate_loop (i # f) arch nr args a (Suc n) = evaluate_loop (drop n f) arch nr args a 0"
proof (cases "n \<le> length f")
  case True
  then show ?thesis using evaluate_loop_drop [of "Suc n" "i # f" arch nr args a] by simp
next
  case False
  then show ?thesis by (subst (1 2) evaluate_loop.simps) simp
qed

lemma bpf_ld [bpf_step]:
  "evaluate_loop (insn 0x20 jt jf k # f) arch nr args a 0 =
     (case seccomp_load arch nr args k of None \<Rightarrow> None | Some a' \<Rightarrow> evaluate_loop f arch nr args a' 0)"
  by (subst evaluate_loop.simps) (simp add: insn_def evaluate_loop_jump split: option.split)

lemma bpf_and [bpf_step]:
  "evaluate_loop (insn 0x54 jt jf k # f) arch nr args a 0 = evaluate_loop f arch nr args (a AND k) 0"
  by (subst evaluate_loop.simps) (simp add: insn_def evaluate_loop_jump)

lemma bpf_jeq [bpf_step]:
  "evaluate_loop (insn 0x15 jt jf k # f) arch nr args a 0 =
     (if a = k then evaluate_loop (drop (unat jt) f) arch nr args a 0 else evaluate_loop (drop (unat jf) f) arch nr args a 0)"
  by (subst evaluate_loop.simps) (simp add: insn_def evaluate_loop_jump)

lemma bpf_jset [bpf_step]:
  "evaluate_loop (insn 0x45 jt jf k # f) arch nr args a 0 =
     (if a AND k \<noteq> 0 then evaluate_loop (drop (unat jt) f) arch nr args a 0 else evaluate_loop (drop (unat jf) f) arch nr args a 0)"
  by (subst evaluate_loop.simps) (simp add: insn_def evaluate_loop_jump)

lemma bpf_ret [bpf_step]:
  "evaluate_loop (insn 0x06 jt jf k # f) arch nr args a 0 = Some k"
  by (subst evaluate_loop.simps) (simp add: insn_def)

lemma bpf_load [bpf_step]:
  "seccomp_load arch nr args SECCOMP_DATA_NR_OFFSET = Some nr"
  "seccomp_load arch nr args SECCOMP_DATA_ARCH_OFFSET = Some arch"
  "seccomp_load arch nr args SECCOMP_DATA_ARG0_OFFSET = Some (ucast (args ! 0))"
  "seccomp_load arch nr args SECCOMP_DATA_ARG1_OFFSET = Some (ucast (args ! 1))"
  "seccomp_load arch nr args SECCOMP_DATA_ARG2_OFFSET = Some (ucast (args ! 2))"
  by (simp_all add: seccomp_load_def)

text \<open>A system call made through the native interface of the target.\<close>

definition native :: "target_arch \<Rightarrow> u32 \<Rightarrow> u32 \<Rightarrow> bool" where
  "native t arch nr \<longleftrightarrow> arch = NATIVE_AUDIT_ARCH t \<and> nr AND X32_SYSCALL_BIT = 0"

lemma guard_evaluate [bpf_step]:
  "evaluate_loop (seccomp_arch_guard t m @ f) arch nr args a 0 =
     (if native t arch nr then evaluate_loop f arch nr args nr 0 else Some m)"
  by (simp add: seccomp_arch_guard_def native_def bpf_step)

lemmas bpf_program =
  evaluate_static_bpf_with_arch_def prepend_seccomp_arch_guard_def prepend_seccomp_arch_guard_vec_def Let_def

section \<open>Decisions of the programs\<close>

text \<open>
  The sockets that a process confined to TCP may create: any Unix socket, and a stream socket of the
  Internet families whose protocol is the default or TCP.  Only the low 32 bits of an argument count,
  and of the type only the base type.
\<close>

definition tcp_or_unix :: "libc \<Rightarrow> u64 list \<Rightarrow> bool" where
  "tcp_or_unix c args \<longleftrightarrow>
     (let family = ucast (args ! 0); type = ucast (args ! 1) AND SOCK_TYPE_MASK; protocol = ucast (args ! 2)
      in family = AF_UNIX c
         \<or> ((family = AF_INET c \<or> family = AF_INET6 c) \<and> type = SOCK_STREAM c \<and> (protocol = 0 \<or> protocol = IPPROTO_TCP c)))"

lemma block_network_evaluate:
  "evaluate_static_bpf_with_arch (build_seccomp_block_network_filter t c) arch nr args = Some
     (if \<not> native t arch nr then SECCOMP_RET_ERRNO OR EPERM c
      else if nr = SYS_SOCKET c \<or> nr = SYS_SOCKETPAIR c then
        (if ucast (args ! 0) = AF_UNIX c then SECCOMP_RET_ALLOW else SECCOMP_RET_ERRNO OR EPERM c)
      else if nr = SYS_IO_URING_SETUP c then SECCOMP_RET_ERRNO OR EPERM c
      else SECCOMP_RET_ALLOW)"
  by (simp add: build_seccomp_block_network_filter_def bpf_program bpf_step)

lemma tcp_only_evaluate:
  "evaluate_static_bpf_with_arch (build_seccomp_tcp_only_network_filter t c) arch nr args = Some
     (if \<not> native t arch nr then SECCOMP_RET_ERRNO OR EPERM c
      else if nr = SYS_SOCKET c then
        (if tcp_or_unix c args then SECCOMP_RET_ALLOW else SECCOMP_RET_ERRNO OR EPERM c)
      else if nr = SYS_SOCKETPAIR c then
        (if ucast (args ! 0) = AF_UNIX c then SECCOMP_RET_ALLOW else SECCOMP_RET_ERRNO OR EPERM c)
      else if nr = SYS_IO_URING_SETUP c then SECCOMP_RET_ERRNO OR EPERM c
      else SECCOMP_RET_ALLOW)"
  by (simp add: build_seccomp_tcp_only_network_filter_def bpf_program bpf_step tcp_or_unix_def)

lemma proxy_evaluate:
  "evaluate_static_bpf_with_arch (build_seccomp_proxy_filter t c has_bind_ports) arch nr args = Some
     (if \<not> native t arch nr then SECCOMP_RET_ERRNO OR EACCES c
      else if nr = SYS_SOCKET c then
        (if tcp_or_unix c args then SECCOMP_RET_ALLOW else SECCOMP_RET_ERRNO OR EACCES c)
      else if nr = SYS_CONNECT c \<or> nr = SYS_BIND c then SECCOMP_RET_USER_NOTIF
      else if nr = SYS_SOCKETPAIR c then
        (if ucast (args ! 0) = AF_UNIX c then SECCOMP_RET_ALLOW else SECCOMP_RET_ERRNO OR EACCES c)
      else if nr \<in> {SYS_SENDTO c, SYS_SENDMSG c, SYS_SENDMMSG c} then SECCOMP_RET_USER_NOTIF
      else if nr \<in> {SYS_IO_URING_SETUP c, SYS_IO_URING_ENTER c, SYS_IO_URING_REGISTER c}
        then SECCOMP_RET_ERRNO OR EPERM c
      else SECCOMP_RET_ALLOW)"
  by (simp add: build_seccomp_proxy_filter_def bpf_program bpf_step tcp_or_unix_def SECCOMP_RET_IO_URING_DENIED_def)

lemma af_unix_evaluate:
  "evaluate_static_bpf_with_arch (build_seccomp_af_unix_filter t c) arch nr args = Some
     (if \<not> native t arch nr then SECCOMP_RET_ERRNO OR EACCES c
      else if nr \<in> {SYS_CONNECT c, SYS_BIND c, SYS_SENDTO c, SYS_SENDMSG c, SYS_SENDMMSG c} then SECCOMP_RET_USER_NOTIF
      else if nr \<in> {SYS_IO_URING_SETUP c, SYS_IO_URING_ENTER c, SYS_IO_URING_REGISTER c}
        then SECCOMP_RET_ERRNO OR EPERM c
      else SECCOMP_RET_ALLOW)"
  by (simp add: build_seccomp_af_unix_filter_def bpf_program bpf_step SECCOMP_RET_IO_URING_DENIED_def)

text \<open>
  The block-network program: foreign system call interfaces and \<open>io_uring_setup\<close> are denied, sockets
  and socket pairs are allowed exactly for the Unix family, everything else is allowed.
\<close>

theorem block_network_decision:
  "evaluate_static_bpf_with_arch (build_seccomp_block_network_filter t c) arch nr args = Some
     (if \<not> native t arch nr then SECCOMP_RET_ERRNO OR EPERM c
      else if nr = SYS_SOCKET c \<or> nr = SYS_SOCKETPAIR c then
        (if ucast (args ! 0) = AF_UNIX c then SECCOMP_RET_ALLOW else SECCOMP_RET_ERRNO OR EPERM c)
      else if nr = SYS_IO_URING_SETUP c then SECCOMP_RET_ERRNO OR EPERM c
      else SECCOMP_RET_ALLOW)"
  by (rule block_network_evaluate)

text \<open>
  The TCP-only program: as the block-network program, but Internet sockets are allowed exactly when
  they are TCP streams.
\<close>

theorem tcp_only_decision:
  "evaluate_static_bpf_with_arch (build_seccomp_tcp_only_network_filter t c) arch nr args = Some
     (if \<not> native t arch nr then SECCOMP_RET_ERRNO OR EPERM c
      else if nr = SYS_SOCKET c then
        (if tcp_or_unix c args then SECCOMP_RET_ALLOW else SECCOMP_RET_ERRNO OR EPERM c)
      else if nr = SYS_SOCKETPAIR c then
        (if ucast (args ! 0) = AF_UNIX c then SECCOMP_RET_ALLOW else SECCOMP_RET_ERRNO OR EPERM c)
      else if nr = SYS_IO_URING_SETUP c then SECCOMP_RET_ERRNO OR EPERM c
      else SECCOMP_RET_ALLOW)"
  by (rule tcp_only_evaluate)

text \<open>
  C9. The proxy-only program sends every connect, bind and send to the supervisor, allows sockets exactly
  when they are Unix or TCP, and denies the three \<open>io_uring\<close> calls and foreign interfaces.
\<close>

theorem proxy_filter_decision:
  "evaluate_static_bpf_with_arch (build_seccomp_proxy_filter t c has_bind_ports) arch nr args = Some
     (if \<not> native t arch nr then SECCOMP_RET_ERRNO OR EACCES c
      else if nr = SYS_SOCKET c then
        (if tcp_or_unix c args then SECCOMP_RET_ALLOW else SECCOMP_RET_ERRNO OR EACCES c)
      else if nr = SYS_CONNECT c \<or> nr = SYS_BIND c then SECCOMP_RET_USER_NOTIF
      else if nr = SYS_SOCKETPAIR c then
        (if ucast (args ! 0) = AF_UNIX c then SECCOMP_RET_ALLOW else SECCOMP_RET_ERRNO OR EACCES c)
      else if nr \<in> {SYS_SENDTO c, SYS_SENDMSG c, SYS_SENDMMSG c} then SECCOMP_RET_USER_NOTIF
      else if nr \<in> {SYS_IO_URING_SETUP c, SYS_IO_URING_ENTER c, SYS_IO_URING_REGISTER c}
        then SECCOMP_RET_ERRNO OR EPERM c
      else SECCOMP_RET_ALLOW)"
  by (rule proxy_evaluate)

text \<open>
  The program for mediation of Unix sockets sends every connect, bind and send to the supervisor, and
  denies the three \<open>io_uring\<close> calls and foreign interfaces.
\<close>

theorem af_unix_filter_decision:
  "evaluate_static_bpf_with_arch (build_seccomp_af_unix_filter t c) arch nr args = Some
     (if \<not> native t arch nr then SECCOMP_RET_ERRNO OR EACCES c
      else if nr \<in> {SYS_CONNECT c, SYS_BIND c, SYS_SENDTO c, SYS_SENDMSG c, SYS_SENDMMSG c} then SECCOMP_RET_USER_NOTIF
      else if nr \<in> {SYS_IO_URING_SETUP c, SYS_IO_URING_ENTER c, SYS_IO_URING_REGISTER c}
        then SECCOMP_RET_ERRNO OR EPERM c
      else SECCOMP_RET_ALLOW)"
  by (rule af_unix_evaluate)

lemma openat_notify_evaluate:
  "evaluate_loop (build_seccomp_openat_notify_filter t) arch nr args a 0 = Some
     (if native t arch nr \<and> nr \<in> {SYS_OPENAT t, SYS_OPENAT2 t} then SECCOMP_RET_USER_NOTIF else SECCOMP_RET_ALLOW)"
  by (simp add: build_seccomp_openat_notify_filter_def bpf_program bpf_step)

section \<open>Prepared notification programs\<close>

text \<open>The programs a caller can prepare and combine.\<close>

inductive prepared :: "target_arch \<Rightarrow> libc \<Rightarrow> bpf \<Rightarrow> bool" for t c where
  proxy: "prepared t c (prepare_seccomp_proxy_filter t c has_bind_ports)"
| af_unix: "prepared t c (prepare_seccomp_af_unix_filter t c)"
| openat: "prepared t c (prepare_seccomp_openat_filter t)"
| combined: "prepared t c f \<Longrightarrow> prepared t c (with_openat_notifications t c f)"

lemma guarded_accumulator:
  "evaluate_loop (seccomp_arch_guard t m @ f) arch nr args a 0 = evaluate_loop (seccomp_arch_guard t m @ f) arch nr args b 0"
  by (simp only: guard_evaluate)

lemma prepared_guarded:
  assumes "prepared t c f"
  obtains m g where "f = seccomp_arch_guard t m @ g"
    "m \<in> {SECCOMP_RET_ERRNO OR EACCES c, SECCOMP_RET_ERRNO OR EPERM c, SECCOMP_RET_ALLOW}"
  using assms
  by (cases rule: prepared.cases)
    (auto simp: prepare_seccomp_proxy_filter_def prepare_seccomp_af_unix_filter_def prepare_seccomp_openat_filter_def
      build_seccomp_proxy_filter_def build_seccomp_af_unix_filter_def build_seccomp_openat_notify_filter_def
      with_openat_notifications_def bpf_program)

lemma prepared_accumulator:
  assumes "prepared t c f"
  shows "evaluate_loop f arch nr args a 0 = evaluate_static_bpf_with_arch f arch nr args"
  using assms unfolding evaluate_static_bpf_with_arch_def by (metis prepared_guarded guarded_accumulator)

lemma with_openat_evaluate:
  assumes "prepared t c f"
  shows "evaluate_static_bpf_with_arch (with_openat_notifications t c f) arch nr args =
     (if \<not> native t arch nr then Some (SECCOMP_RET_ERRNO OR EPERM c)
      else if nr \<in> {SYS_OPENAT t, SYS_OPENAT2 t} then Some SECCOMP_RET_USER_NOTIF
      else evaluate_static_bpf_with_arch f arch nr args)"
proof -
  have "evaluate_loop f arch nr args nr 0 = evaluate_static_bpf_with_arch f arch nr args"
    by (rule prepared_accumulator [OF assms])
  then show ?thesis
    by (subst evaluate_static_bpf_with_arch_def)
      (simp add: with_openat_notifications_def prepend_seccomp_arch_guard_vec_def bpf_step)
qed

text \<open>
  C26. Adding file notifications to a prepared program keeps the decisions of the program on every other
  native system call: the relative jumps of the embedded program stay valid.
\<close>

theorem with_openat_decision:
  assumes "prepared t c f"
  shows "evaluate_static_bpf_with_arch (with_openat_notifications t c f) arch nr args =
     (if \<not> native t arch nr then Some (SECCOMP_RET_ERRNO OR EPERM c)
      else if nr \<in> {SYS_OPENAT t, SYS_OPENAT2 t} then Some SECCOMP_RET_USER_NOTIF
      else evaluate_static_bpf_with_arch f arch nr args)"
  by (rule with_openat_evaluate [OF assms])

text \<open>
  C27. Every prepared program returns: on every architecture, system call and arguments the interpreter
  ends with one of four actions and never leaves the program.
\<close>

theorem prepared_returns:
  assumes "prepared t c f"
  shows "\<exists>action \<in> {SECCOMP_RET_ALLOW, SECCOMP_RET_USER_NOTIF, SECCOMP_RET_ERRNO OR EPERM c, SECCOMP_RET_ERRNO OR EACCES c}.
    evaluate_static_bpf_with_arch f arch nr args = Some action"
  using assms
proof induction
  case (proxy b)
  then show ?case unfolding prepare_seccomp_proxy_filter_def by (simp add: proxy_evaluate)
next
  case af_unix
  then show ?case unfolding prepare_seccomp_af_unix_filter_def by (simp add: af_unix_evaluate)
next
  case openat
  then show ?case
    unfolding prepare_seccomp_openat_filter_def evaluate_static_bpf_with_arch_def by (simp add: openat_notify_evaluate)
next
  case (combined f)
  then show ?case by (simp add: with_openat_evaluate)
qed

section \<open>Choice of the network filter\<close>

datatype seccomp_net_fallback = FallbackNone | FallbackBlockAll | FallbackProxyOnly u16 "u16 list"

datatype static_network_filter = FilterNone | FilterBlockAll | FilterTcpOnly

datatype seccomp_tcp_network = TcpFallback | TcpBaseline | TcpExternal | TcpExternalWithBaseline

datatype tcp_network_enforcement =
  LandlockOnly | AutoSeccompFallback | SeccompBaseline | ExternalTcp | ExternalWithBaseline

record seccomp_opts =
  tcp_network :: seccomp_tcp_network

definition opts_network_fallback :: seccomp_opts where "opts_network_fallback = \<lparr>tcp_network = TcpFallback\<rparr>"
definition opts_network_baseline :: seccomp_opts where "opts_network_baseline = \<lparr>tcp_network = TcpBaseline\<rparr>"
definition opts_external_tcp :: seccomp_opts where "opts_external_tcp = \<lparr>tcp_network = TcpExternal\<rparr>"
definition opts_external_tcp_with_baseline :: seccomp_opts where
  "opts_external_tcp_with_baseline = \<lparr>tcp_network = TcpExternalWithBaseline\<rparr>"
definition opts_preinstalled_tcp_filter :: seccomp_opts where "opts_preinstalled_tcp_filter = \<lparr>tcp_network = TcpExternal\<rparr>"
definition opts_default :: seccomp_opts where "opts_default = opts_network_fallback"

definition handles_tcp :: "tcp_network_enforcement \<Rightarrow> bool" where
  "handles_tcp n \<longleftrightarrow> \<not> (n = ExternalTcp \<or> n = ExternalWithBaseline)"

definition allows_seccomp_fallback :: "tcp_network_enforcement \<Rightarrow> bool" where
  "allows_seccomp_fallback n \<longleftrightarrow> n = AutoSeccompFallback \<or> n = SeccompBaseline"

definition installs_static_baseline :: "tcp_network_enforcement \<Rightarrow> bool" where
  "installs_static_baseline n \<longleftrightarrow> n = SeccompBaseline \<or> n = ExternalWithBaseline"

fun enforcement_of :: "seccomp_tcp_network \<Rightarrow> tcp_network_enforcement" where
  "enforcement_of TcpFallback = AutoSeccompFallback"
| "enforcement_of TcpBaseline = SeccompBaseline"
| "enforcement_of TcpExternal = ExternalTcp"
| "enforcement_of TcpExternalWithBaseline = ExternalWithBaseline"

definition seccomp_network_fallback_mode :: "capability_set \<Rightarrow> seccomp_net_fallback" where
  "seccomp_network_fallback_mode caps =
     (case network_mode caps of
        Blocked \<Rightarrow>
          if tcp_connect_ports caps = [] \<and> tcp_bind_ports caps = [] \<and> localhost_ports caps = []
             \<and> localhost_port_ranges caps = []
          then FallbackBlockAll else FallbackNone
      | ProxyOnly port bind_ports \<Rightarrow> FallbackProxyOnly port bind_ports
      | AllowAll \<Rightarrow> FallbackNone)"

definition static_network_baseline_filter :: "capability_set \<Rightarrow> static_network_filter" where
  "static_network_baseline_filter caps =
     (case network_mode caps of
        Blocked \<Rightarrow>
          if tcp_connect_ports caps = [] \<and> tcp_bind_ports caps = [] \<and> localhost_ports caps = []
             \<and> localhost_port_ranges caps = []
          then FilterBlockAll else FilterTcpOnly
      | ProxyOnly _ _ \<Rightarrow> FilterTcpOnly
      | AllowAll \<Rightarrow> if tcp_connect_ports caps = [] \<and> tcp_bind_ports caps = [] then FilterNone else FilterTcpOnly)"

definition selected_static_network_filter ::
  "tcp_network_enforcement \<Rightarrow> capability_set \<Rightarrow> seccomp_net_fallback \<Rightarrow> static_network_filter" where
  "selected_static_network_filter n caps fallback =
     (if fallback = FallbackBlockAll then FilterBlockAll
      else if n = ExternalWithBaseline then FilterTcpOnly
      else if installs_static_baseline n then static_network_baseline_filter caps
      else FilterNone)"

text \<open>The program a selected filter installs.\<close>

definition static_network_program :: "target_arch \<Rightarrow> libc \<Rightarrow> static_network_filter \<Rightarrow> bpf option" where
  "static_network_program t c selected =
     (case selected of
        FilterNone \<Rightarrow> None
      | FilterBlockAll \<Rightarrow> Some (build_seccomp_block_network_filter t c)
      | FilterTcpOnly \<Rightarrow> Some (build_seccomp_tcp_only_network_filter t c))"

text \<open>
  C38. With the static baseline requested, every restricted network policy gets a program that refuses each
  socket which is neither a Unix socket nor TCP, and \<open>io_uring_setup\<close>; a policy that blocks the network
  without port exceptions refuses all but Unix sockets.
\<close>

theorem baseline_confines_sockets:
  assumes "network_mode caps \<noteq> AllowAll"
  shows "\<exists>f. static_network_program t c (selected_static_network_filter SeccompBaseline caps fallback) = Some f
    \<and> (\<forall>arch nr args. nr \<in> {SYS_SOCKET c, SYS_SOCKETPAIR c} \<and> \<not> tcp_or_unix c args \<or> nr = SYS_IO_URING_SETUP c \<and> nr \<notin> {SYS_SOCKET c, SYS_SOCKETPAIR c}
         \<longrightarrow> evaluate_static_bpf_with_arch f arch nr args = Some (SECCOMP_RET_ERRNO OR EPERM c))
    \<and> (seccomp_network_fallback_mode caps = FallbackBlockAll \<longrightarrow>
         (\<forall>arch nr args. nr \<in> {SYS_SOCKET c, SYS_SOCKETPAIR c} \<and> ucast (args ! 0) \<noteq> AF_UNIX c
            \<longrightarrow> evaluate_static_bpf_with_arch f arch nr args = Some (SECCOMP_RET_ERRNO OR EPERM c)))"
proof -
  have u: "\<not> tcp_or_unix c args \<Longrightarrow> ucast (args ! 0) \<noteq> AF_UNIX c" for args by (auto simp: tcp_or_unix_def Let_def)
  show ?thesis
    using assms u
    by (cases "network_mode caps")
      (auto simp: selected_static_network_filter_def static_network_baseline_filter_def installs_static_baseline_def
        seccomp_network_fallback_mode_def static_network_program_def block_network_evaluate tcp_only_evaluate)
qed

section \<open>Concrete constants\<close>

definition linux_x86_64 :: libc where
  "linux_x86_64 =
     \<lparr>SYS_SOCKET = 41, SYS_SOCKETPAIR = 53, SYS_CONNECT = 42, SYS_BIND = 49, SYS_SENDTO = 44, SYS_SENDMSG = 46,
      SYS_SENDMMSG = 307, SYS_IO_URING_SETUP = 425, SYS_IO_URING_ENTER = 426, SYS_IO_URING_REGISTER = 427,
      AF_UNIX = 1, AF_INET = 2, AF_INET6 = 10, SOCK_STREAM = 1, IPPROTO_TCP = 6, EPERM = 1, EACCES = 13,
      O_ACCMODE = 3, O_RDONLY = 0, O_WRONLY = 1\<rparr>"

theorem with_openat_decision_witness:
  "evaluate_static_bpf_with_arch
     (with_openat_notifications X86_64 linux_x86_64 (prepare_seccomp_af_unix_filter X86_64 linux_x86_64)) 0xc000003e 42 [] =
     evaluate_static_bpf_with_arch (prepare_seccomp_af_unix_filter X86_64 linux_x86_64) 0xc000003e 42 []"
  using with_openat_decision [OF prepared.af_unix [of X86_64 linux_x86_64], of "0xc000003e" 42 "[]"]
  by (simp add: native_def X32_SYSCALL_BIT_def)

theorem prepared_returns_witness:
  "\<exists>action. evaluate_static_bpf_with_arch (prepare_seccomp_openat_filter X86_64) 0xc000003e 257 [] = Some action"
  using prepared_returns [OF prepared.openat [of X86_64 linux_x86_64], of "0xc000003e" 257 "[]"] by blast

theorem baseline_confines_sockets_witness:
  "\<exists>f. static_network_program X86_64 linux_x86_64
        (selected_static_network_filter SeccompBaseline (block_network new_caps) FallbackNone) = Some f
     \<and> evaluate_static_bpf_with_arch f 0xc000003e 41 [2, 2, 0] = Some (SECCOMP_RET_ERRNO OR 1)"
proof -
  have "network_mode (block_network new_caps) \<noteq> AllowAll" by (simp add: block_network_def)
  moreover have "\<not> tcp_or_unix linux_x86_64 [2, 2, 0]" by (simp add: tcp_or_unix_def linux_x86_64_def SOCK_TYPE_MASK_def)
  ultimately show ?thesis
    using baseline_confines_sockets [of "block_network new_caps" X86_64 linux_x86_64 FallbackNone]
    by (auto simp: linux_x86_64_def )
qed

end
