(* ===== verification/Landlock.thy ===== *)
theory Landlock
  imports Seccomp
begin

text \<open>
  The Landlock backend of \<open>sandbox/linux.rs\<close>: ABI levels and their features, the translation of
  capabilities into path and port rules, the prepared sandbox and its application.  A set of flags
  (\<open>BitFlags\<close>) is a HOL set.  Which flags an ABI level knows is decided by the \<open>landlock\<close> crate and is
  the parameter \<open>landlock_crate\<close>; opened files, rule set calls and system calls are outcomes given as
  parameters.
\<close>

section \<open>ABI levels\<close>

datatype abi = V1 | V2 | V3 | V4 | V5 | V6 | V7 | V8 | V9

fun abi_version_string :: "abi \<Rightarrow> string" where
  "abi_version_string V1 = ''V1''"
| "abi_version_string V2 = ''V2''"
| "abi_version_string V3 = ''V3''"
| "abi_version_string V4 = ''V4''"
| "abi_version_string V5 = ''V5''"
| "abi_version_string V6 = ''V6''"
| "abi_version_string V7 = ''V7''"
| "abi_version_string V8 = ''V8''"
| "abi_version_string V9 = ''V9''"

text \<open>The cast \<open>abi as u32\<close>, by which levels are also compared.\<close>

fun abi_number :: "abi \<Rightarrow> nat" where
  "abi_number V1 = 1"
| "abi_number V2 = 2"
| "abi_number V3 = 3"
| "abi_number V4 = 4"
| "abi_number V5 = 5"
| "abi_number V6 = 6"
| "abi_number V7 = 7"
| "abi_number V8 = 8"
| "abi_number V9 = 9"

lemma abi_number_inject [simp]: "abi_number a = abi_number b \<longleftrightarrow> a = b"
  by (cases a; cases b) simp_all

instantiation abi :: linorder
begin

definition less_eq_abi :: "abi \<Rightarrow> abi \<Rightarrow> bool" where
  "less_eq_abi a b \<longleftrightarrow> abi_number a \<le> abi_number b"

definition less_abi :: "abi \<Rightarrow> abi \<Rightarrow> bool" where
  "less_abi a b \<longleftrightarrow> abi_number a < abi_number b"

instance
  by standard (auto simp: less_eq_abi_def less_abi_def)

end

datatype access_fs =
  Fs_Execute | Fs_WriteFile | Fs_ReadFile | Fs_ReadDir | Fs_RemoveDir | Fs_RemoveFile | Fs_MakeChar | Fs_MakeDir
| Fs_MakeReg | Fs_MakeSock | Fs_MakeFifo | Fs_MakeBlock | Fs_MakeSym | Fs_Refer | Fs_Truncate | Fs_IoctlDev
| Fs_ResolveUnix

datatype access_net = Net_BindTcp | Net_ConnectTcp

datatype scope = Scope_AbstractUnixSocket | Scope_Signal

record landlock_crate =
  fs_from_all :: "abi \<Rightarrow> access_fs set"
  fs_from_file :: "abi \<Rightarrow> access_fs set"
  net_from_all :: "abi \<Rightarrow> access_net set"
  scope_from_all :: "abi \<Rightarrow> scope set"

text \<open>
  What the \<open>landlock\<close> crate documents of these sets: the rights that apply to a file, the network
  rights from level 4 and the scopes from level 6 on.
\<close>

definition file_rights :: "access_fs set" where
  "file_rights = {Fs_Execute, Fs_WriteFile, Fs_ReadFile, Fs_Truncate, Fs_IoctlDev, Fs_ResolveUnix}"

definition landlock_crate_ok :: "landlock_crate \<Rightarrow> bool" where
  "landlock_crate_ok lc \<longleftrightarrow>
     (\<forall>a. fs_from_file lc a = fs_from_all lc a \<inter> file_rights)
     \<and> (\<forall>a. net_from_all lc a = (if V4 \<le> a then {Net_BindTcp, Net_ConnectTcp} else {}))
     \<and> (\<forall>a. scope_from_all lc a = (if V6 \<le> a then {Scope_AbstractUnixSocket, Scope_Signal} else {}))"

definition has_refer :: "landlock_crate \<Rightarrow> abi \<Rightarrow> bool" where
  "has_refer lc a \<longleftrightarrow> Fs_Refer \<in> fs_from_all lc a"

definition has_truncate :: "landlock_crate \<Rightarrow> abi \<Rightarrow> bool" where
  "has_truncate lc a \<longleftrightarrow> Fs_Truncate \<in> fs_from_all lc a"

definition has_execute :: "abi \<Rightarrow> bool" where
  "has_execute a \<longleftrightarrow> V3 \<le> a"

definition has_network :: "landlock_crate \<Rightarrow> abi \<Rightarrow> bool" where
  "has_network lc a \<longleftrightarrow> net_from_all lc a \<noteq> {}"

definition has_ioctl_dev :: "landlock_crate \<Rightarrow> abi \<Rightarrow> bool" where
  "has_ioctl_dev lc a \<longleftrightarrow> Fs_IoctlDev \<in> fs_from_all lc a"

definition has_scoping :: "landlock_crate \<Rightarrow> abi \<Rightarrow> bool" where
  "has_scoping lc a \<longleftrightarrow> scope_from_all lc a \<noteq> {}"

definition has_audit_log_flags :: "abi \<Rightarrow> bool" where
  "has_audit_log_flags a \<longleftrightarrow> V7 \<le> a"

definition has_tsync :: "abi \<Rightarrow> bool" where
  "has_tsync a \<longleftrightarrow> V8 \<le> a"

definition has_resolve_unix :: "landlock_crate \<Rightarrow> abi \<Rightarrow> bool" where
  "has_resolve_unix lc a \<longleftrightarrow> Fs_ResolveUnix \<in> fs_from_all lc a"

definition MAX_ENFORCED_ABI :: abi where
  "MAX_ENFORCED_ABI = V6"

definition enforced_abi :: "abi \<Rightarrow> abi" where
  "enforced_abi a = min a MAX_ENFORCED_ABI"

definition NOT_YET_ENFORCED :: string where
  "NOT_YET_ENFORCED = ''[detected, not yet enforced by nono]''"

definition feature_names :: "landlock_crate \<Rightarrow> abi \<Rightarrow> string list" where
  "feature_names lc a =
     [''Basic filesystem access control'']
     @ (if has_refer lc a then [''File rename across directories (Refer)''] else [])
     @ (if has_truncate lc a then [''File truncation (Truncate)''] else [])
     @ (if has_network lc a then [''TCP network filtering''] else [])
     @ (if has_ioctl_dev lc a then [''Device ioctl filtering''] else [])
     @ (if has_scoping lc a then [''Signal and abstract UNIX socket scoping''] else [])
     @ (if has_audit_log_flags a then [''Audit logging flags '' @ NOT_YET_ENFORCED] else [])
     @ (if has_tsync a then [''All-thread enforcement (TSYNC) '' @ NOT_YET_ENFORCED] else [])
     @ (if has_resolve_unix lc a then [''Pathname UNIX socket control (ResolveUnix) '' @ NOT_YET_ENFORCED] else [])"

definition ABI_PROBE_ORDER :: "abi list" where
  "ABI_PROBE_ORDER = [V9, V8, V7, V6, V5, V4, V3, V2, V1]"

fun probe_loop :: "(abi \<Rightarrow> string option) \<Rightarrow> abi list \<Rightarrow> string option \<Rightarrow> abi res" where
  "probe_loop probe [] last_error =
     Inl (SandboxInit (''No supported Landlock ABI detected''
       @ (case last_error of Some e \<Rightarrow> '' (last error: '' @ e @ '')'' | None \<Rightarrow> [])))"
| "probe_loop probe (a # as) last_error =
     (case probe a of
        None \<Rightarrow> Inr a
      | Some err \<Rightarrow> probe_loop probe as (Some (''ABI '' @ abi_version_string a @ '': '' @ err)))"

definition detect_abi_with :: "u32 option \<Rightarrow> (abi \<Rightarrow> string option) \<Rightarrow> abi res" where
  "detect_abi_with kernel_version probe =
     (case kernel_version of
        None \<Rightarrow> Inl (SandboxInit ''No supported Landlock ABI detected (kernel ABI version query failed)'')
      | Some v \<Rightarrow> probe_loop probe (filter (\<lambda>a. abi_number a \<le> unat v) ABI_PROBE_ORDER) None)"

section \<open>Scopes\<close>

definition requested_scopes :: "landlock_crate \<Rightarrow> capability_set \<Rightarrow> abi \<Rightarrow> scope set res" where
  "requested_scopes lc caps a =
     and_then
       (case signal_mode caps of
          SignalAllowAll \<Rightarrow> Inr {}
        | SignalIsolated \<Rightarrow> Inr (if has_scoping lc a then {Scope_Signal} else {})
        | SignalAllowSameSandbox \<Rightarrow>
            if \<not> has_scoping lc a
            then Inl (SandboxInit (''SignalMode::AllowSameSandbox requires Landlock ABI V6+ ''
                   @ ''(LANDLOCK_SCOPE_SIGNAL), but this kernel does not support process scoping.''))
            else Inr {Scope_Signal})
       (\<lambda>scopes. Inr (scopes \<union> (if ipc_mode caps = SharedMemoryOnly \<and> has_scoping lc a then {Scope_AbstractUnixSocket} else {})))"

record landlock_scope_policy =
  sp_abi_version :: string
  sp_scoping_supported :: bool
  sp_signal_requested :: bool
  sp_signal_enforced :: bool
  sp_abstract_unix_socket_requested :: bool
  sp_abstract_unix_socket_enforced :: bool

definition landlock_scope_policy_with_abi :: "landlock_crate \<Rightarrow> capability_set \<Rightarrow> abi \<Rightarrow> landlock_scope_policy res" where
  "landlock_scope_policy_with_abi lc caps a =
     and_then (requested_scopes lc caps a) (\<lambda>scopes.
       Inr \<lparr>sp_abi_version = abi_version_string a,
            sp_scoping_supported = has_scoping lc a,
            sp_signal_requested = (signal_mode caps \<noteq> SignalAllowAll),
            sp_signal_enforced = (Scope_Signal \<in> scopes),
            sp_abstract_unix_socket_requested = (ipc_mode caps = SharedMemoryOnly),
            sp_abstract_unix_socket_enforced = (Scope_AbstractUnixSocket \<in> scopes)\<rparr>)"

section \<open>Path rules\<close>

record landlock_access =
  la_effective :: "access_fs set"
  la_dropped :: "access_fs set"

definition read_rights :: "access_fs set" where
  "read_rights = {Fs_ReadFile, Fs_ReadDir, Fs_Execute}"

definition write_rights :: "access_fs set" where
  "write_rights =
     {Fs_WriteFile, Fs_MakeChar, Fs_MakeDir, Fs_MakeReg, Fs_MakeSock, Fs_MakeFifo, Fs_MakeBlock, Fs_MakeSym,
      Fs_RemoveFile, Fs_RemoveDir, Fs_Refer, Fs_Truncate}"

definition supported_access :: "landlock_crate \<Rightarrow> access_fs set \<Rightarrow> abi \<Rightarrow> landlock_access" where
  "supported_access lc desired a =
     \<lparr>la_effective = desired \<inter> fs_from_all lc a, la_dropped = desired - fs_from_all lc a\<rparr>"

fun access_to_landlock :: "landlock_crate \<Rightarrow> access_mode \<Rightarrow> abi \<Rightarrow> landlock_access" where
  "access_to_landlock lc Read a = supported_access lc read_rights a"
| "access_to_landlock lc Write a = supported_access lc write_rights a"
| "access_to_landlock lc ReadWrite a =
     (let read = supported_access lc read_rights a; write = supported_access lc write_rights a
      in \<lparr>la_effective = la_effective read \<union> la_effective write, la_dropped = la_dropped read \<union> la_dropped write\<rparr>)"

record inode_metadata =
  im_is_dir :: bool
  im_is_char_device :: bool
  im_is_block_device :: bool

definition normalize_path_access ::
  "landlock_crate \<Rightarrow> fs_capability \<Rightarrow> inode_metadata \<Rightarrow> abi \<Rightarrow> landlock_access res" where
  "normalize_path_access lc cap md a =
     (if fc_is_file cap = im_is_dir md
      then Inl (if fc_is_file cap then ExpectedFile (fc_resolved cap) else ExpectedDirectory (fc_resolved cap))
      else
        (let result = access_to_landlock lc (fc_access cap) a;
             result = (if \<not> im_is_dir md
                       then result\<lparr>la_effective := la_effective result \<inter> fs_from_file lc a\<rparr> else result);
             is_device = im_is_char_device md \<or> im_is_block_device md;
             is_device_directory = im_is_dir md \<and> path_starts_with (fc_resolved cap) ''/dev''
         in Inr (if Fs_IoctlDev \<in> fs_from_all lc a \<and> (fc_access cap = Write \<or> fc_access cap = ReadWrite)
                    \<and> (is_device \<or> is_device_directory)
                 then result\<lparr>la_effective := insert Fs_IoctlDev (la_effective result)\<rparr> else result)))"

text \<open>Opening a path, inspecting the descriptor and duplicating it.\<close>

record rule_io =
  ri_open :: "path \<Rightarrow> string + int"
  ri_metadata :: "int \<Rightarrow> string + inode_metadata"
  ri_dup_above_stdio :: "int \<Rightarrow> string + int"

definition open_path_rule :: "landlock_crate \<Rightarrow> rule_io \<Rightarrow> fs_capability \<Rightarrow> abi \<Rightarrow> (int \<times> landlock_access) res" where
  "open_path_rule lc io cap a =
     and_then (map_err (\<lambda>e. SandboxInit (''Cannot open Landlock rule path '' @ fc_resolved cap @ '': '' @ e))
                (ri_open io (fc_resolved cap))) (\<lambda>fd.
     and_then (map_err (\<lambda>e. SandboxInit (''Cannot inspect opened Landlock rule path '' @ fc_resolved cap @ '': '' @ e))
                (ri_metadata io fd)) (\<lambda>md.
     and_then (normalize_path_access lc cap md a) (\<lambda>access. Inr (fd, access))))"

definition move_fd_above_stdio :: "rule_io \<Rightarrow> int \<Rightarrow> string + int" where
  "move_fd_above_stdio io fd = (if 3 \<le> fd then Inr fd else ri_dup_above_stdio io fd)"

section \<open>The prepared sandbox\<close>

record ruleset_attr =
  handled_access_fs :: "access_fs set"
  handled_access_net :: "access_net set"
  scoped :: "scope set"

record prepared_path_rule =
  pr_path_fd :: int
  pr_allowed_access :: "access_fs set"

record prepared_net_rule =
  nr_port :: u16
  nr_allowed_access :: "access_net set"

record prepared_landlock_sandbox =
  pl_attr :: ruleset_attr
  pl_path_rules :: "prepared_path_rule list"
  pl_net_rules :: "prepared_net_rule list"
  pl_static_network_filter :: static_network_filter
  pl_fallback :: seccomp_net_fallback

definition net_rule :: "access_net \<Rightarrow> u16 \<Rightarrow> prepared_net_rule" where
  "net_rule access port = \<lparr>nr_port = port, nr_allowed_access = {access}\<rparr>"

text \<open>The inclusive range \<open>start..=end\<close>.\<close>

definition port_range :: "u16 \<Rightarrow> u16 \<Rightarrow> u16 list" where
  "port_range start fin = map of_nat [unat start ..< Suc (unat fin)]"

definition prepared_net_rules :: "capability_set \<Rightarrow> prepared_net_rule list" where
  "prepared_net_rules caps =
     (case network_mode caps of
        ProxyOnly port bind_ports \<Rightarrow> net_rule Net_ConnectTcp port # map (net_rule Net_BindTcp) bind_ports
      | _ \<Rightarrow> [])
     @ map (net_rule Net_ConnectTcp) (tcp_connect_ports caps)
     @ map (net_rule Net_BindTcp) (tcp_bind_ports caps)
     @ (if network_mode caps \<noteq> AllowAll then
          concat (map (\<lambda>port. [net_rule Net_ConnectTcp port, net_rule Net_BindTcp port]) (localhost_ports caps))
          @ concat (map (\<lambda>(start, fin).
              concat (map (\<lambda>port. [net_rule Net_ConnectTcp port, net_rule Net_BindTcp port]) (port_range start fin)))
              (merge_port_ranges (localhost_port_ranges caps)))
        else [])"

definition refuse_port_0 :: "tcp_network_enforcement \<Rightarrow> capability_set \<Rightarrow> unit res" where
  "refuse_port_0 n caps =
     (if handles_tcp n \<and> network_mode caps \<noteq> AllowAll \<and> 0 \<in> set (localhost_ports caps)
      then Inl (SandboxInit (''open_port 0 (localhost TCP wildcard) is macOS-only; ''
             @ ''on Linux use explicit ports or a network profile.''))
      else Inr ())"

definition needs_network_handling :: "tcp_network_enforcement \<Rightarrow> capability_set \<Rightarrow> bool" where
  "needs_network_handling n caps \<longleftrightarrow>
     handles_tcp n \<and> (network_mode caps \<noteq> AllowAll \<or> tcp_connect_ports caps \<noteq> [] \<or> tcp_bind_ports caps \<noteq> [])"

definition network_unsupported :: "tcp_network_enforcement \<Rightarrow> abi \<Rightarrow> nono_error" where
  "network_unsupported n a =
     SandboxInit
       (if allows_seccomp_fallback n
        then ''Network filtering requested but kernel Landlock ABI doesn't support it ''
             @ ''(requires V4+). On this kernel, only full --block-net or --proxy-only ''
             @ ''fallback via seccomp is supported.''
        else ''Network filtering requested but Landlock ABI '' @ abi_version_string a @ '' lacks network support ''
             @ ''(requires V4+). Use apply_auto to enable seccomp fallback.'')"

text \<open>The handled network rights and the fallback, or the refusal when neither is available.\<close>

definition network_handling ::
  "landlock_crate \<Rightarrow> capability_set \<Rightarrow> abi \<Rightarrow> tcp_network_enforcement \<Rightarrow> (access_net set \<times> seccomp_net_fallback) res" where
  "network_handling lc caps a n =
     (if needs_network_handling n caps then
        (let handled_net = net_from_all lc a
         in if handled_net \<noteq> {} then Inr (handled_net, FallbackNone)
            else if allows_seccomp_fallback n then
              (let fallback = seccomp_network_fallback_mode caps
               in if fallback = FallbackNone then Inl (network_unsupported n a) else Inr ({}, fallback))
            else Inl (network_unsupported n a))
      else Inr ({}, FallbackNone))"

definition prepare_path_rule :: "landlock_crate \<Rightarrow> rule_io \<Rightarrow> abi \<Rightarrow> prepared_path_rule list \<Rightarrow> fs_capability \<Rightarrow> prepared_path_rule list res" where
  "prepare_path_rule lc io a rules cap =
     and_then (open_path_rule lc io cap a) (\<lambda>(fd, access).
     and_then (map_err (\<lambda>e. SandboxInit (''Cannot reserve Landlock rule descriptor for '' @ fc_resolved cap @ '': '' @ e))
                (move_fd_above_stdio io fd)) (\<lambda>path_fd.
       Inr (rules @ [\<lparr>pr_path_fd = path_fd, pr_allowed_access = la_effective access\<rparr>])))"

definition prepare_with_abi_inner ::
  "landlock_crate \<Rightarrow> rule_io \<Rightarrow> capability_set \<Rightarrow> abi \<Rightarrow> tcp_network_enforcement \<Rightarrow> prepared_landlock_sandbox res" where
  "prepare_with_abi_inner lc io caps detected n =
     (let target_abi = enforced_abi detected
      in and_then (requested_scopes lc caps detected) (\<lambda>scopes.
         and_then (refuse_port_0 n caps) (\<lambda>_.
         and_then (network_handling lc caps target_abi n) (\<lambda>(handled_net, fallback).
         and_then (fold_res (prepare_path_rule lc io target_abi) [] (fs caps)) (\<lambda>path_rules.
           Inr \<lparr>pl_attr = \<lparr>handled_access_fs = fs_from_all lc target_abi, handled_access_net = handled_net, scoped = scopes\<rparr>,
                pl_path_rules = path_rules,
                pl_net_rules = (if handled_net \<noteq> {} then prepared_net_rules caps else []),
                pl_static_network_filter = selected_static_network_filter n caps fallback,
                pl_fallback = fallback\<rparr>)))))"

definition prepare_landlock_with_abi :: "landlock_crate \<Rightarrow> rule_io \<Rightarrow> capability_set \<Rightarrow> abi \<Rightarrow> prepared_landlock_sandbox res" where
  "prepare_landlock_with_abi lc io caps a = prepare_with_abi_inner lc io caps a LandlockOnly"

definition prepare_seccomp_with_abi ::
  "landlock_crate \<Rightarrow> rule_io \<Rightarrow> capability_set \<Rightarrow> abi \<Rightarrow> seccomp_opts \<Rightarrow> prepared_landlock_sandbox res" where
  "prepare_seccomp_with_abi lc io caps a opts = prepare_with_abi_inner lc io caps a (enforcement_of (tcp_network opts))"

section \<open>Direct application\<close>

text \<open>
  The direct application drives the rule set builder of the \<open>landlock\<close> crate.  Its calls are the
  constructors of \<open>ruleset_op\<close>; whether a call fails is a parameter, and so is the reported status.
\<close>

datatype ruleset_op =
  HandleFs "access_fs set" | HandleNet "access_net set" | SetScope "scope set" | CreateRuleset
| AddNetPort u16 access_net | AddPathBeneath int "access_fs set" | RestrictSelf

datatype ruleset_status = FullyEnforced | PartiallyEnforced | NotEnforced

record ruleset_api =
  ra_error :: "ruleset_op \<Rightarrow> string option"
  ra_status :: ruleset_status
  ra_install_error :: "static_network_filter \<Rightarrow> string option"

text \<open>One call, with the message of its error; the calls made so far are the state.\<close>

definition call_op :: "ruleset_api \<Rightarrow> ruleset_op list \<Rightarrow> ruleset_op \<times> string \<times> string \<Rightarrow> ruleset_op list res" where
  "call_op api ops c =
     (case c of (f, before, after) \<Rightarrow>
        (case ra_error api f of
           Some e \<Rightarrow> Inl (SandboxInit (before @ '': '' @ e @ after))
         | None \<Rightarrow> Inr (ops @ [f])))"

definition apply_net_ops :: "capability_set \<Rightarrow> (ruleset_op \<times> string \<times> string) list" where
  "apply_net_ops caps =
     (case network_mode caps of
        ProxyOnly port bind_ports \<Rightarrow>
          (AddNetPort port Net_ConnectTcp, ''Cannot add TCP connect rule for proxy port '' @ show_port port, [])
          # map (\<lambda>bp. (AddNetPort bp Net_BindTcp, ''Cannot add TCP bind rule for port '' @ show_port bp, [])) bind_ports
      | _ \<Rightarrow> [])
     @ map (\<lambda>port. (AddNetPort port Net_ConnectTcp, ''Cannot add TCP connect rule for port '' @ show_port port, []))
         (tcp_connect_ports caps)
     @ map (\<lambda>port. (AddNetPort port Net_BindTcp, ''Cannot add TCP bind rule for port '' @ show_port port, []))
         (tcp_bind_ports caps)
     @ (if network_mode caps \<noteq> AllowAll then
          concat (map (\<lambda>port.
              [(AddNetPort port Net_ConnectTcp, ''Cannot add TCP connect rule for localhost port '' @ show_port port, []),
               (AddNetPort port Net_BindTcp, ''Cannot add TCP bind rule for localhost port '' @ show_port port, [])])
              (localhost_ports caps))
          @ concat (map (\<lambda>(start, fin).
              (let r = show_port start @ ''..='' @ show_port fin
               in concat (map (\<lambda>port.
                   [(AddNetPort port Net_ConnectTcp, ''Cannot add TCP connect rule for localhost port range '' @ r, []),
                    (AddNetPort port Net_BindTcp, ''Cannot add TCP bind rule for localhost port range '' @ r, [])])
                   (port_range start fin))))
              (merge_port_ranges (localhost_port_ranges caps)))
        else [])"

definition apply_path_rule :: "landlock_crate \<Rightarrow> rule_io \<Rightarrow> ruleset_api \<Rightarrow> abi \<Rightarrow> ruleset_op list \<Rightarrow> fs_capability \<Rightarrow> ruleset_op list res" where
  "apply_path_rule lc io api a ops cap =
     and_then (open_path_rule lc io cap a) (\<lambda>(fd, access).
       call_op api ops (AddPathBeneath fd (la_effective access),
         ''Cannot add Landlock rule for '' @ fc_resolved cap, '' (filesystem may not support Landlock)''))"

definition install_static_network_filter :: "ruleset_api \<Rightarrow> static_network_filter \<Rightarrow> unit res" where
  "install_static_network_filter api selected =
     (case selected of
        FilterNone \<Rightarrow> Inr ()
      | FilterBlockAll \<Rightarrow>
          (case ra_install_error api FilterBlockAll of
             Some e \<Rightarrow> Inl (SandboxInit (''Failed to install seccomp full-network block: '' @ e)) | None \<Rightarrow> Inr ())
      | FilterTcpOnly \<Rightarrow>
          (case ra_install_error api FilterTcpOnly of
             Some e \<Rightarrow> Inl (SandboxInit (''Failed to install seccomp TCP-only baseline: '' @ e)) | None \<Rightarrow> Inr ()))"

text \<open>The result is the fallback the caller has to install, with the calls that were made.\<close>

definition apply_with_abi_inner ::
  "landlock_crate \<Rightarrow> rule_io \<Rightarrow> ruleset_api \<Rightarrow> capability_set \<Rightarrow> abi \<Rightarrow> tcp_network_enforcement
   \<Rightarrow> (ruleset_op list \<times> seccomp_net_fallback) res" where
  "apply_with_abi_inner lc io api caps detected n =
     (let target_abi = enforced_abi detected
      in and_then (requested_scopes lc caps detected) (\<lambda>scopes.
         and_then (refuse_port_0 n caps) (\<lambda>_.
         and_then (call_op api [] (HandleFs (fs_from_all lc target_abi), ''Failed to handle fs access'', [])) (\<lambda>ops.
         and_then (network_handling lc caps target_abi n) (\<lambda>(handled_net, fallback).
         and_then (if handled_net \<noteq> {}
                   then call_op api ops (HandleNet handled_net, ''Network filtering requested but unsupported by this kernel'', [])
                   else Inr ops) (\<lambda>ops.
         and_then (if scopes \<noteq> {}
                   then call_op api ops (SetScope scopes, ''Landlock scoping requested but unsupported by this kernel'', [])
                   else Inr ops) (\<lambda>ops.
         and_then (call_op api ops (CreateRuleset, ''Failed to create ruleset'', [])) (\<lambda>ops.
         and_then (if handled_net \<noteq> {} then fold_res (call_op api) ops (apply_net_ops caps) else Inr ops) (\<lambda>ops.
         and_then (fold_res (apply_path_rule lc io api target_abi) ops (fs caps)) (\<lambda>ops.
         and_then (call_op api ops (RestrictSelf, ''Failed to restrict self'', [])) (\<lambda>ops.
         and_then (if ra_status api = NotEnforced
                   then Inl (SandboxInit ''Landlock sandbox was not enforced'') else Inr ()) (\<lambda>_.
         and_then (install_static_network_filter api (selected_static_network_filter n caps fallback)) (\<lambda>_.
           Inr (ops, fallback))))))))))))))"

definition apply_landlock_with_abi ::
  "landlock_crate \<Rightarrow> rule_io \<Rightarrow> ruleset_api \<Rightarrow> capability_set \<Rightarrow> abi \<Rightarrow> unit res" where
  "apply_landlock_with_abi lc io api caps a =
     and_then (apply_with_abi_inner lc io api caps a LandlockOnly) (\<lambda>_. Inr ())"

definition apply_seccomp_with_abi ::
  "landlock_crate \<Rightarrow> rule_io \<Rightarrow> ruleset_api \<Rightarrow> capability_set \<Rightarrow> abi \<Rightarrow> seccomp_opts \<Rightarrow> seccomp_net_fallback res" where
  "apply_seccomp_with_abi lc io api caps a opts =
     and_then (apply_with_abi_inner lc io api caps a (enforcement_of (tcp_network opts))) (\<lambda>(_, fallback). Inr fallback)"

definition apply_auto_with_abi ::
  "landlock_crate \<Rightarrow> rule_io \<Rightarrow> ruleset_api \<Rightarrow> capability_set \<Rightarrow> abi \<Rightarrow> seccomp_net_fallback res" where
  "apply_auto_with_abi lc io api caps a =
     and_then (apply_with_abi_inner lc io api caps a AutoSeccompFallback) (\<lambda>(_, fallback). Inr fallback)"

fun ensure_execute_restriction_fully_enforced :: "ruleset_status \<Rightarrow> unit res" where
  "ensure_execute_restriction_fully_enforced FullyEnforced = Inr ()"
| "ensure_execute_restriction_fully_enforced PartiallyEnforced =
     Inl (SandboxInit ''Command sandbox execute restriction: Landlock was only partially enforced'')"
| "ensure_execute_restriction_fully_enforced NotEnforced =
     Inl (SandboxInit ''Command sandbox execute restriction: Landlock was not enforced'')"

text \<open>A second layer that handles execution (and renames) only.\<close>

definition execute_rule :: "rule_io \<Rightarrow> ruleset_api \<Rightarrow> ruleset_op list \<Rightarrow> path \<Rightarrow> ruleset_op list res" where
  "execute_rule io api ops p =
     and_then (map_err (\<lambda>e. SandboxInit (''Command sandbox execute restriction: cannot open '' @ p @ '': '' @ e)) (ri_open io p)) (\<lambda>fd.
       call_op api ops (AddPathBeneath fd {Fs_Execute}, ''Command sandbox execute restriction: add_rule for '' @ p, []))"

definition restrict_execute ::
  "landlock_crate \<Rightarrow> rule_io \<Rightarrow> ruleset_api \<Rightarrow> abi res \<Rightarrow> path list \<Rightarrow> ruleset_op list res" where
  "restrict_execute lc io api detect_abi paths =
     and_then detect_abi (\<lambda>a.
       if \<not> has_execute a
       then Inl (SandboxInit (''Command sandbox execute restriction requires Landlock ABI V3+; detected '' @ abi_version_string a))
       else
         and_then (call_op api [] (HandleFs {Fs_Execute}, ''Command sandbox execute restriction: kernel does not support Landlock Execute'', [])) (\<lambda>ops.
         and_then (call_op api ops (HandleFs {Fs_Refer}, ''Command sandbox execute restriction: cannot handle Refer'', [])) (\<lambda>ops.
         and_then (call_op api ops (CreateRuleset, ''Command sandbox execute restriction: ruleset create failed'', [])) (\<lambda>ops.
         and_then (fold_res (execute_rule io api) ops paths) (\<lambda>ops.
         and_then
           (if has_refer lc a
            then and_then (map_err (\<lambda>e. SandboxInit (''Command sandbox execute restriction: cannot open / for Refer grant: '' @ e))
                            (ri_open io ''/'')) (\<lambda>root_fd.
                   call_op api ops (AddPathBeneath root_fd {Fs_Refer}, ''Command sandbox execute restriction: add_rule for / (Refer)'', []))
            else Inr ops) (\<lambda>ops.
         and_then (call_op api ops (RestrictSelf, ''Command sandbox execute restriction: restrict_self failed'', [])) (\<lambda>ops.
         and_then (ensure_execute_restriction_fully_enforced (ra_status api)) (\<lambda>_. Inr ops))))))))"

section \<open>Raw application of the prepared sandbox\<close>

datatype raw_sandbox_stage =
  Stage_NoNewPrivs | Stage_CreateRuleset | Stage_AddPathRule | Stage_AddNetRule | Stage_RestrictSelf
| Stage_InstallStaticFilter | Stage_InstallNotifyFilter | Stage_UnshareNamespaces | Stage_LoopbackUp | Stage_BridgeListener

record raw_sandbox_error =
  re_stage :: raw_sandbox_stage
  re_errno :: int

text \<open>
  The raw calls.  The kernel is a function from the calls made so far and the next call to an error
  number or a descriptor.
\<close>

datatype raw_syscall =
  Sys_CreateRuleset ruleset_attr | Sys_AddPathRule int int "access_fs set" | Sys_AddNetRule int u64 "access_net set"
| Sys_NoNewPrivs | Sys_RestrictSelf int | Sys_Close int | Sys_InstallFilter bpf

type_synonym raw_kernel = "raw_syscall list \<Rightarrow> raw_syscall \<Rightarrow> int + int"

fun add_path_rules :: "raw_kernel \<Rightarrow> int \<Rightarrow> raw_syscall list \<Rightarrow> prepared_path_rule list \<Rightarrow> raw_syscall list \<times> (raw_sandbox_error + unit)" where
  "add_path_rules k rfd tr [] = (tr, Inr ())"
| "add_path_rules k rfd tr (r # rs) =
     (let call = Sys_AddPathRule rfd (pr_path_fd r) (pr_allowed_access r)
      in case k tr call of
           Inl errno \<Rightarrow> (tr @ [call, Sys_Close rfd], Inl \<lparr>re_stage = Stage_AddPathRule, re_errno = errno\<rparr>)
         | Inr _ \<Rightarrow> add_path_rules k rfd (tr @ [call]) rs)"

fun add_net_rules :: "raw_kernel \<Rightarrow> int \<Rightarrow> raw_syscall list \<Rightarrow> prepared_net_rule list \<Rightarrow> raw_syscall list \<times> (raw_sandbox_error + unit)" where
  "add_net_rules k rfd tr [] = (tr, Inr ())"
| "add_net_rules k rfd tr (r # rs) =
     (let call = Sys_AddNetRule rfd (ucast (nr_port r)) (nr_allowed_access r)
      in case k tr call of
           Inl errno \<Rightarrow> (tr @ [call, Sys_Close rfd], Inl \<lparr>re_stage = Stage_AddNetRule, re_errno = errno\<rparr>)
         | Inr _ \<Rightarrow> add_net_rules k rfd (tr @ [call]) rs)"

definition create_ruleset_raw ::
  "raw_kernel \<Rightarrow> prepared_landlock_sandbox \<Rightarrow> raw_syscall list \<Rightarrow> raw_syscall list \<times> (raw_sandbox_error + int)" where
  "create_ruleset_raw k self tr =
     (let call = Sys_CreateRuleset (pl_attr self)
      in case k tr call of
           Inl errno \<Rightarrow> (tr @ [call], Inl \<lparr>re_stage = Stage_CreateRuleset, re_errno = errno\<rparr>)
         | Inr rfd \<Rightarrow>
             (case add_path_rules k rfd (tr @ [call]) (pl_path_rules self) of
                (tr, Inl e) \<Rightarrow> (tr, Inl e)
              | (tr, Inr _) \<Rightarrow>
                  (case add_net_rules k rfd tr (pl_net_rules self) of
                     (tr, Inl e) \<Rightarrow> (tr, Inl e)
                   | (tr, Inr _) \<Rightarrow> (tr, Inr rfd))))"

definition install_static_network_filter_raw ::
  "target_arch \<Rightarrow> libc \<Rightarrow> raw_kernel \<Rightarrow> static_network_filter \<Rightarrow> raw_syscall list \<Rightarrow> raw_syscall list \<times> (raw_sandbox_error + unit)" where
  "install_static_network_filter_raw t c k selected tr =
     (case static_network_program t c selected of
        None \<Rightarrow> (tr, Inr ())
      | Some prog \<Rightarrow>
          (case k tr Sys_NoNewPrivs of
             Inl errno \<Rightarrow> (tr @ [Sys_NoNewPrivs], Inl \<lparr>re_stage = Stage_NoNewPrivs, re_errno = errno\<rparr>)
           | Inr _ \<Rightarrow>
               (case k (tr @ [Sys_NoNewPrivs]) (Sys_InstallFilter prog) of
                  Inl errno \<Rightarrow> (tr @ [Sys_NoNewPrivs, Sys_InstallFilter prog],
                                Inl \<lparr>re_stage = Stage_InstallStaticFilter, re_errno = errno\<rparr>)
                | Inr _ \<Rightarrow> (tr @ [Sys_NoNewPrivs, Sys_InstallFilter prog], Inr ()))))"

definition apply_raw ::
  "target_arch \<Rightarrow> libc \<Rightarrow> raw_kernel \<Rightarrow> prepared_landlock_sandbox \<Rightarrow> raw_syscall list \<times> (raw_sandbox_error + unit)" where
  "apply_raw t c k self =
     (case create_ruleset_raw k self [] of
        (tr, Inl e) \<Rightarrow> (tr, Inl e)
      | (tr, Inr rfd) \<Rightarrow>
          (case k tr Sys_NoNewPrivs of
             Inl errno \<Rightarrow> (tr @ [Sys_NoNewPrivs, Sys_Close rfd], Inl \<lparr>re_stage = Stage_NoNewPrivs, re_errno = errno\<rparr>)
           | Inr _ \<Rightarrow>
               (let tr = tr @ [Sys_NoNewPrivs]
                in case k tr (Sys_RestrictSelf rfd) of
                     Inl errno \<Rightarrow> (tr @ [Sys_RestrictSelf rfd, Sys_Close rfd],
                                   Inl \<lparr>re_stage = Stage_RestrictSelf, re_errno = errno\<rparr>)
                   | Inr _ \<Rightarrow>
                       install_static_network_filter_raw t c k (pl_static_network_filter self)
                         (tr @ [Sys_RestrictSelf rfd, Sys_Close rfd]))))"

section \<open>Detection\<close>

lemma probe_loop_ok:
  assumes "sorted_wrt (>) as"
  shows "probe_loop probe as e = Inr a \<longleftrightarrow>
     a \<in> set as \<and> probe a = None \<and> (\<forall>b \<in> set as. a < b \<longrightarrow> probe b \<noteq> None)"
  using assms
proof (induction as arbitrary: e)
  case (Cons b as)
  show ?case
  proof (cases "probe b")
    case None
    then show ?thesis using Cons.prems by auto
  next
    case (Some err)
    then show ?thesis using Cons by auto
  qed
qed simp

lemma probe_order: "sorted_wrt (>) ABI_PROBE_ORDER" "set ABI_PROBE_ORDER = UNIV"
proof -
  show "sorted_wrt (>) ABI_PROBE_ORDER" by (simp add: ABI_PROBE_ORDER_def less_abi_def)
  have "a \<in> set ABI_PROBE_ORDER" for a by (cases a) (simp_all add: ABI_PROBE_ORDER_def)
  then show "set ABI_PROBE_ORDER = UNIV" by blast
qed

text \<open>
  Detection returns exactly the highest level that the kernel reports and whose probe succeeds; it
  fails when there is none.
\<close>

theorem detect_abi_highest:
  "detect_abi_with (Some v) probe = Inr a \<longleftrightarrow>
     abi_number a \<le> unat v \<and> probe a = None \<and> (\<forall>b. a < b \<and> abi_number b \<le> unat v \<longrightarrow> probe b \<noteq> None)"
  using probe_loop_ok [of "filter (\<lambda>a. abi_number a \<le> unat v) ABI_PROBE_ORDER"] probe_order
  by (auto simp: detect_abi_with_def sorted_wrt_filter)

section \<open>Path rules of a prepared sandbox\<close>

fun mode_rights :: "access_mode \<Rightarrow> access_fs set" where
  "mode_rights Read = read_rights"
| "mode_rights Write = write_rights"
| "mode_rights ReadWrite = read_rights \<union> write_rights"

text \<open>
  The rights a capability gets on an inode: those of its access mode, for a file only the rights that
  apply to files, and device control for a writable device or a directory under \<open>/dev\<close>.
\<close>

definition granted_rights :: "fs_capability \<Rightarrow> inode_metadata \<Rightarrow> access_fs set" where
  "granted_rights cap md =
     mode_rights (fc_access cap) \<inter> (if im_is_dir md then UNIV else file_rights)
     \<union> (if fc_access cap \<noteq> Read \<and> (im_is_char_device md \<or> im_is_block_device md
            \<or> im_is_dir md \<and> path_starts_with (fc_resolved cap) ''/dev'') then {Fs_IoctlDev} else {})"

lemma access_to_landlock_effective: "la_effective (access_to_landlock lc m a) = mode_rights m \<inter> fs_from_all lc a"
  by (cases m) (auto simp: supported_access_def Let_def)

lemma normalize_ok:
  assumes "landlock_crate_ok lc" "normalize_path_access lc cap md a = Inr access"
  shows "im_is_dir md = (\<not> fc_is_file cap) \<and> la_effective access = granted_rights cap md \<inter> fs_from_all lc a"
proof -
  have f: "fs_from_file lc a = fs_from_all lc a \<inter> file_rights" using assms(1) by (simp add: landlock_crate_ok_def)
  have m: "fc_access cap \<noteq> Read \<longleftrightarrow> fc_access cap = Write \<or> fc_access cap = ReadWrite" by (cases "fc_access cap") simp_all
  show ?thesis
    using assms(2)
    by (auto simp: normalize_path_access_def Let_def granted_rights_def access_to_landlock_effective f m
        simp del: access_to_landlock.simps mode_rights.simps split: if_splits)
qed

definition rule_for :: "landlock_crate \<Rightarrow> rule_io \<Rightarrow> abi \<Rightarrow> fs_capability \<Rightarrow> prepared_path_rule \<Rightarrow> bool" where
  "rule_for lc io a cap r \<longleftrightarrow>
     (\<exists>fd md. ri_open io (fc_resolved cap) = Inr fd \<and> ri_metadata io fd = Inr md \<and> im_is_dir md = (\<not> fc_is_file cap)
        \<and> move_fd_above_stdio io fd = Inr (pr_path_fd r) \<and> pr_allowed_access r = granted_rights cap md \<inter> fs_from_all lc a)"

lemma prepare_path_rule_ok:
  assumes "landlock_crate_ok lc" "prepare_path_rule lc io a rs cap = Inr out"
  obtains r where "out = rs @ [r]" "rule_for lc io a cap r"
proof -
  from assms(2) obtain fd access path_fd where o1: "open_path_rule lc io cap a = Inr (fd, access)"
    and m: "move_fd_above_stdio io fd = Inr path_fd"
    and out: "out = rs @ [\<lparr>pr_path_fd = path_fd, pr_allowed_access = la_effective access\<rparr>]"
    unfolding prepare_path_rule_def by (auto simp: result_simps)
  from o1 obtain md where f: "ri_open io (fc_resolved cap) = Inr fd" "ri_metadata io fd = Inr md"
    "normalize_path_access lc cap md a = Inr access"
    unfolding open_path_rule_def by (auto simp: result_simps)
  with m normalize_ok [OF assms(1) f(3)] show thesis by (intro that [OF out]) (auto simp: rule_for_def)
qed

lemma prepare_path_rules_ok:
  assumes "landlock_crate_ok lc" "fold_res (prepare_path_rule lc io a) rs caps = Inr out"
  shows "\<exists>new. out = rs @ new \<and> list_all2 (rule_for lc io a) caps new"
  using assms(2)
proof (induction caps arbitrary: rs)
  case (Cons cap caps)
  from Cons.prems obtain mid where 1: "prepare_path_rule lc io a rs cap = Inr mid"
    and 2: "fold_res (prepare_path_rule lc io a) mid caps = Inr out"
    by (auto simp: and_then_Inr)
  obtain r where "mid = rs @ [r]" "rule_for lc io a cap r" by (rule prepare_path_rule_ok [OF assms(1) 1])
  with Cons.IH [OF 2] show ?case by auto
qed simp

text \<open>
  C11. A prepared sandbox has one path rule for every file capability, in order.  The rule refers to the
  inode that was opened and inspected, whose kind is the one the capability asks for, and grants exactly
  the rights of the capability's mode that the enforced ABI handles.  Every right of that ABI is handled,
  so whatever no rule grants is denied.
\<close>

theorem prepared_path_rules_exact:
  assumes "landlock_crate_ok lc" "prepare_with_abi_inner lc io caps a n = Inr s"
  shows "list_all2 (rule_for lc io (enforced_abi a)) (fs caps) (pl_path_rules s)
    \<and> handled_access_fs (pl_attr s) = fs_from_all lc (enforced_abi a)"
proof -
  obtain rules where "fold_res (prepare_path_rule lc io (enforced_abi a)) [] (fs caps) = Inr rules"
    "pl_path_rules s = rules" "handled_access_fs (pl_attr s) = fs_from_all lc (enforced_abi a)"
    using assms(2) by (auto simp: prepare_with_abi_inner_def Let_def result_simps)
  with prepare_path_rules_ok [OF assms(1) this(1)] show ?thesis by simp
qed

section \<open>Network rules\<close>

text \<open>The ports a policy permits.\<close>

definition local_port :: "capability_set \<Rightarrow> u16 \<Rightarrow> bool" where
  "local_port caps p \<longleftrightarrow>
     network_mode caps \<noteq> AllowAll \<and> (p \<in> set (localhost_ports caps) \<or> unat p \<in> ports (localhost_port_ranges caps))"

definition may_connect :: "capability_set \<Rightarrow> u16 \<Rightarrow> bool" where
  "may_connect caps p \<longleftrightarrow>
     (\<exists>bs. network_mode caps = ProxyOnly p bs) \<or> p \<in> set (tcp_connect_ports caps) \<or> local_port caps p"

definition may_bind :: "capability_set \<Rightarrow> u16 \<Rightarrow> bool" where
  "may_bind caps p \<longleftrightarrow>
     (\<exists>q bs. network_mode caps = ProxyOnly q bs \<and> p \<in> set bs) \<or> p \<in> set (tcp_bind_ports caps) \<or> local_port caps p"

definition rules_allow :: "prepared_net_rule list \<Rightarrow> access_net \<Rightarrow> u16 \<Rightarrow> bool" where
  "rules_allow rs access p \<longleftrightarrow> (\<exists>r \<in> set rs. nr_port r = p \<and> access \<in> nr_allowed_access r)"

lemma set_port_range: "p \<in> set (port_range s e) \<longleftrightarrow> unat s \<le> unat p \<and> unat p \<le> unat e"
proof
  assume "p \<in> set (port_range s e)"
  then obtain n where n: "p = of_nat n" "unat s \<le> n" "n \<le> unat e" by (auto simp: port_range_def)
  have "unat e < 2 ^ 16" by (rule order.strict_trans2 [OF unsigned_less]) simp
  then have "unat p = n" using n by (simp add: unsigned_of_nat take_bit_nat_eq_self)
  with n show "unat s \<le> unat p \<and> unat p \<le> unat e" by simp
next
  assume "unat s \<le> unat p \<and> unat p \<le> unat e"
  then have "unat p \<in> {unat s ..< Suc (unat e)}" by simp
  moreover have "p = of_nat (unat p)" by simp
  ultimately show "p \<in> set (port_range s e)" unfolding port_range_def set_map set_upt by (rule rev_image_eqI)
qed

lemma rules_allow_simps:
  "rules_allow [] access p \<longleftrightarrow> False"
  "rules_allow (rs @ qs) access p \<longleftrightarrow> rules_allow rs access p \<or> rules_allow qs access p"
  "rules_allow (net_rule b q # rs) access p \<longleftrightarrow> access = b \<and> p = q \<or> rules_allow rs access p"
  "rules_allow (map (net_rule b) ps) access p \<longleftrightarrow> access = b \<and> p \<in> set ps"
  by (auto simp: rules_allow_def net_rule_def)

lemma rules_allow_both:
  "rules_allow (concat (map (\<lambda>port. [net_rule Net_ConnectTcp port, net_rule Net_BindTcp port]) ps)) access p \<longleftrightarrow> p \<in> set ps"
  by (cases access) (auto simp: rules_allow_def net_rule_def)

lemma rules_allow_ranges:
  "rules_allow (concat (map (\<lambda>(start, fin).
      concat (map (\<lambda>port. [net_rule Net_ConnectTcp port, net_rule Net_BindTcp port]) (port_range start fin))) rs)) access p
   \<longleftrightarrow> unat p \<in> ports rs"
proof (induction rs)
  case (Cons r rs)
  then show ?case
    by (cases r) (simp add: rules_allow_simps(2) rules_allow_both set_port_range range_ports_def)
qed (simp add: rules_allow_simps)

lemma prepared_net_rules_allow:
  assumes "list_all valid_range (localhost_port_ranges caps)"
  shows "rules_allow (prepared_net_rules caps) Net_ConnectTcp p \<longleftrightarrow> may_connect caps p"
    and "rules_allow (prepared_net_rules caps) Net_BindTcp p \<longleftrightarrow> may_bind caps p"
proof -
  have m: "ports (merge_port_ranges (localhost_port_ranges caps)) = ports (localhost_port_ranges caps)"
    using merge_port_ranges_canonical [OF assms] by simp
  show "rules_allow (prepared_net_rules caps) Net_ConnectTcp p \<longleftrightarrow> may_connect caps p"
    "rules_allow (prepared_net_rules caps) Net_BindTcp p \<longleftrightarrow> may_bind caps p"
    by (cases "network_mode caps";
        auto simp: prepared_net_rules_def rules_allow_simps rules_allow_both rules_allow_ranges m may_connect_def
          may_bind_def local_port_def)+
qed


section \<open>The two ways of applying a policy agree\<close>

fun net_call :: "prepared_net_rule \<Rightarrow> ruleset_op" where
  "net_call r = AddNetPort (nr_port r) (if Net_ConnectTcp \<in> nr_allowed_access r then Net_ConnectTcp else Net_BindTcp)"

definition path_call :: "prepared_path_rule \<Rightarrow> ruleset_op" where
  "path_call r = AddPathBeneath (pr_path_fd r) (pr_allowed_access r)"

text \<open>The rule set calls that correspond to a prepared sandbox.\<close>

definition ruleset_calls :: "prepared_landlock_sandbox \<Rightarrow> ruleset_op list" where
  "ruleset_calls s =
     [HandleFs (handled_access_fs (pl_attr s))]
     @ (if handled_access_net (pl_attr s) \<noteq> {} then [HandleNet (handled_access_net (pl_attr s))] else [])
     @ (if scoped (pl_attr s) \<noteq> {} then [SetScope (scoped (pl_attr s))] else [])
     @ [CreateRuleset] @ map net_call (pl_net_rules s) @ map path_call (pl_path_rules s) @ [RestrictSelf]"

definition api_succeeds :: "ruleset_api \<Rightarrow> bool" where
  "api_succeeds api \<longleftrightarrow> (\<forall>f. ra_error api f = None) \<and> ra_status api \<noteq> NotEnforced \<and> (\<forall>f. ra_install_error api f = None)"

lemma net_call_rule [simp]: "net_call (net_rule access port) = AddNetPort port access"
  by (cases access) (simp_all add: net_rule_def)

lemma map_concat_pairs:
  assumes "\<And>x. map f (g x) = map h (k x)"
  shows "map f (concat (map g xs)) = map h (concat (map k xs))"
  by (induction xs) (simp_all add: assms)

lemma apply_net_ops_calls: "map fst (apply_net_ops caps) = map net_call (prepared_net_rules caps)"
proof -
  have 1: "map fst (concat (map (\<lambda>(start, fin).
        (let r = show_port start @ ''..='' @ show_port fin
         in concat (map (\<lambda>port.
             [(AddNetPort port Net_ConnectTcp, ''Cannot add TCP connect rule for localhost port range '' @ r, []),
              (AddNetPort port Net_BindTcp, ''Cannot add TCP bind rule for localhost port range '' @ r, [])])
             (port_range start fin)))) rs)) =
      map net_call (concat (map (\<lambda>(start, fin).
        concat (map (\<lambda>port. [net_rule Net_ConnectTcp port, net_rule Net_BindTcp port]) (port_range start fin))) rs))" for rs
  proof (rule map_concat_pairs)
    show "map fst (case r of (start, fin) \<Rightarrow>
        (let r = show_port start @ ''..='' @ show_port fin
         in concat (map (\<lambda>port.
             [(AddNetPort port Net_ConnectTcp, ''Cannot add TCP connect rule for localhost port range '' @ r, []),
              (AddNetPort port Net_BindTcp, ''Cannot add TCP bind rule for localhost port range '' @ r, [])])
             (port_range start fin)))) =
      map net_call (case r of (start, fin) \<Rightarrow>
        concat (map (\<lambda>port. [net_rule Net_ConnectTcp port, net_rule Net_BindTcp port]) (port_range start fin)))" for r
      unfolding Let_def by (cases r) (simp only: prod.case, rule map_concat_pairs, simp del: net_call.simps)
  qed
  have 2: "map fst (concat (map (\<lambda>port.
      [(AddNetPort port Net_ConnectTcp, ''Cannot add TCP connect rule for localhost port '' @ show_port port, []),
       (AddNetPort port Net_BindTcp, ''Cannot add TCP bind rule for localhost port '' @ show_port port, [])]) ps))
    = map net_call (concat (map (\<lambda>port. [net_rule Net_ConnectTcp port, net_rule Net_BindTcp port]) ps))" for ps
    by (rule map_concat_pairs) (simp del: net_call.simps)
  show ?thesis
    unfolding apply_net_ops_def prepared_net_rules_def map_append
    by (cases "network_mode caps") (simp_all only: 1 2 network_mode.case if_True if_False network_mode.distinct simp_thms
        map_append list.map map_map comp_def fst_conv net_call_rule)
qed

lemma call_op_succeeds: "api_succeeds api \<Longrightarrow> call_op api ops c = Inr (ops @ [fst c])"
  by (cases c) (simp add: call_op_def api_succeeds_def)

lemma fold_call_op_succeeds: "api_succeeds api \<Longrightarrow> fold_res (call_op api) ops cs = Inr (ops @ map fst cs)"
  by (induction cs arbitrary: ops) (simp_all add: call_op_succeeds)

lemma apply_path_rules_calls:
  assumes "api_succeeds api" "\<And>p fd. ri_open io p = Inr fd \<Longrightarrow> 3 \<le> fd"
  shows "fold_res (apply_path_rule lc io api a) (ops @ map path_call rs) caps =
    map_sum (\<lambda>e. e) (\<lambda>rs'. ops @ map path_call rs') (fold_res (prepare_path_rule lc io a) rs caps)"
proof (induction caps arbitrary: rs)
  case (Cons cap caps)
  show ?case
  proof (cases "open_path_rule lc io cap a")
    case (Inl e)
    then show ?thesis by (simp add: apply_path_rule_def prepare_path_rule_def)
  next
    case (Inr r)
    then obtain fd access where r: "r = (fd, access)" and fd: "ri_open io (fc_resolved cap) = Inr fd"
      by (cases r) (auto simp: open_path_rule_def result_simps)
    let ?rule = "\<lparr>pr_path_fd = fd, pr_allowed_access = la_effective access\<rparr>"
    have 1: "apply_path_rule lc io api a (ops @ map path_call rs) cap = Inr (ops @ map path_call (rs @ [?rule]))"
      by (simp add: apply_path_rule_def Inr r call_op_succeeds [OF assms(1)] path_call_def)
    have 2: "prepare_path_rule lc io a rs cap = Inr (rs @ [?rule])"
      using assms(2) [OF fd] by (simp add: prepare_path_rule_def Inr r move_fd_above_stdio_def)
    show ?thesis unfolding fold_res.simps 1 2 and_then_simps by (rule Cons.IH)
  qed
qed simp


section \<open>Raw application\<close>

lemma add_path_rules_trace:
  assumes "add_path_rules k rfd tr rs = (tr', r)"
  shows "\<exists>pre. tr' = tr @ pre @ (if isl r then [Sys_Close rfd] else []) \<and> (\<forall>x \<in> set pre. \<exists>fd s. x = Sys_AddPathRule rfd fd s)
    \<and> (\<not> isl r \<longrightarrow> pre = map (\<lambda>r. Sys_AddPathRule rfd (pr_path_fd r) (pr_allowed_access r)) rs)"
  using assms
proof (induction rs arbitrary: tr)
  case (Cons q rs)
  let ?c = "Sys_AddPathRule rfd (pr_path_fd q) (pr_allowed_access q)"
  show ?case
  proof (cases "k tr ?c")
    case (Inl e)
    with Cons.prems show ?thesis by (intro exI [of _ "[?c]"]) (auto simp: Let_def)
  next
    case (Inr v)
    with Cons.prems have "add_path_rules k rfd (tr @ [?c]) rs = (tr', r)" by (simp add: Let_def)
    from Cons.IH [OF this] obtain pre where "tr' = (tr @ [?c]) @ pre @ (if isl r then [Sys_Close rfd] else [])"
      "\<forall>x \<in> set pre. \<exists>fd s. x = Sys_AddPathRule rfd fd s"
      "\<not> isl r \<longrightarrow> pre = map (\<lambda>r. Sys_AddPathRule rfd (pr_path_fd r) (pr_allowed_access r)) rs" by blast
    then show ?thesis by (intro exI [of _ "?c # pre"]) auto
  qed
qed auto

lemma add_net_rules_trace:
  assumes "add_net_rules k rfd tr rs = (tr', r)"
  shows "\<exists>pre. tr' = tr @ pre @ (if isl r then [Sys_Close rfd] else []) \<and> (\<forall>x \<in> set pre. \<exists>p s. x = Sys_AddNetRule rfd p s)
    \<and> (\<not> isl r \<longrightarrow> pre = map (\<lambda>r. Sys_AddNetRule rfd (ucast (nr_port r)) (nr_allowed_access r)) rs)"
  using assms
proof (induction rs arbitrary: tr)
  case (Cons q rs)
  let ?c = "Sys_AddNetRule rfd (ucast (nr_port q)) (nr_allowed_access q)"
  show ?case
  proof (cases "k tr ?c")
    case (Inl e)
    with Cons.prems show ?thesis by (intro exI [of _ "[?c]"]) (auto simp: Let_def)
  next
    case (Inr v)
    with Cons.prems have "add_net_rules k rfd (tr @ [?c]) rs = (tr', r)" by (simp add: Let_def)
    from Cons.IH [OF this] obtain pre where "tr' = (tr @ [?c]) @ pre @ (if isl r then [Sys_Close rfd] else [])"
      "\<forall>x \<in> set pre. \<exists>p s. x = Sys_AddNetRule rfd p s"
      "\<not> isl r \<longrightarrow> pre = map (\<lambda>r. Sys_AddNetRule rfd (ucast (nr_port r)) (nr_allowed_access r)) rs" by blast
    then show ?thesis by (intro exI [of _ "?c # pre"]) auto
  qed
qed auto

definition rule_calls :: "prepared_landlock_sandbox \<Rightarrow> int \<Rightarrow> raw_syscall list" where
  "rule_calls s rfd =
     map (\<lambda>r. Sys_AddPathRule rfd (pr_path_fd r) (pr_allowed_access r)) (pl_path_rules s)
     @ map (\<lambda>r. Sys_AddNetRule rfd (ucast (nr_port r)) (nr_allowed_access r)) (pl_net_rules s)"

lemma create_ruleset_raw_trace:
  assumes "create_ruleset_raw k s [] = (tr, r)" "k [] (Sys_CreateRuleset (pl_attr s)) = Inr rfd"
  shows "case r of
      Inl e \<Rightarrow> \<exists>pre. tr = pre @ [Sys_Close rfd] \<and> Sys_Close rfd \<notin> set pre
    | Inr fd \<Rightarrow> fd = rfd \<and> tr = Sys_CreateRuleset (pl_attr s) # rule_calls s rfd"
proof -
  let ?c = "Sys_CreateRuleset (pl_attr s)"
  obtain tr1 r1 where 1: "add_path_rules k rfd [?c] (pl_path_rules s) = (tr1, r1)" by fastforce
  obtain tr2 r2 where 2: "add_net_rules k rfd tr1 (pl_net_rules s) = (tr2, r2)" by fastforce
  obtain p1 where p1: "tr1 = [?c] @ p1 @ (if isl r1 then [Sys_Close rfd] else [])"
    "\<forall>x \<in> set p1. \<exists>fd s. x = Sys_AddPathRule rfd fd s"
    "\<not> isl r1 \<longrightarrow> p1 = map (\<lambda>r. Sys_AddPathRule rfd (pr_path_fd r) (pr_allowed_access r)) (pl_path_rules s)"
    using add_path_rules_trace [OF 1] by blast
  obtain p2 where p2: "tr2 = tr1 @ p2 @ (if isl r2 then [Sys_Close rfd] else [])"
    "\<forall>x \<in> set p2. \<exists>p s. x = Sys_AddNetRule rfd p s"
    "\<not> isl r2 \<longrightarrow> p2 = map (\<lambda>r. Sys_AddNetRule rfd (ucast (nr_port r)) (nr_allowed_access r)) (pl_net_rules s)"
    using add_net_rules_trace [OF 2] by blast
  have c1: "Sys_Close rfd \<notin> set p1" and c2: "Sys_Close rfd \<notin> set p2" using p1(2) p2(2) by auto
  show ?thesis
  proof (cases r1)
    case (Inl e)
    with assms 1 p1 c1 show ?thesis by (auto simp: create_ruleset_raw_def Let_def intro!: exI [of _ "?c # p1"])
  next
    case (Inr u)
    then show ?thesis
      using assms 1 2 p1 p2 c1 c2
      by (cases r2) (auto simp: create_ruleset_raw_def Let_def rule_calls_def intro!: exI [of _ "?c # p1 @ p2"])
  qed
qed

lemma install_filter_trace:
  assumes "install_static_network_filter_raw t c k f tr = (tr', r)"
  obtains post where "tr' = tr @ post" "set post \<subseteq> {Sys_NoNewPrivs} \<union> range Sys_InstallFilter"
    "r = Inr () \<longrightarrow> post = (case static_network_program t c f of None \<Rightarrow> [] | Some p \<Rightarrow> [Sys_NoNewPrivs, Sys_InstallFilter p])"
  using assms by (auto simp: install_static_network_filter_raw_def split: option.splits sum.splits)


section \<open>A concrete policy\<close>

definition demo_crate :: landlock_crate where
  "demo_crate =
     (let all = (\<lambda>a. read_rights \<union> write_rights \<union> (if V5 \<le> a then {Fs_IoctlDev} else {}))
      in \<lparr>fs_from_all = all, fs_from_file = (\<lambda>a. all a \<inter> file_rights),
          net_from_all = (\<lambda>a. if V4 \<le> a then {Net_BindTcp, Net_ConnectTcp} else {}),
          scope_from_all = (\<lambda>a. if V6 \<le> a then {Scope_AbstractUnixSocket, Scope_Signal} else {})\<rparr>)"

definition demo_rule_io :: rule_io where
  "demo_rule_io =
     \<lparr>ri_open = (\<lambda>p. Inr 7),
      ri_metadata = (\<lambda>fd. Inr \<lparr>im_is_dir = True, im_is_char_device = False, im_is_block_device = False\<rparr>),
      ri_dup_above_stdio = (\<lambda>fd. Inr 9)\<rparr>"

definition demo_api :: ruleset_api where
  "demo_api = \<lparr>ra_error = (\<lambda>f. None), ra_status = FullyEnforced, ra_install_error = (\<lambda>f. None)\<rparr>"

definition demo_policy :: capability_set where
  "demo_policy =
     new_caps\<lparr>fs := [\<lparr>fc_original = ''/w'', fc_resolved = ''/w'', fc_access = Read, fc_is_file = False, fc_source = User\<rparr>],
       network_mode := ProxyOnly 8080 [], localhost_port_ranges := [(3000, 3001)]\<rparr>"

lemma demo_crate_ok: "landlock_crate_ok demo_crate"
  by (simp add: landlock_crate_ok_def demo_crate_def Let_def)

lemma demo_prepared:
  obtains s where "prepare_with_abi_inner demo_crate demo_rule_io demo_policy V4 AutoSeccompFallback = Inr s"
    "pl_fallback s = FallbackNone" "length (pl_path_rules s) = 1"
  by (simp add: prepare_with_abi_inner_def requested_scopes_def demo_policy_def new_caps_def refuse_port_0_def
      network_handling_def needs_network_handling_def handles_tcp_def prepare_path_rule_def open_path_rule_def
      demo_rule_io_def normalize_path_access_def move_fd_above_stdio_def demo_crate_def Let_def enforced_abi_def
      MAX_ENFORCED_ABI_def min_def less_eq_abi_def)

theorem detect_abi_highest_witness:
  "detect_abi_with (Some 6) (\<lambda>a. if V4 < a then Some ''EINVAL'' else None) = Inr V4"
  using detect_abi_highest [of 6 "\<lambda>a. if V4 < a then Some ''EINVAL'' else None" V4] by simp

theorem prepared_path_rules_exact_witness:
  "\<exists>s. prepare_with_abi_inner demo_crate demo_rule_io demo_policy V4 AutoSeccompFallback = Inr s
     \<and> list_all2 (rule_for demo_crate demo_rule_io (enforced_abi V4)) (fs demo_policy) (pl_path_rules s)"
proof -
  obtain s where "prepare_with_abi_inner demo_crate demo_rule_io demo_policy V4 AutoSeccompFallback = Inr s"
    by (rule demo_prepared)
  with prepared_path_rules_exact [OF demo_crate_ok this] show ?thesis by blast
qed




end
