(* ===== verification/Supervisor_Paths.thy ===== *)
theory Supervisor_Paths
  imports Nono_Path Capability Content_Hash Rust_Io
begin

text \<open>
  The path checks of the supervisor (\<open>nono-cli\<close>): protection of the program's own state roots
  (\<open>protected_paths.rs\<close>), deny paths, the rules for \<open>/proc\<close> and the opening of an approved path
  (\<open>exec_strategy.rs\<close>).  The host answers canonicalisation; opening and reading a file are parameters.
\<close>

section \<open>Protected roots\<close>

definition overlaps_root :: "host \<Rightarrow> path \<Rightarrow> bool \<Rightarrow> path \<Rightarrow> bool" where
  "overlaps_root h requested_path file protected_root =
     (let resolved_root = try_canonicalize h protected_root
      in path_starts_with requested_path resolved_root
         \<or> (\<not> file \<and> path_starts_with resolved_root requested_path))"

definition validate_requested_path_against_protected_roots ::
  "host \<Rightarrow> path \<Rightarrow> bool \<Rightarrow> string \<Rightarrow> path list \<Rightarrow> bool \<Rightarrow> unit res" where
  "validate_requested_path_against_protected_roots h path file source protected_roots allow_parent_of_protected =
     (let requested_path = try_canonicalize h path
      in case List.find (overlaps_root h requested_path file) protected_roots of
           None \<Rightarrow> Inr ()
         | Some root \<Rightarrow>
             Inl (SandboxInit (''Refusing to grant '' @ [CHR 0x27] @ requested_path @ [CHR 0x27] @ '' (source: '' @ source
               @ '') because it overlaps protected nono state root '' @ [CHR 0x27] @ try_canonicalize h root @ [CHR 0x27] @ ''.'')))"

definition validate_caps_against_protected_roots :: "host \<Rightarrow> capability_set \<Rightarrow> path list \<Rightarrow> bool \<Rightarrow> unit res" where
  "validate_caps_against_protected_roots h caps protected_roots allow_parent_of_protected =
     (let resolved_roots = map (try_canonicalize h) protected_roots
      in fold_res (\<lambda>_ cap. validate_requested_path_against_protected_roots h (fc_resolved cap) (fc_is_file cap)
           (source_display (fc_source cap)) resolved_roots allow_parent_of_protected) () (fs caps))"

definition overlapping_protected_root :: "host \<Rightarrow> path \<Rightarrow> bool \<Rightarrow> path list \<Rightarrow> path option" where
  "overlapping_protected_root h path file protected_roots =
     map_option (try_canonicalize h) (List.find (overlaps_root h (try_canonicalize h path) file) protected_roots)"

definition profile_save_target_overlaps_protected_root :: "host \<Rightarrow> path \<Rightarrow> bool \<Rightarrow> path list \<Rightarrow> bool" where
  "profile_save_target_overlaps_protected_root h path file protected_roots =
     list_ex (overlaps_root h (try_canonicalize h path) file) protected_roots"

section \<open>Deny paths\<close>

definition is_under_deny_path :: "path \<Rightarrow> path list \<Rightarrow> bool" where
  "is_under_deny_path path deny_paths = list_ex (path_starts_with path) deny_paths"

definition supervisor_deny_paths :: "host \<Rightarrow> path list \<Rightarrow> path list" where
  "supervisor_deny_paths h deny_paths =
     concat (map (\<lambda>deny. deny # (case canonicalize h deny of
         Inr canonical \<Rightarrow> if \<not> path_eq canonical deny then [canonical] else [] | Inl _ \<Rightarrow> [])) deny_paths)"

section \<open>The process file system\<close>

record procfs_access_context =
  pc_process_pid :: u32
  pc_thread_pid :: "u32 option"

definition show_u32 :: "u32 \<Rightarrow> string" where
  "show_u32 n = show_nat (unat n)"

definition push_procfs_component :: "path \<Rightarrow> component \<Rightarrow> path" where
  "push_procfs_component p c =
     (case c of Normal part \<Rightarrow> join p part | CurDir \<Rightarrow> join p ''.'' | ParentDir \<Rightarrow> join p ''..'' | RootDir \<Rightarrow> p)"

definition resolve_procfs_path_for_child :: "path \<Rightarrow> procfs_access_context option \<Rightarrow> path res" where
  "resolve_procfs_path_for_child path procfs_context =
     (case procfs_context of
        None \<Rightarrow> Inr path
      | Some ctx \<Rightarrow>
          (case components path of
             RootDir # Normal p # proc_component # rest \<Rightarrow>
               if p \<noteq> ''proc'' then Inr path
               else if proc_component = Normal ''self''
               then Inr (foldl push_procfs_component (join ''/proc'' (show_u32 (pc_process_pid ctx))) rest)
               else if proc_component = Normal ''thread-self''
               then
                 (case pc_thread_pid ctx of
                    None \<Rightarrow> Inl (SandboxInit ''Cannot resolve /proc/thread-self without a requesting thread ID'')
                  | Some tid \<Rightarrow>
                      Inr (foldl push_procfs_component
                        (join (join (join ''/proc'' (show_u32 (pc_process_pid ctx))) ''task'') (show_u32 tid)) rest))
               else Inr path
           | _ \<Rightarrow> Inr path))"

record open_path_error =
  oe_errno :: int
  oe_message :: string
  oe_policy_blocked :: bool

text \<open>\<open>EPERM\<close> and \<open>EIO\<close> are constants of the \<open>libc\<close> crate.\<close>

record errno_consts =
  errno_EPERM :: int
  errno_EIO :: int

definition policy_blocked :: "errno_consts \<Rightarrow> string \<Rightarrow> open_path_error" where
  "policy_blocked c message = \<lparr>oe_errno = errno_EPERM c, oe_message = message, oe_policy_blocked = True\<rparr>"

definition SELF_BLOCKED_PROC_NAMES :: "string list" where
  "SELF_BLOCKED_PROC_NAMES = [''fd'', ''ns'', ''pagemap'', ''exe'', ''cwd'', ''root'', ''mountinfo'']"

definition nth_opt :: "'a list \<Rightarrow> nat \<Rightarrow> 'a option" where
  "nth_opt xs i = (if i < length xs then Some (xs ! i) else None)"

definition validate_procfs_access ::
  "errno_consts \<Rightarrow> path \<Rightarrow> procfs_access_context option \<Rightarrow> open_path_error + unit" where
  "validate_procfs_access c resolved_path procfs_context =
     (case (if valid_utf8 resolved_path then strip_prefix ''/proc/'' resolved_path else None) of
        None \<Rightarrow> Inr ()
      | Some sfx \<Rightarrow>
          (let allowed_pid = map_option (\<lambda>ctx. show_u32 (pc_process_pid ctx)) procfs_context;
               comps = split_on slash sfx;
               blocked = Inl (policy_blocked c (''Access to '' @ resolved_path @ '' is blocked by policy''))
           in if \<not> list_all is_ascii_digit (comps ! 0) then Inr ()
              else
                (let sensitive_component =
                       (if 4 \<le> length comps \<and> comps ! 1 = ''task'' \<and> list_all is_ascii_digit (comps ! 2)
                        then nth_opt comps 3 else nth_opt comps 1)
                 in if allowed_pid \<noteq> Some (comps ! 0) then blocked
                    else case sensitive_component of
                           None \<Rightarrow> Inr ()
                         | Some component \<Rightarrow> if component \<in> set SELF_BLOCKED_PROC_NAMES then blocked else Inr ())))"

definition procfs_access_never_grantable :: "errno_consts \<Rightarrow> path \<Rightarrow> path \<Rightarrow> procfs_access_context \<Rightarrow> bool" where
  "procfs_access_never_grantable c resolved_path canonical_path procfs_context =
     list_ex (\<lambda>path. case validate_procfs_access c path (Some procfs_context) of
         Inl error \<Rightarrow> oe_policy_blocked error | Inr _ \<Rightarrow> False) [resolved_path, canonical_path]"

section \<open>Opening an approved path\<close>

text \<open>
  The system calls \<open>open\<close> and \<open>openat\<close>, reading an open file to its end, rewinding it and the error number
  of an I/O error are parameters; a descriptor is a number.
\<close>

datatype open_flag = F_RDONLY | F_WRONLY | F_RDWR | F_DIRECTORY | F_NOFOLLOW | F_CLOEXEC

record open_io =
  oi_open :: "string \<Rightarrow> open_flag list \<Rightarrow> io_error + int"
  oi_openat :: "int \<Rightarrow> string \<Rightarrow> open_flag list \<Rightarrow> io_error + int"
  oi_read :: "int \<Rightarrow> io_error + string"
  oi_rewind :: "int \<Rightarrow> io_error + unit"
  oi_errno :: "io_error \<Rightarrow> int option"

definition c_string :: "string \<Rightarrow> io_error + string" where
  "c_string s = (if CHR 0x00 \<in> set s then Inl (InvalidInput ''invalid path'') else Inr s)"

definition normal_names :: "path \<Rightarrow> string list" where
  "normal_names p = List.map_filter (\<lambda>c. case c of Normal part \<Rightarrow> Some part | _ \<Rightarrow> None) (components p)"

definition open_flags :: "access_mode \<Rightarrow> open_flag list" where
  "open_flags access =
     [case access of Read \<Rightarrow> F_RDONLY | Write \<Rightarrow> F_WRONLY | ReadWrite \<Rightarrow> F_RDWR, F_NOFOLLOW, F_CLOEXEC]"

definition open_canonical_path_no_symlinks :: "open_io \<Rightarrow> path \<Rightarrow> access_mode \<Rightarrow> io_error + int" where
  "open_canonical_path_no_symlinks io canonical access =
     (if \<not> is_absolute canonical then Inl (InvalidInput ''canonical path must be absolute'')
      else let comps = normal_names canonical in
      if comps = [] then Inl (InvalidInput ''cannot open root path'')
      else
        and_then (oi_open io ''/'' [F_RDONLY, F_DIRECTORY, F_CLOEXEC]) (\<lambda>root_fd.
        and_then (fold_res (\<lambda>dir_fd part.
            and_then (c_string part) (\<lambda>c_part. oi_openat io dir_fd c_part [F_RDONLY, F_DIRECTORY, F_NOFOLLOW, F_CLOEXEC]))
          root_fd (butlast comps)) (\<lambda>dir_fd.
        and_then (c_string (last comps)) (\<lambda>leaf. oi_openat io dir_fd leaf (open_flags access)))))"

definition open_io_error :: "errno_consts \<Rightarrow> open_io \<Rightarrow> string \<Rightarrow> io_error \<Rightarrow> open_path_error" where
  "open_io_error c io message source =
     \<lparr>oe_errno = (case oi_errno io source of Some n \<Rightarrow> n | None \<Rightarrow> errno_EIO c), oe_message = message, oe_policy_blocked = False\<rparr>"

fun access_debug :: "access_mode \<Rightarrow> string" where
  "access_debug Read = ''Read''"
| "access_debug Write = ''Write''"
| "access_debug ReadWrite = ''ReadWrite''"

text \<open>The only error of \<open>resolve_procfs_path_for_child\<close> is \<^const>\<open>SandboxInit\<close>.\<close>

definition init_error_display :: "nono_error \<Rightarrow> string" where
  "init_error_display e = (case e of SandboxInit m \<Rightarrow> ''Sandbox initialization failed: '' @ m | _ \<Rightarrow> [])"

definition check_digest ::
  "errno_consts \<Rightarrow> open_io \<Rightarrow> sha256 \<Rightarrow> path \<Rightarrow> path \<Rightarrow> int \<Rightarrow> string option \<Rightarrow> open_path_error + unit" where
  "check_digest c io sha path canonical file trust_digest =
     (case trust_digest of
        None \<Rightarrow> Inr ()
      | Some expected_digest \<Rightarrow>
          and_then (map_err (\<lambda>e. open_io_error c io (''Failed to read '' @ canonical @ '' for digest re-check: '' @ io_display e) e)
                     (oi_read io file)) (\<lambda>content.
          let actual_digest = concat (map hex_byte (raw32 (sha content)))
          in if actual_digest \<noteq> expected_digest
             then Inl (policy_blocked c (''Instruction file '' @ path @ '' was modified between trust verification and open ''
                    @ ''(expected digest '' @ expected_digest @ '', got '' @ actual_digest @ ''). Possible TOCTOU attack.''))
             else map_err (\<lambda>e. open_io_error c io (''Failed to seek '' @ canonical @ '' after digest re-check: '' @ io_display e) e)
                    (oi_rewind io file)))"

definition open_path_for_access ::
  "errno_consts \<Rightarrow> host \<Rightarrow> open_io \<Rightarrow> sha256 \<Rightarrow> path \<Rightarrow> access_mode \<Rightarrow> path list \<Rightarrow> path list \<Rightarrow> string option
   \<Rightarrow> procfs_access_context option \<Rightarrow> open_path_error + int" where
  "open_path_for_access c h io sha path access protected_roots deny_paths trust_digest procfs_context =
     and_then (map_err (\<lambda>e. \<lparr>oe_errno = errno_EIO c, oe_message = init_error_display e, oe_policy_blocked = False\<rparr>)
                (resolve_procfs_path_for_child path procfs_context)) (\<lambda>resolved_path.
     and_then (validate_procfs_access c resolved_path procfs_context) (\<lambda>_.
     and_then (map_err (\<lambda>e. open_io_error c io (''Failed to canonicalize '' @ path @ '' for access: '' @ io_display e) e)
                (canonicalize h resolved_path)) (\<lambda>canonical.
     and_then (validate_procfs_access c canonical procfs_context) (\<lambda>_.
     case overlapping_protected_root h canonical False protected_roots of
       Some protected_root \<Rightarrow>
         Inl (policy_blocked c (''Path '' @ path @ '' resolves to '' @ canonical @ '' which overlaps protected nono state root ''
           @ [CHR 0x27] @ protected_root @ [CHR 0x27]))
     | None \<Rightarrow>
         if is_under_deny_path path deny_paths \<or> is_under_deny_path resolved_path deny_paths
            \<or> is_under_deny_path canonical deny_paths
         then Inl (policy_blocked c (''Path '' @ path @ '' resolves to '' @ canonical @ '' which is denied by policy''))
         else
           and_then (map_err (\<lambda>e. open_io_error c io (''Failed to open '' @ canonical @ '' for '' @ access_debug access
                       @ '' access: '' @ io_display e) e) (open_canonical_path_no_symlinks io canonical access)) (\<lambda>file.
           and_then (check_digest c io sha path canonical file trust_digest) (\<lambda>_. Inr file))))))"

section \<open>Properties\<close>

lemma validate_requested_ok:
  "validate_requested_path_against_protected_roots h p file src roots allow = Inr ()
     \<longleftrightarrow> (\<forall>r \<in> set roots. \<not> overlaps_root h (try_canonicalize h p) file r)"
  by (auto simp: validate_requested_path_against_protected_roots_def Let_def find_None_iff find_Some_iff split: option.splits)

lemma validate_caps_ok:
  "validate_caps_against_protected_roots h caps roots allow = Inr ()
     \<longleftrightarrow> (\<forall>cap \<in> set (fs caps). \<forall>r \<in> set roots.
            \<not> overlaps_root h (try_canonicalize h (fc_resolved cap)) (fc_is_file cap) (try_canonicalize h r))"
proof -
  have "fold_res (\<lambda>_ cap. f cap) () xs = Inr () \<longleftrightarrow> (\<forall>x \<in> set xs. f x = Inr ())" for f :: "fs_capability \<Rightarrow> unit res" and xs
    by (induction xs) (auto simp: and_then_Inr)
  then show ?thesis by (simp add: validate_caps_against_protected_roots_def Let_def validate_requested_ok)
qed

lemma no_overlap_disjoint:
  assumes "\<not> overlaps_root h q False r" "path_starts_with p q" "path_starts_with p (try_canonicalize h r)"
  shows False
  using assms prefix_same_cases [of "components q" "components p" "components (try_canonicalize h r)"]
  by (auto simp: overlaps_root_def Let_def path_starts_with_iff)

text \<open>
  C18. Accepted capabilities and protected roots are disjoint: when the validation succeeds, no path
  lies both under a granted directory and under a protected root, and no granted file lies under one;
  all paths in canonical form.
\<close>

theorem protected_roots_disjoint:
  assumes "validate_caps_against_protected_roots h caps roots allow = Inr ()"
    and "cap \<in> set (fs caps)" "root \<in> set roots"
    and "if fc_is_file cap then path_eq p (try_canonicalize h (fc_resolved cap))
         else path_starts_with p (try_canonicalize h (fc_resolved cap))"
  shows "\<not> path_starts_with p (try_canonicalize h (try_canonicalize h root))"
proof -
  have n: "\<not> overlaps_root h (try_canonicalize h (fc_resolved cap)) (fc_is_file cap) (try_canonicalize h root)"
    using assms(1-3) validate_caps_ok by blast
  show ?thesis
  proof (cases "fc_is_file cap")
    case True
    with assms(4) n show ?thesis
      by (auto simp: overlaps_root_def Let_def path_starts_with_cong [OF _ path_eq_refl])
  next
    case False
    with assms(4) n show ?thesis by (auto dest: no_overlap_disjoint)
  qed
qed

lemma overlapping_None:
  "overlapping_protected_root h p file roots = None \<longleftrightarrow> (\<forall>r \<in> set roots. \<not> overlaps_root h (try_canonicalize h p) file r)"
  by (auto simp: overlapping_protected_root_def find_None_iff)

lemma overlapping_Some_iff:
  "overlapping_protected_root h p file roots \<noteq> None \<longleftrightarrow> profile_save_target_overlaps_protected_root h p file roots"
  by (simp add: overlapping_None profile_save_target_overlaps_protected_root_def list_ex_iff)

lemma canonical_procfs:
  assumes "validate_procfs_access c (abs_path (''proc'' # pid # rest)) (Some ctx) = Inr ()"
    and "list_all is_ascii_digit pid" "pid \<noteq> []" "\<forall>x \<in> set (pid # rest). slash \<notin> set x"
    and "valid_utf8 (abs_path (''proc'' # pid # rest))"
  shows "pid = show_u32 (pc_process_pid ctx) \<and> (\<forall>x xs. rest = x # xs \<longrightarrow> x \<notin> set SELF_BLOCKED_PROC_NAMES)"
proof -
  have p: "strip_prefix ''/proc/'' (abs_path (''proc'' # pid # rest)) = Some (join_with [slash] (pid # rest))"
    using strip_prefix_append [of "''/proc/''" "join_with [slash] (pid # rest)"] by (simp add: abs_path_def join_with_Cons)
  have sp: "split_on slash (join_with [slash] (pid # rest)) = pid # rest"
    using assms(4) by (simp add: split_on_join_with)
  have v: "(if valid_utf8 (abs_path (''proc'' # pid # rest)) then strip_prefix ''/proc/'' (abs_path (''proc'' # pid # rest))
      else None) = Some (join_with [slash] (pid # rest))" by (simp only: assms(5) p if_True)
  have t: "''task'' \<notin> set SELF_BLOCKED_PROC_NAMES" by code_simp
  show ?thesis
    using assms(1,2) t unfolding validate_procfs_access_def v option.case sp Let_def
    by (cases rest) (auto simp: nth_opt_def split: if_splits)
qed

text \<open>
  What \<open>openat\<close> documents: the root directory is opened for \<open>/\<close>, and with \<open>O_NOFOLLOW\<close> a successful call
  opens the entry of that name in the given directory, and that entry is not a symbolic link.  The file
  system \<open>k\<close> is the one at the time of the call, which may differ from the one seen by the earlier checks.
\<close>

definition openat_contract :: "host \<Rightarrow> open_io \<Rightarrow> (int \<Rightarrow> node_path) \<Rightarrow> bool" where
  "openat_contract k io node \<longleftrightarrow>
     (\<forall>fl fd. oi_open io ''/'' fl = Inr fd \<longrightarrow> node fd = [])
     \<and> (\<forall>fd name fl fd'. F_NOFOLLOW \<in> set fl \<and> oi_openat io fd name fl = Inr fd'
          \<longrightarrow> node fd' = node fd @ [name] \<and> (\<forall>t. node_at k (node fd') \<noteq> Some (LinkN t)))"

definition no_link_upto :: "host \<Rightarrow> node_path \<Rightarrow> bool" where
  "no_link_upto k ns \<longleftrightarrow> (\<forall>m \<in> {1..length ns}. \<forall>t. node_at k (take m ns) \<noteq> Some (LinkN t))"

lemma no_link_upto_snoc:
  "no_link_upto k (ns @ [n]) \<longleftrightarrow> no_link_upto k ns \<and> (\<forall>t. node_at k (ns @ [n]) \<noteq> Some (LinkN t))"
proof -
  have "{1..length (ns @ [n])} = insert (Suc (length ns)) {1..length ns}" by auto
  then show ?thesis by (auto simp: no_link_upto_def)
qed

lemma c_string_Inr: "c_string s = Inr t \<longleftrightarrow> t = s \<and> CHR 0x00 \<notin> set s"
  by (auto simp: c_string_def)

lemma walk_no_links:
  assumes "openat_contract k io node" "no_link_upto k (node fd)"
    and "fold_res (\<lambda>dir_fd part. and_then (c_string part) (\<lambda>c_part.
      oi_openat io dir_fd c_part [F_RDONLY, F_DIRECTORY, F_NOFOLLOW, F_CLOEXEC])) fd parts = Inr fd'"
  shows "node fd' = node fd @ parts \<and> no_link_upto k (node fd')"
  using assms(2,3)
proof (induction parts arbitrary: fd)
  case (Cons x xs)
  then obtain f where f: "oi_openat io fd x [F_RDONLY, F_DIRECTORY, F_NOFOLLOW, F_CLOEXEC] = Inr f"
    and r: "fold_res (\<lambda>dir_fd part. and_then (c_string part) (\<lambda>c_part.
      oi_openat io dir_fd c_part [F_RDONLY, F_DIRECTORY, F_NOFOLLOW, F_CLOEXEC])) f xs = Inr fd'"
    by (auto simp: and_then_Inr c_string_Inr)
  have n: "node f = node fd @ [x]" "\<forall>t. node_at k (node f) \<noteq> Some (LinkN t)"
    using assms(1) f unfolding openat_contract_def by (metis list.set_intros)+
  with Cons.prems(1) have "no_link_upto k (node f)" by (simp add: no_link_upto_snoc)
  from Cons.IH [OF this r] n(1) show ?case by auto
qed simp

lemma open_canonical_no_links:
  assumes "openat_contract k io node" "open_canonical_path_no_symlinks io canonical access = Inr fd"
  shows "node fd = normal_names canonical \<and> no_link_upto k (normal_names canonical)"
proof -
  let ?ns = "normal_names canonical"
  obtain r d where ne: "?ns \<noteq> []" and r: "oi_open io ''/'' [F_RDONLY, F_DIRECTORY, F_CLOEXEC] = Inr r"
    and d: "fold_res (\<lambda>dir_fd part. and_then (c_string part) (\<lambda>c_part.
      oi_openat io dir_fd c_part [F_RDONLY, F_DIRECTORY, F_NOFOLLOW, F_CLOEXEC])) r (butlast ?ns) = Inr d"
    and l: "oi_openat io d (last ?ns) (open_flags access) = Inr fd"
    using assms(2) by (auto simp: open_canonical_path_no_symlinks_def Let_def and_then_Inr c_string_Inr split: if_splits)
  have "node r = []" using assms(1) r unfolding openat_contract_def by blast
  moreover from this have "no_link_upto k (node r)" by (simp add: no_link_upto_def)
  ultimately have "node d = butlast ?ns \<and> no_link_upto k (node d)"
    using walk_no_links [OF assms(1) _ d] by auto
  moreover have "F_NOFOLLOW \<in> set (open_flags access)" by (simp add: open_flags_def)
  then have "node fd = node d @ [last ?ns]" "\<forall>t. node_at k (node fd) \<noteq> Some (LinkN t)"
    using assms(1) l unfolding openat_contract_def by blast+
  ultimately show ?thesis using no_link_upto_snoc [of k "butlast ?ns" "last ?ns"] ne by auto
qed

lemma open_path_for_access_ok:
  assumes "open_path_for_access c h io sha path access roots deny digest ctx = Inr fd"
  obtains resolved q where "resolve_procfs_path_for_child path ctx = Inr resolved" "validate_procfs_access c resolved ctx = Inr ()"
    "canonicalize h resolved = Inr q" "validate_procfs_access c q ctx = Inr ()"
    "overlapping_protected_root h q False roots = None"
    "\<not> is_under_deny_path path deny" "\<not> is_under_deny_path resolved deny" "\<not> is_under_deny_path q deny"
    "open_canonical_path_no_symlinks io q access = Inr fd" "check_digest c io sha path q fd digest = Inr ()"
  using assms unfolding open_path_for_access_def
  by (auto simp: and_then_Inr map_err_Inr split: option.splits if_splits)

lemma check_digest_ok:
  "check_digest c io sha path q fd digest = Inr () \<Longrightarrow> digest = Some x
     \<Longrightarrow> \<exists>content. oi_read io fd = Inr content \<and> concat (map hex_byte (raw32 (sha content))) = x"
  by (auto simp: check_digest_def and_then_Inr map_err_Inr Let_def split: if_splits)



definition demo_caps :: capability_set where
  "demo_caps = new_caps\<lparr>fs :=
     [\<lparr>fc_original = ''/tmp'', fc_resolved = ''/tmp'', fc_access = ReadWrite, fc_is_file = False, fc_source = User\<rparr>]\<rparr>"

theorem protected_roots_disjoint_witness:
  "validate_caps_against_protected_roots demo_host demo_caps [''/home/.nono''] False = Inr ()
   \<and> \<not> path_starts_with ''/tmp/f'' (try_canonicalize demo_host (try_canonicalize demo_host ''/home/.nono''))"
proof -
  have v: "validate_caps_against_protected_roots demo_host demo_caps [''/home/.nono''] False = Inr ()" by code_simp
  have p: "path_starts_with ''/tmp/f'' (try_canonicalize demo_host ''/tmp'')" by code_simp
  have c: "fs demo_caps = [\<lparr>fc_original = ''/tmp'', fc_resolved = ''/tmp'', fc_access = ReadWrite, fc_is_file = False, fc_source = User\<rparr>]"
    by (simp add: demo_caps_def)
  show ?thesis
    using v protected_roots_disjoint [OF v, of "hd (fs demo_caps)" "''/home/.nono''" "''/tmp/f''"] p by (simp add: c)
qed

definition demo_open_io :: open_io where
  "demo_open_io =
     \<lparr>oi_open = (\<lambda>p fl. if p = ''/'' then Inr 0 else Inl NotFound),
      oi_openat = (\<lambda>fd name fl. if fd = 0 \<and> name = ''tmp'' then Inr 1 else Inl NotFound),
      oi_read = (\<lambda>fd. Inr ''x''), oi_rewind = (\<lambda>fd. Inr ()), oi_errno = (\<lambda>e. None)\<rparr>"


end
