(* ===== verification/Notify_Memory.thy ===== *)
theory Notify_Memory
  imports Supervisor_Paths Seccomp
begin

text \<open>
  What the supervisor reads of a child whose system call was trapped (\<open>nono/src/sandbox/linux.rs\<close>): the
  path, the \<open>open_how\<close> structure and the socket addresses in the child's memory, and the resolution
  of relative paths.  The child's memory is a parameter: opening \<open>/proc/PID/mem\<close>, seeking and reading may
  each fail.  Numbers in memory are little-endian, as on both supported architectures.
\<close>

section \<open>Memory of the child\<close>

record mem_reader =
  mr_read :: "nat \<Rightarrow> io_error + string"
  mr_read_exact :: "nat \<Rightarrow> io_error + string"

type_synonym proc_mem = "u32 \<Rightarrow> io_error + (u64 \<Rightarrow> io_error + mem_reader)"

text \<open>Constants and sizes of the \<open>libc\<close> crate beyond those of the seccomp programs.\<close>

record sup_consts =
  sc_libc :: libc
  sc_errno :: errno_consts
  sc_EACCES :: int
  sc_AT_FDCWD :: int
  sc_sockaddr_un_size :: nat
  sc_mmsghdr_size :: u64
  sc_arch :: target_arch

definition le_value :: "string \<Rightarrow> nat" where
  "le_value bs = foldr (\<lambda>b acc. byte b + 256 * acc) bs 0"

definition be_value :: "string \<Rightarrow> nat" where
  "be_value bs = le_value (rev bs)"

definition show_i32 :: "u32 \<Rightarrow> string" where
  "show_i32 n = (if sint n < 0 then ''-'' @ show_nat (nat (- sint n)) else show_nat (unat n))"

definition mem_path :: "u32 \<Rightarrow> path" where
  "mem_path pid = ''/proc/'' @ show_u32 pid @ ''/mem''"

definition open_mem :: "proc_mem \<Rightarrow> u32 \<Rightarrow> u64 \<Rightarrow> mem_reader res" where
  "open_mem mem pid addr =
     and_then (map_err (\<lambda>e. SandboxInit (''Failed to open '' @ mem_path pid @ '': '' @ io_display e)) (mem pid)) (\<lambda>file.
     map_err (\<lambda>e. SandboxInit (''Failed to seek in '' @ mem_path pid @ '': '' @ io_display e)) (file addr))"

text \<open>The bytes before the first NUL, all of them when there is none.\<close>

definition until_nul :: "string \<Rightarrow> string" where
  "until_nul buf = takeWhile (\<lambda>b. b \<noteq> CHR 0x00) buf"

definition read_notif_path :: "proc_mem \<Rightarrow> u32 \<Rightarrow> u64 \<Rightarrow> path res" where
  "read_notif_path mem pid addr =
     and_then (open_mem mem pid addr) (\<lambda>file.
     and_then (map_err (\<lambda>e. SandboxInit (''Failed to read path from '' @ mem_path pid @ '': '' @ io_display e))
                (mr_read file 4096)) (\<lambda>buf.
     let path_str = until_nul buf
     in if path_str = [] \<or> 4096 \<le> length path_str
        then Inl (SandboxInit ''Invalid path in seccomp notification (empty or too long)'')
        else if \<not> valid_utf8 path_str then Inl (SandboxInit ''Path in seccomp notification is not valid UTF-8'')
        else Inr path_str))"

definition resolve_notif_path :: "sup_consts \<Rightarrow> host \<Rightarrow> u32 \<Rightarrow> u64 \<Rightarrow> path \<Rightarrow> path res" where
  "resolve_notif_path c h pid dirfd raw_path =
     (if is_absolute raw_path then Inr raw_path
      else
        (let link = (if dirfd = ucast (word_of_int (sc_AT_FDCWD c) :: u32) \<or> dirfd = word_of_int (sc_AT_FDCWD c)
                     then ''/proc/'' @ show_u32 pid @ ''/cwd''
                     else ''/proc/'' @ show_u32 pid @ ''/fd/'' @ show_nat (unat dirfd))
         in and_then (map_err (\<lambda>e. SandboxInit (''Failed to read '' @ link @ '' for dirfd-relative path resolution: ''
                         @ io_display e)) (read_link h link)) (\<lambda>base_dir.
            Inr (join base_dir raw_path))))"

record open_how =
  oh_flags :: u64
  oh_mode :: u64
  oh_resolve :: u64

definition read_open_how :: "proc_mem \<Rightarrow> u32 \<Rightarrow> u64 \<Rightarrow> open_how res" where
  "read_open_how mem pid addr =
     and_then (open_mem mem pid addr) (\<lambda>file.
     and_then (map_err (\<lambda>e. SandboxInit (''Failed to read open_how from '' @ mem_path pid @ '': '' @ io_display e))
                (mr_read_exact file 24)) (\<lambda>buf.
     Inr \<lparr>oh_flags = of_nat (le_value (take 8 buf)), oh_mode = of_nat (le_value (take 8 (drop 8 buf))),
          oh_resolve = of_nat (le_value (take 8 (drop 16 buf)))\<rparr>))"

section \<open>Socket addresses\<close>

datatype unix_socket_kind = Pathname | Abstract | Unnamed

definition classify_af_unix :: "u64 \<Rightarrow> char option \<Rightarrow> unix_socket_kind" where
  "classify_af_unix addrlen sun_path_first_byte =
     (if addrlen \<le> 2 then Unnamed
      else case sun_path_first_byte of
             Some b \<Rightarrow> if b = CHR 0x00 then Abstract else Pathname
           | None \<Rightarrow> Unnamed)"

record sockaddr_info =
  si_family :: u16
  si_port :: u16
  si_is_loopback :: bool
  si_unix_kind :: "unix_socket_kind option"
  si_unix_path :: "path option"

definition parse_sockaddr_in :: "u16 \<Rightarrow> string \<Rightarrow> sockaddr_info res" where
  "parse_sockaddr_in family buf =
     (if length buf < 8 then Inl (SandboxInit ''sockaddr_in too small for port + addr'')
      else Inr \<lparr>si_family = family, si_port = of_nat (be_value (take 2 (drop 2 buf))), si_is_loopback = (byte (buf ! 4) = 127),
                si_unix_kind = None, si_unix_path = None\<rparr>)"

definition parse_sockaddr_in6 :: "u16 \<Rightarrow> string \<Rightarrow> sockaddr_info res" where
  "parse_sockaddr_in6 family buf =
     (if length buf < 24 then Inl (SandboxInit ''sockaddr_in6 too small for port + addr'')
      else
        (let addr = map byte (take 16 (drop 8 buf));
             is_loopback = (addr = replicate 15 0 @ [1]);
             is_v4_mapped_loopback = (take 12 addr = replicate 10 0 @ [255, 255] \<and> addr ! 12 = 127)
         in Inr \<lparr>si_family = family, si_port = of_nat (be_value (take 2 (drop 2 buf))),
                 si_is_loopback = (is_loopback \<or> is_v4_mapped_loopback), si_unix_kind = None, si_unix_path = None\<rparr>))"

definition parse_sockaddr_un :: "sup_consts \<Rightarrow> u64 \<Rightarrow> u16 \<Rightarrow> string \<Rightarrow> sockaddr_info res" where
  "parse_sockaddr_un c addrlen family buf =
     (if sc_sockaddr_un_size c < unat addrlen
      then Inl (SandboxInit (''sockaddr_un length '' @ show_nat (unat addrlen) @ '' exceeds maximum ''
                             @ show_nat (sc_sockaddr_un_size c)))
      else
        (let unix_kind = classify_af_unix addrlen (if 3 \<le> length buf then Some (buf ! 2) else None);
             name = until_nul (drop 2 buf)
         in Inr \<lparr>si_family = family, si_port = 0, si_is_loopback = True, si_unix_kind = Some unix_kind,
                 si_unix_path = (if unix_kind = Pathname \<and> name \<noteq> [] then Some name else None)\<rparr>))"

definition read_notif_sockaddr :: "sup_consts \<Rightarrow> proc_mem \<Rightarrow> u32 \<Rightarrow> u64 \<Rightarrow> u64 \<Rightarrow> sockaddr_info res" where
  "read_notif_sockaddr c mem pid addr_ptr addrlen =
     (if addrlen < 2 then Inl (SandboxInit ''sockaddr too small to contain sa_family'')
      else
        and_then (open_mem mem pid addr_ptr) (\<lambda>file.
        let max_sockaddr_len = max (sc_sockaddr_un_size c) 28
        in if 128 < max_sockaddr_len
           then Inl (SandboxInit (''maximum sockaddr length '' @ show_nat max_sockaddr_len @ '' exceeds stack buffer 128''))
           else
             and_then (map_err (\<lambda>e. SandboxInit (''Failed to read sockaddr from '' @ mem_path pid @ '': '' @ io_display e))
                        (mr_read file (min (unat addrlen) max_sockaddr_len))) (\<lambda>buf.
             if length buf < 2 then Inl (SandboxInit ''Short read for sockaddr sa_family'')
             else
               (let family = of_nat (le_value (take 2 buf))
                in if ucast family = AF_INET (sc_libc c) then parse_sockaddr_in family buf
                   else if ucast family = AF_INET6 (sc_libc c) then parse_sockaddr_in6 family buf
                   else if ucast family = AF_UNIX (sc_libc c) then parse_sockaddr_un c addrlen family buf
                   else Inr \<lparr>si_family = family, si_port = 0, si_is_loopback = False,
                             si_unix_kind = None, si_unix_path = None\<rparr>))))"

section \<open>Message headers\<close>

definition read_msghdr_dest :: "proc_mem \<Rightarrow> u32 \<Rightarrow> u64 \<Rightarrow> (u64 \<times> u64) option res" where
  "read_msghdr_dest mem pid msghdr_ptr =
     and_then (open_mem mem pid msghdr_ptr) (\<lambda>file.
     and_then (map_err (\<lambda>e. SandboxInit (''Failed to read msghdr from '' @ mem_path pid @ '': '' @ io_display e))
                (mr_read_exact file 12)) (\<lambda>buf.
     let msg_name = of_nat (le_value (take 8 buf)); msg_namelen = of_nat (le_value (take 4 (drop 8 buf)))
     in Inr (if msg_name = 0 then None else Some (msg_name, msg_namelen))))"

definition mmsghdr_at :: "sup_consts \<Rightarrow> proc_mem \<Rightarrow> u32 \<Rightarrow> u64 \<Rightarrow> nat \<Rightarrow> (u64 \<times> u64) option res" where
  "mmsghdr_at c mem pid msgvec_ptr idx =
     and_then (ok_or (SandboxInit (''sendmmsg vector offset overflow at index '' @ show_nat idx))
                (checked_mul (of_nat idx) (sc_mmsghdr_size c))) (\<lambda>offset.
     and_then (if unat msgvec_ptr + unat offset < 2 ^ 64 then Inr (msgvec_ptr + offset)
               else Inl (SandboxInit (''sendmmsg vector pointer overflow at index '' @ show_nat idx))) (\<lambda>msghdr_ptr.
     read_msghdr_dest mem pid msghdr_ptr))"

definition read_mmsghdr_dests :: "sup_consts \<Rightarrow> proc_mem \<Rightarrow> u32 \<Rightarrow> u64 \<Rightarrow> u64 \<Rightarrow> (u64 \<times> u64) option list res" where
  "read_mmsghdr_dests c mem pid msgvec_ptr vlen =
     (if 1024 < vlen then Inl (SandboxInit (''sendmmsg vector length too large to inspect: '' @ show_nat (unat vlen)))
      else fold_res (\<lambda>dests idx. and_then (mmsghdr_at c mem pid msgvec_ptr idx) (\<lambda>d. Inr (dests @ [d]))) []
             [0..<unat vlen])"

section \<open>Well-formed addresses\<close>

text \<open>The address families are different numbers of at most sixteen bits.\<close>

definition families_ok :: "libc \<Rightarrow> bool" where
  "families_ok l \<longleftrightarrow> distinct [AF_UNIX l, AF_INET l, AF_INET6 l]
     \<and> (\<forall>f \<in> {AF_UNIX l, AF_INET l, AF_INET6 l}. unat f < 65536)"

definition sockaddr_ok :: "libc \<Rightarrow> sockaddr_info \<Rightarrow> bool" where
  "sockaddr_ok l a \<longleftrightarrow>
     (si_unix_kind a \<noteq> None \<longleftrightarrow> si_family a = ucast (AF_UNIX l))
     \<and> (\<forall>p. si_unix_path a = Some p \<longrightarrow> si_unix_kind a = Some Pathname \<and> p \<noteq> [] \<and> CHR 0x00 \<notin> set p)
     \<and> (si_unix_kind a = Some Pathname \<longrightarrow> si_unix_path a \<noteq> None)
     \<and> (si_family a \<notin> {ucast (AF_INET l), ucast (AF_INET6 l)} \<longrightarrow> si_port a = 0)
     \<and> (si_family a \<notin> {ucast (AF_INET l), ucast (AF_INET6 l), ucast (AF_UNIX l)} \<longrightarrow> \<not> si_is_loopback a)"

lemma ucast_family:
  assumes "unat f < 65536"
  shows "(ucast (x :: u16) = (f :: u32)) \<longleftrightarrow> x = ucast f"
proof -
  have "unat x < 65536" by (rule order.strict_trans2 [OF unsigned_less]) simp
  then have "unat (ucast x :: u32) = unat x" by (simp add: unsigned_ucast_eq take_bit_nat_eq_self)
  moreover have "unat (ucast f :: u16) = unat f" using assms by (simp add: unsigned_ucast_eq take_bit_nat_eq_self)
  ultimately show ?thesis by (metis word_unat_eq_iff)
qed

lemma ucast_family_inj:
  assumes "unat f < 65536" "unat g < 65536"
  shows "(ucast (f :: u32) = (ucast g :: u16)) \<longleftrightarrow> f = g"
  using assms ucast_family [of f "ucast g"] ucast_family [of g "ucast g"] by auto

lemma families_distinct:
  assumes "families_ok l"
  shows "(ucast (AF_UNIX l) :: u16) \<noteq> ucast (AF_INET l)" "(ucast (AF_UNIX l) :: u16) \<noteq> ucast (AF_INET6 l)"
  using assms by (auto simp: families_ok_def ucast_family_inj)

lemma until_nul_ok: "CHR 0x00 \<notin> set (until_nul s)"
  by (auto simp: until_nul_def dest: set_takeWhileD)

lemma parse_sockaddr_in_ok:
  assumes "families_ok l" "parse_sockaddr_in (ucast (AF_INET l)) buf = Inr a"
  shows "sockaddr_ok l a \<and> si_family a = ucast (AF_INET l)"
  using assms(2) families_distinct [OF assms(1)] by (auto simp: parse_sockaddr_in_def sockaddr_ok_def split: if_splits)

lemma parse_sockaddr_in6_ok:
  assumes "families_ok l" "parse_sockaddr_in6 (ucast (AF_INET6 l)) buf = Inr a"
  shows "sockaddr_ok l a \<and> si_family a = ucast (AF_INET6 l)"
  using assms(2) families_distinct [OF assms(1)]
  by (auto simp: parse_sockaddr_in6_def Let_def sockaddr_ok_def split: if_splits)

lemma classify_Pathname:
  "classify_af_unix n (if 3 \<le> length buf then Some (buf ! 2) else None) = Pathname \<Longrightarrow> until_nul (drop 2 buf) \<noteq> []"
proof -
  assume a: "classify_af_unix n (if 3 \<le> length buf then Some (buf ! 2) else None) = Pathname"
  then have "3 \<le> length buf" "buf ! 2 \<noteq> CHR 0x00" by (auto simp: classify_af_unix_def split: if_splits)
  moreover from this have "drop 2 buf = buf ! 2 # drop 3 buf" by (simp add: Cons_nth_drop_Suc [symmetric] eval_nat_numeral)
  ultimately show ?thesis by (simp add: until_nul_def)
qed

lemma parse_sockaddr_un_ok:
  assumes "families_ok (sc_libc c)" "parse_sockaddr_un c n (ucast (AF_UNIX (sc_libc c))) buf = Inr a"
  shows "sockaddr_ok (sc_libc c) a \<and> si_family a = ucast (AF_UNIX (sc_libc c))"
  using assms(2) classify_Pathname [of n buf] until_nul_ok [of "drop 2 buf"]
  by (auto simp: parse_sockaddr_un_def Let_def sockaddr_ok_def split: if_splits)

lemma read_notif_sockaddr_cases:
  assumes "families_ok (sc_libc c)" "read_notif_sockaddr c mem pid p n = Inr a"
  obtains (inet) buf where "parse_sockaddr_in (ucast (AF_INET (sc_libc c))) buf = Inr a"
  | (inet6) buf where "parse_sockaddr_in6 (ucast (AF_INET6 (sc_libc c))) buf = Inr a"
  | (un) buf where "parse_sockaddr_un c n (ucast (AF_UNIX (sc_libc c))) buf = Inr a"
  | (other) "si_family a \<notin> {ucast (AF_INET (sc_libc c)), ucast (AF_INET6 (sc_libc c)), ucast (AF_UNIX (sc_libc c))}"
      "si_port a = 0" "\<not> si_is_loopback a" "si_unix_kind a = None" "si_unix_path a = None"
proof -
  have f: "(ucast (x :: u16) = AF_INET (sc_libc c)) = (x = ucast (AF_INET (sc_libc c)))"
    "(ucast (x :: u16) = AF_INET6 (sc_libc c)) = (x = ucast (AF_INET6 (sc_libc c)))"
    "(ucast (x :: u16) = AF_UNIX (sc_libc c)) = (x = ucast (AF_UNIX (sc_libc c)))" for x
    using assms(1) by (simp_all add: families_ok_def ucast_family)
  show ?thesis
    using assms(2) that unfolding read_notif_sockaddr_def f Let_def
    by (fastforce simp: and_then_Inr split: if_splits)
qed

text \<open>
  C31. Every socket address the supervisor reads is well formed: it has a Unix kind exactly when its family
  is Unix, a path exactly when that kind is a pathname, the path is not empty and has no NUL byte,
  only Internet addresses have a port, and an address of any other family is never taken for loopback.
\<close>

theorem read_notif_sockaddr_ok:
  assumes "families_ok (sc_libc c)" "read_notif_sockaddr c mem pid addr_ptr addrlen = Inr a"
  shows "sockaddr_ok (sc_libc c) a"
  using assms
proof (cases rule: read_notif_sockaddr_cases)
  case other
  then show ?thesis by (auto simp: sockaddr_ok_def)
qed (use assms(1) parse_sockaddr_in_ok parse_sockaddr_in6_ok parse_sockaddr_un_ok in blast)+

definition demo_consts :: sup_consts where
  "demo_consts =
     \<lparr>sc_libc = linux_x86_64, sc_errno = \<lparr>errno_EPERM = 1, errno_EIO = 5\<rparr>, sc_EACCES = 13, sc_AT_FDCWD = - 100,
      sc_sockaddr_un_size = 110, sc_mmsghdr_size = 64, sc_arch = X86_64\<rparr>"

text \<open>A child whose memory holds the address \<open>127.0.0.1:8080\<close>.\<close>

definition demo_sockaddr :: string where
  "demo_sockaddr = map char_of [2, 0, 0x1F, 0x90, 127, 0, 0, 1, 0, 0, 0, 0, 0, 0, 0, 0 :: nat]"

definition demo_mem :: proc_mem where
  "demo_mem pid = Inr (\<lambda>addr. Inr \<lparr>mr_read = (\<lambda>n. Inr (take n demo_sockaddr)), mr_read_exact = (\<lambda>n. Inl NotFound)\<rparr>)"

abbreviation demo_addr :: sockaddr_info where
  "demo_addr \<equiv> \<lparr>si_family = 2, si_port = 8080, si_is_loopback = True, si_unix_kind = None, si_unix_path = None\<rparr>"

lemma demo_bytes:
  "demo_sockaddr = [CHR 0x02, CHR 0x00, CHR 0x1F, CHR 0x90, CHR 0x7F, CHR 0x00, CHR 0x00, CHR 0x01,
     CHR 0x00, CHR 0x00, CHR 0x00, CHR 0x00, CHR 0x00, CHR 0x00, CHR 0x00, CHR 0x00]"
  by code_simp

lemma demo_read: "read_notif_sockaddr demo_consts demo_mem 7 4096 16 = Inr demo_addr"
  by (simp add: read_notif_sockaddr_def open_mem_def demo_mem_def demo_consts_def linux_x86_64_def demo_bytes
      parse_sockaddr_in_def le_value_def be_value_def)

theorem read_notif_sockaddr_ok_witness:
  "sockaddr_ok linux_x86_64 demo_addr"
proof -
  have "families_ok (sc_libc demo_consts)" by (simp add: families_ok_def demo_consts_def linux_x86_64_def)
  from read_notif_sockaddr_ok [OF this demo_read] show ?thesis by (simp add: demo_consts_def)
qed

end
