(* ===== verification/Rate_Limiter.thy ===== *)
theory Rate_Limiter
  imports Nono_Prelude
begin

text \<open>
  The token bucket of the supervisor and the throttle for the records of denied network calls
  (\<open>nono-cli/src/exec_strategy/supervisor_linux.rs\<close>).  An instant is a number of nanoseconds and is an
  argument of the operations that read the clock.
\<close>

record rate_limiter =
  rl_capacity :: u32
  rl_tokens :: u32
  rl_rate :: u32
  rl_last_refill :: nat

definition rate_limiter_new :: "nat \<Rightarrow> u32 \<Rightarrow> u32 \<Rightarrow> rate_limiter" where
  "rate_limiter_new now rate burst =
     \<lparr>rl_capacity = burst, rl_tokens = burst, rl_rate = rate, rl_last_refill = now\<rparr>"

definition sat_mul :: "'a::len word \<Rightarrow> 'a word \<Rightarrow> 'a word" where
  "sat_mul a b = (case checked_mul a b of Some c \<Rightarrow> c | None \<Rightarrow> - 1)"

text \<open>\<open>u32::try_from(n).unwrap_or(u32::MAX)\<close>\<close>

definition clamp_u32 :: "u64 \<Rightarrow> u32" where
  "clamp_u32 n = (if unat n < 2 ^ 32 then ucast n else - 1)"

definition elapsed_millis :: "nat \<Rightarrow> nat \<Rightarrow> nat" where
  "elapsed_millis now last_refill = (now - last_refill) div 1000000"

definition refill :: "nat \<Rightarrow> rate_limiter \<Rightarrow> rate_limiter" where
  "refill now self =
     (let new_tokens = sat_mul (of_nat (elapsed_millis now (rl_last_refill self)) :: u64) (ucast (rl_rate self)) div 1000
      in if new_tokens > 0
         then self\<lparr>rl_tokens := min (rl_capacity self) (sat_add (rl_tokens self) (clamp_u32 new_tokens)),
                   rl_last_refill := now\<rparr>
         else self)"

definition try_acquire :: "nat \<Rightarrow> rate_limiter \<Rightarrow> rate_limiter \<times> bool" where
  "try_acquire now self =
     (let self = refill now self
      in if rl_tokens self > 0 then (self\<lparr>rl_tokens := rl_tokens self - 1\<rparr>, True) else (self, False))"

section \<open>The throttle\<close>

record network_denial_throttle =
  nt_limiter :: rate_limiter
  nt_suppressed :: u64

definition throttle_new :: "nat \<Rightarrow> u32 \<Rightarrow> u32 \<Rightarrow> network_denial_throttle" where
  "throttle_new now rate_per_sec burst = \<lparr>nt_limiter = rate_limiter_new now rate_per_sec burst, nt_suppressed = 0\<rparr>"

definition admit :: "nat \<Rightarrow> network_denial_throttle \<Rightarrow> network_denial_throttle \<times> bool" where
  "admit now self =
     (case try_acquire now (nt_limiter self) of
        (l, True) \<Rightarrow> (self\<lparr>nt_limiter := l\<rparr>, True)
      | (l, False) \<Rightarrow> (self\<lparr>nt_limiter := l, nt_suppressed := sat_add (nt_suppressed self) 1\<rparr>, False))"

definition take_suppressed :: "network_denial_throttle \<Rightarrow> network_denial_throttle \<times> u64" where
  "take_suppressed self = (self\<lparr>nt_suppressed := 0\<rparr>, nt_suppressed self)"

section \<open>Refills\<close>

lemma unat_sat_mul: "unat (sat_mul a b) = min (unat a * unat b) (2 ^ LENGTH('a) - 1)" for a b :: "'a::len word"
proof (cases "unat a * unat b < 2 ^ LENGTH('a)")
  case True
  then have "checked_mul a b = Some (a * b)" by (simp add: checked_mul_def)
  with True show ?thesis using checked_mul_Some [of a b "a * b"] by (simp add: sat_mul_def)
next
  case False
  then show ?thesis by (simp add: sat_mul_def checked_mul_def unsigned_minus_1_eq_mask mask_eq_exp_minus_1)
qed

lemma unat_clamp_u32: "unat (clamp_u32 n) = min (unat n) (2 ^ 32 - 1)"
proof (cases "unat n < 2 ^ 32")
  case True
  then have "unat (ucast n :: u32) = unat n" by (simp add: unsigned_ucast_eq take_bit_nat_eq_self)
  with True show ?thesis by (simp add: clamp_u32_def)
next
  case False
  then show ?thesis by (simp add: clamp_u32_def unsigned_minus_1_eq_mask mask_eq_exp_minus_1)
qed

lemma unat_rate_u64: "unat (ucast (r :: u32) :: u64) = unat r"
proof -
  have "unat r < 2 ^ 32" by (rule order.strict_trans2 [OF unsigned_less]) simp
  then show ?thesis by (simp add: unsigned_ucast_eq take_bit_nat_eq_self)
qed

definition gained :: "nat \<Rightarrow> rate_limiter \<Rightarrow> nat" where
  "gained now l = unat (rl_rate l) * elapsed_millis now (rl_last_refill l) div 1000"

definition raw_tokens :: "nat \<Rightarrow> rate_limiter \<Rightarrow> u64" where
  "raw_tokens now l = sat_mul (of_nat (elapsed_millis now (rl_last_refill l)) :: u64) (ucast (rl_rate l)) div 1000"

lemma raw_tokens_le: "unat (raw_tokens now l) \<le> gained now l"
proof -
  have "unat (of_nat n :: u64) \<le> n" for n by (simp add: unsigned_of_nat)
  then have "unat (of_nat (elapsed_millis now (rl_last_refill l)) :: u64) * unat (rl_rate l)
      \<le> unat (rl_rate l) * elapsed_millis now (rl_last_refill l)" by (simp add: mult.commute mult_le_mono2)
  then show ?thesis
    by (simp add: raw_tokens_def gained_def unat_div unat_sat_mul unat_rate_u64 div_le_mono min.coboundedI1)
qed

lemma refill_fields [simp]:
  "rl_capacity (refill now l) = rl_capacity l" "rl_rate (refill now l) = rl_rate l"
  by (simp_all add: refill_def Let_def)

section \<open>Sequences of requests\<close>

fun acquire_all :: "nat list \<Rightarrow> rate_limiter \<Rightarrow> rate_limiter \<times> nat" where
  "acquire_all [] l = (l, 0)"
| "acquire_all (now # ts) l =
     (let (l1, granted) = try_acquire now l; (l2, n) = acquire_all ts l1
      in (l2, (if granted then 1 else 0) + n))"

lemma refill_alt:
  "refill now l =
     (if raw_tokens now l > 0
      then l\<lparr>rl_tokens := min (rl_capacity l) (sat_add (rl_tokens l) (clamp_u32 (raw_tokens now l))), rl_last_refill := now\<rparr>
      else l)"
  by (simp only: refill_def raw_tokens_def Let_def)

lemma unat_min: "unat (min a b) = min (unat a) (unat b)"
  by (simp add: min_def word_le_nat_alt)

lemma sat_add_clamp_le: "unat (sat_add t (clamp_u32 n)) \<le> unat t + unat n"
proof -
  have "unat (sat_add t (clamp_u32 n)) \<le> unat t + unat (clamp_u32 n)" by (simp only: unat_sat_add min.cobounded1)
  moreover have "unat (clamp_u32 n) \<le> unat n" by (simp only: unat_clamp_u32 min.cobounded1)
  ultimately show ?thesis by linarith
qed

lemma refill_tokens:
  "unat (rl_tokens (refill now l))
     \<le> unat (rl_tokens l) + unat (rl_rate l) * elapsed_millis (rl_last_refill (refill now l)) (rl_last_refill l) div 1000"
proof (cases "raw_tokens now l > 0")
  case True
  then have "unat (rl_tokens (refill now l)) \<le> unat (sat_add (rl_tokens l) (clamp_u32 (raw_tokens now l)))"
    by (simp add: refill_alt unat_min)
  also have "\<dots> \<le> unat (rl_tokens l) + gained now l"
    using sat_add_clamp_le [of "rl_tokens l" "raw_tokens now l"] raw_tokens_le [of now l] by linarith
  finally show ?thesis using True by (simp add: refill_alt gained_def)
next
  case False
  then show ?thesis by (simp only: refill_alt if_False le_add1)
qed

lemma refill_last: "rl_last_refill (refill now l) = rl_last_refill l \<or> rl_last_refill (refill now l) = now"
  by (simp add: refill_alt)

lemma unat_dec: "0 < t \<Longrightarrow> Suc (unat (t - 1)) = unat t" for t :: u32
proof -
  assume "0 < t"
  then have "t \<noteq> 0" "0 < unat t" by (auto simp: word_less_nat_alt)
  with unat_minus_one [of t] show ?thesis by simp
qed

lemma elapsed_superadditive:
  assumes "a \<le> b" "b \<le> c"
  shows "r * elapsed_millis b a div 1000 + r * elapsed_millis c b div 1000 \<le> r * elapsed_millis c a div 1000"
proof -
  have d: "x div m + y div m \<le> (x + y) div m" for x y m :: nat
    using div_add1_eq [of x y m] by linarith
  have "elapsed_millis b a + elapsed_millis c b \<le> elapsed_millis c a"
    using d [of "b - a" 1000000 "c - b"] assms by (simp add: elapsed_millis_def)
  then have "r * elapsed_millis b a + r * elapsed_millis c b \<le> r * elapsed_millis c a"
    by (metis add_mult_distrib2 mult_le_mono2)
  then show ?thesis using d [of "r * elapsed_millis b a" 1000 "r * elapsed_millis c b"] by (meson div_le_mono le_trans)
qed

lemma try_acquire_step:
  assumes "try_acquire now l = (l', granted)" "rl_last_refill l \<le> now"
  shows "(if granted then 1 else 0) + unat (rl_tokens l')
      \<le> unat (rl_tokens l) + unat (rl_rate l) * elapsed_millis (rl_last_refill l') (rl_last_refill l) div 1000
    \<and> rl_rate l' = rl_rate l \<and> rl_capacity l' = rl_capacity l \<and> rl_last_refill l \<le> rl_last_refill l' \<and> rl_last_refill l' \<le> now"
proof -
  let ?r = "refill now l"
  have "rl_last_refill l' = rl_last_refill ?r \<and> rl_rate l' = rl_rate l \<and> rl_capacity l' = rl_capacity l
      \<and> (if granted then 1 else 0) + unat (rl_tokens l') = unat (rl_tokens ?r)"
    using assms(1) by (cases "rl_tokens ?r > 0") (auto simp: try_acquire_def Let_def unat_dec)
  with refill_tokens [of now l] refill_last [of now l] assms(2) show ?thesis by auto
qed

lemma acquire_all_bound:
  assumes "acquire_all ts l = (l', n)" "sorted ts" "\<forall>t \<in> set ts. rl_last_refill l \<le> t \<and> t \<le> fin"
  shows "n + unat (rl_tokens l') \<le> unat (rl_tokens l) + unat (rl_rate l) * elapsed_millis (rl_last_refill l') (rl_last_refill l) div 1000
    \<and> rl_last_refill l \<le> rl_last_refill l' \<and> (rl_last_refill l' = rl_last_refill l \<or> rl_last_refill l' \<le> fin)"
  using assms
proof (induction ts arbitrary: l l' n)
  case Nil
  then show ?case by (simp add: elapsed_millis_def)
next
  case (Cons now ts)
  obtain l1 g where 1: "try_acquire now l = (l1, g)" by fastforce
  obtain n2 where 2: "acquire_all ts l1 = (l', n2)" "n = (if g then 1 else 0) + n2"
    using Cons.prems(1) 1 by (auto simp: split: prod.splits)
  note s = try_acquire_step [OF 1]
  have a: "rl_last_refill l \<le> now" using Cons.prems(3) by simp
  have "\<forall>t \<in> set ts. rl_last_refill l1 \<le> t \<and> t \<le> fin" using s [OF a] Cons.prems(2,3) by fastforce
  from Cons.IH [OF 2(1) _ this] Cons.prems(2)
  have IH: "n2 + unat (rl_tokens l') \<le> unat (rl_tokens l1) + unat (rl_rate l1) * elapsed_millis (rl_last_refill l') (rl_last_refill l1) div 1000"
    "rl_last_refill l1 \<le> rl_last_refill l'" "rl_last_refill l' = rl_last_refill l1 \<or> rl_last_refill l' \<le> fin" by simp_all
  have "now \<le> fin" using Cons.prems(3) by simp
  with s [OF a] IH 2(2) elapsed_superadditive [of "rl_last_refill l" "rl_last_refill l1" "rl_last_refill l'" "unat (rl_rate l)"]
  show ?case by auto
qed

text \<open>
  C32. The token bucket limits every burst: among requests at non-decreasing instants between \<open>start\<close> and
  \<open>fin\<close>, whatever their number, at most the burst size plus the rate times the elapsed time are granted.
\<close>

theorem rate_limiter_bound:
  assumes "sorted ts" "\<forall>t \<in> set ts. start \<le> t \<and> t \<le> fin"
  shows "snd (acquire_all ts (rate_limiter_new start rate burst))
    \<le> unat burst + unat rate * elapsed_millis fin start div 1000"
proof -
  let ?l = "rate_limiter_new start rate burst"
  obtain l' n where a: "acquire_all ts ?l = (l', n)" by fastforce
  have f: "rl_last_refill ?l = start" "rl_tokens ?l = burst" "rl_rate ?l = rate" by (simp_all add: rate_limiter_new_def)
  have b: "n + unat (rl_tokens l') \<le> unat burst + unat rate * elapsed_millis (rl_last_refill l') start div 1000"
    "rl_last_refill l' = start \<or> rl_last_refill l' \<le> fin"
    using acquire_all_bound [OF a assms(1), of fin] assms(2) f by simp_all
  have "elapsed_millis (rl_last_refill l') start \<le> elapsed_millis fin start"
    using b(2) by (auto simp: elapsed_millis_def intro: div_le_mono)
  then have "unat rate * elapsed_millis (rl_last_refill l') start div 1000 \<le> unat rate * elapsed_millis fin start div 1000"
    by (intro div_le_mono mult_le_mono2)
  with a b(1) show ?thesis by simp
qed

lemma raw_tokens_ge_1:
  assumes "1000 \<le> unat (rl_rate l) * elapsed_millis now (rl_last_refill l)"
    and "elapsed_millis now (rl_last_refill l) < 2 ^ 64"
  shows "1 \<le> unat (raw_tokens now l)"
proof -
  let ?e = "elapsed_millis now (rl_last_refill l)"
  have "unat (of_nat ?e :: u64) = ?e" by (rule unat_of_nat_u64 [OF assms(2)])
  then have "unat (sat_mul (of_nat ?e :: u64) (ucast (rl_rate l))) = min (?e * unat (rl_rate l)) (2 ^ 64 - 1)"
    by (simp only: unat_sat_mul unat_rate_u64) simp
  moreover have "(1000::nat) \<le> min (?e * unat (rl_rate l)) (2 ^ 64 - 1)"
    using assms(1) by (simp add: mult.commute [of ?e])
  ultimately have "1000 \<le> unat (sat_mul (of_nat ?e :: u64) (ucast (rl_rate l)))" by linarith
  then have "1000 div 1000 \<le> unat (sat_mul (of_nat ?e :: u64) (ucast (rl_rate l))) div 1000" by (rule div_le_mono)
  then show ?thesis by (simp add: raw_tokens_def unat_div)
qed

theorem rate_limiter_bound_witness:
  "snd (acquire_all [0, 0, 0, 500000000, 1000000000] (rate_limiter_new 0 1 2)) \<le> 3"
proof -
  have "snd (acquire_all [0, 0, 0, 500000000, 1000000000] (rate_limiter_new 0 1 2))
      \<le> unat (2::u32) + unat (1::u32) * elapsed_millis 1000000000 0 div 1000"
    by (rule rate_limiter_bound) simp_all
  also have "\<dots> = 3" by (simp add: elapsed_millis_def)
  finally show ?thesis .
qed

text \<open>
  A limiter that has been exhausted recovers: once one token's worth of time has passed since the
  last refill, the next request is granted.
\<close>

theorem rate_limiter_recovers:
  assumes "0 < rl_capacity l" "1000 \<le> unat (rl_rate l) * elapsed_millis now (rl_last_refill l)"
    and "elapsed_millis now (rl_last_refill l) < 2 ^ 64"
  shows "snd (try_acquire now l)"
proof -
  have n: "1 \<le> unat (raw_tokens now l)" using assms(2,3) by (rule raw_tokens_ge_1)
  then have p: "raw_tokens now l > 0" by (simp add: word_less_nat_alt)
  have "1 \<le> unat (clamp_u32 (raw_tokens now l))" using n by (simp only: unat_clamp_u32) simp
  then have "1 \<le> unat (sat_add (rl_tokens l) (clamp_u32 (raw_tokens now l)))" by (simp only: unat_sat_add) simp
  moreover have "1 \<le> unat (rl_capacity l)" using assms(1) by (simp add: word_less_nat_alt)
  ultimately have "1 \<le> unat (rl_tokens (refill now l))"
    using p by (simp add: refill_alt unat_min)
  then have "rl_tokens (refill now l) > 0" by (simp add: word_less_nat_alt)
  then show ?thesis by (simp add: try_acquire_def Let_def)
qed

theorem rate_limiter_recovers_witness:
  "snd (try_acquire 1000000000 \<lparr>rl_capacity = 5, rl_tokens = 0, rl_rate = 10, rl_last_refill = 0\<rparr>)"
proof -
  have e: "elapsed_millis 1000000000 0 = 1000" by (simp add: elapsed_millis_def)
  show ?thesis by (rule rate_limiter_recovers) (simp_all only: rate_limiter.simps e, simp_all)
qed

end
