(* ===== verification/Notify_Response.thy ===== *)
theory Notify_Response
  imports Notify_Memory Rate_Limiter Audit_Types
begin

text \<open>
  The supervisor's side of a trapped system call: its configuration, its state, the responses it sends to
  the kernel (\<open>nono/src/sandbox/linux.rs\<close>) and the records of denials (\<open>nono-cli/src/exec_strategy.rs\<close>).
  The outcomes of system calls, of the approval backend and of the audit recorder are a parameter
  (\<open>sup_io\<close>), those that may change between calls indexed by the number of earlier calls.  The state
  keeps the responses sent, each with whether the kernel took it.
\<close>

section \<open>Configuration\<close>

record seccomp_policy =
  sp_capability_elevation :: bool
  sp_proxy_fallback :: bool
  sp_af_unix_mediation :: bool
  sp_proc_comm_notify :: bool

definition needs_openat_notify :: "seccomp_policy \<Rightarrow> bool" where
  "needs_openat_notify p \<longleftrightarrow> sp_capability_elevation p \<or> sp_proc_comm_notify p"

definition needs_network_notify :: "seccomp_policy \<Rightarrow> bool" where
  "needs_network_notify p \<longleftrightarrow> sp_proxy_fallback p \<or> sp_af_unix_mediation p"

record supervisor_config =
  cfg_protected_roots :: "path list"
  cfg_deny_paths :: "path list"
  cfg_session_id :: string
  cfg_caps :: capability_set
  cfg_seccomp_policy :: seccomp_policy
  cfg_proxy_port :: u16
  cfg_proxy_bind_ports :: "u16 list"
  cfg_proxy_bind_port_ranges :: "(u16 \<times> u16) list"
  cfg_unix_socket_allowlist :: "unix_socket_capability list"
  cfg_open_url_origins :: "string list"
  cfg_open_url_allow_localhost :: bool

section \<open>State\<close>

record seccomp_notif =
  sn_pid :: u32
  sn_nr :: u32
  sn_args :: "nat \<Rightarrow> u64"

datatype notif_response = Continue | Errno int | Inject int

datatype denial_reason =
  PolicyBlocked | InsufficientAccess | UserDenied | RateLimited | BackendError | UnixSocketDenied

record denial_record =
  dr_path :: path
  dr_access :: access_mode
  dr_reason :: denial_reason

record ipc_denial_record =
  ir_target :: string
  ir_operation :: string
  ir_reason :: string
  ir_remediation :: "remediation option"

text \<open>
  \<open>io_trust\<close> is the check of instruction files: \<open>None\<close> for a path that is none, otherwise the reason
  of the refusal or the verified digest.  \<open>io_live\<close> is the live audit recorder, when there is one, and
  \<open>io_buffer\<close> the buffer of network events: absent, or present with whether its lock can be taken.
\<close>

record sup_io =
  io_host :: host
  io_mem :: proc_mem
  io_files :: open_io
  io_sha :: sha256
  io_send :: "nat \<Rightarrow> notif_response \<Rightarrow> unit res"
  io_valid :: "nat \<Rightarrow> bool res"
  io_now :: "nat \<Rightarrow> nat"
  io_millis :: "nat \<Rightarrow> u64"
  io_request_id :: string
  io_approve :: "approval_request \<Rightarrow> approval_decision res"
  io_audit :: "approval_request \<Rightarrow> approval_decision \<Rightarrow> unit res"
  io_error_text :: "nono_error \<Rightarrow> string"
  io_status :: "u32 \<Rightarrow> string option"
  io_trust :: "path \<Rightarrow> (string + string) option"
  io_open_comm :: "path \<Rightarrow> access_mode \<Rightarrow> io_error + int"
  io_live :: "network_audit_event \<Rightarrow> unit res option"
  io_buffer :: "bool option"

record notif_state =
  ns_sent :: "(notif_response \<times> bool) list"
  ns_checks :: nat
  ns_clock :: nat
  ns_limiter :: rate_limiter
  ns_denials :: "denial_record list"
  ns_ipc_denials :: "ipc_denial_record list"
  ns_throttle :: network_denial_throttle
  ns_decisions :: "((path \<times> unix_socket_op) \<times> approval_decision) list"
  ns_events :: "(network_audit_event \<times> bool) list"

section \<open>Responses\<close>

definition send_response :: "sup_io \<Rightarrow> notif_response \<Rightarrow> notif_state \<Rightarrow> notif_state \<times> unit res" where
  "send_response io r s =
     (let out = io_send io (length (ns_sent s)) r
      in (s\<lparr>ns_sent := ns_sent s @ [(r, \<not> isl out)]\<rparr>, out))"

definition deny_notif :: "sup_consts \<Rightarrow> sup_io \<Rightarrow> notif_state \<Rightarrow> notif_state \<times> unit res" where
  "deny_notif c io s = send_response io (Errno (errno_EPERM (sc_errno c))) s"

definition notif_id_valid :: "sup_io \<Rightarrow> notif_state \<Rightarrow> notif_state \<times> bool res" where
  "notif_id_valid io s = (s\<lparr>ns_checks := Suc (ns_checks s)\<rparr>, io_valid io (ns_checks s))"

text \<open>
  The idioms of the handlers: a response whose failure is ignored; a response followed by a denial when
  it fails, ignoring (\<open>answer_or_deny\<close>) or returning (\<open>answer_or_propagate\<close>) the failure of the denial;
  work done only while the notification is still valid.
\<close>

definition send_quietly :: "sup_io \<Rightarrow> notif_response \<Rightarrow> notif_state \<Rightarrow> notif_state \<times> unit res" where
  "send_quietly io r s = (fst (send_response io r s), Inr ())"

definition deny_quietly :: "sup_consts \<Rightarrow> sup_io \<Rightarrow> notif_state \<Rightarrow> notif_state \<times> unit res" where
  "deny_quietly c io s = (fst (deny_notif c io s), Inr ())"

definition answer_or_deny :: "sup_consts \<Rightarrow> sup_io \<Rightarrow> notif_response \<Rightarrow> notif_state \<Rightarrow> notif_state \<times> unit res" where
  "answer_or_deny c io r s =
     (case send_response io r s of (s, Inr _) \<Rightarrow> (s, Inr ()) | (s, Inl _) \<Rightarrow> deny_quietly c io s)"

definition answer_or_propagate :: "sup_consts \<Rightarrow> sup_io \<Rightarrow> notif_response \<Rightarrow> notif_state \<Rightarrow> notif_state \<times> unit res" where
  "answer_or_propagate c io r s =
     (case send_response io r s of (s, Inr _) \<Rightarrow> (s, Inr ()) | (s, Inl _) \<Rightarrow> deny_notif c io s)"

definition if_valid :: "sup_io \<Rightarrow> (notif_state \<Rightarrow> notif_state \<times> unit res) \<Rightarrow> notif_state \<Rightarrow> notif_state \<times> unit res" where
  "if_valid io k s =
     (case notif_id_valid io s of
        (s, Inl e) \<Rightarrow> (s, Inl e) | (s, Inr False) \<Rightarrow> (s, Inr ()) | (s, Inr True) \<Rightarrow> k s)"

section \<open>Records\<close>

definition MAX_DENIAL_RECORDS :: nat where
  "MAX_DENIAL_RECORDS = 1000"

definition record_denial :: "denial_record \<Rightarrow> notif_state \<Rightarrow> notif_state" where
  "record_denial r s =
     (if length (ns_denials s) < MAX_DENIAL_RECORDS then s\<lparr>ns_denials := ns_denials s @ [r]\<rparr> else s)"

text \<open>Taking a token of the prompt limiter and of the throttle reads the clock.\<close>

definition limiter_acquire :: "sup_io \<Rightarrow> notif_state \<Rightarrow> notif_state \<times> bool" where
  "limiter_acquire io s =
     (let (l, granted) = try_acquire (io_now io (ns_clock s)) (ns_limiter s)
      in (s\<lparr>ns_limiter := l, ns_clock := Suc (ns_clock s)\<rparr>, granted))"

definition throttle_admit :: "sup_io \<Rightarrow> notif_state \<Rightarrow> notif_state \<times> bool" where
  "throttle_admit io s =
     (let (t, granted) = admit (io_now io (ns_clock s)) (ns_throttle s)
      in (s\<lparr>ns_throttle := t, ns_clock := Suc (ns_clock s)\<rparr>, granted))"

section \<open>Traces of responses\<close>

text \<open>
  A handler has answered when it sent at least one response and every one but the last failed, so that
  the kernel takes at most one.
\<close>

definition answered :: "sup_io \<Rightarrow> notif_state \<Rightarrow> notif_state \<Rightarrow> bool" where
  "answered io s s' \<longleftrightarrow>
     (\<exists>rs. ns_sent s' = ns_sent s @ rs \<and> rs \<noteq> [] \<and> (\<forall>x \<in> set (butlast rs). \<not> snd x)
       \<and> ((\<forall>n r. io_send io n r = Inr ()) \<longrightarrow> length rs = 1))"

definition answers :: "notif_state \<Rightarrow> notif_response set" where
  "answers s = fst ` set (ns_sent s)"

definition all_valid :: "sup_io \<Rightarrow> bool" where
  "all_valid io \<longleftrightarrow> (\<forall>n. io_valid io n = Inr True)"

lemma answers_send [simp]: "answers (fst (send_response io r s)) = insert r (answers s)"
  by (auto simp: answers_def send_response_def Let_def)

lemma answers_deny [simp]:
  "answers (fst (deny_notif c io s)) = insert (Errno (errno_EPERM (sc_errno c))) (answers s)"
  by (simp add: deny_notif_def)

lemma answers_quietly [simp]:
  "answers (fst (send_quietly io r s)) = insert r (answers s)"
  "answers (fst (deny_quietly c io s)) = insert (Errno (errno_EPERM (sc_errno c))) (answers s)"
  by (simp_all add: send_quietly_def deny_quietly_def)

lemma answers_or:
  "answers (fst (answer_or_deny c io r s)) \<subseteq> insert r (insert (Errno (errno_EPERM (sc_errno c))) (answers s))"
  "answers (fst (answer_or_propagate c io r s)) \<subseteq> insert r (insert (Errno (errno_EPERM (sc_errno c))) (answers s))"
proof -
  obtain s1 out where 1: "send_response io r s = (s1, out)" by fastforce
  then have "answers s1 = insert r (answers s)" using answers_send [of io r s] by simp
  then show "answers (fst (answer_or_deny c io r s)) \<subseteq> insert r (insert (Errno (errno_EPERM (sc_errno c))) (answers s))"
    "answers (fst (answer_or_propagate c io r s)) \<subseteq> insert r (insert (Errno (errno_EPERM (sc_errno c))) (answers s))"
    by (auto simp: answer_or_deny_def answer_or_propagate_def 1 split: sum.splits)
qed

lemma answers_updates [simp]:
  "answers (s\<lparr>ns_checks := a\<rparr>) = answers s" "answers (s\<lparr>ns_clock := a\<rparr>) = answers s"
  "answers (s\<lparr>ns_limiter := l\<rparr>) = answers s" "answers (s\<lparr>ns_denials := d\<rparr>) = answers s"
  "answers (s\<lparr>ns_ipc_denials := i\<rparr>) = answers s" "answers (s\<lparr>ns_throttle := t\<rparr>) = answers s"
  "answers (s\<lparr>ns_decisions := ds\<rparr>) = answers s" "answers (s\<lparr>ns_events := es\<rparr>) = answers s"
  by (simp_all add: answers_def)

lemma sent_record_denial [simp]: "ns_sent (record_denial r s) = ns_sent s" "answers (record_denial r s) = answers s"
  by (simp_all add: record_denial_def answers_def)

lemma sent_acquire [simp]:
  "ns_sent (fst (limiter_acquire io s)) = ns_sent s" "ns_sent (fst (throttle_admit io s)) = ns_sent s"
  by (simp_all add: limiter_acquire_def throttle_admit_def Let_def split: prod.splits)

lemma answered_send: "answered io s (fst (send_response io r s))"
  by (simp add: answered_def send_response_def Let_def)

lemma answered_deny: "answered io s (fst (deny_notif c io s))"
  by (simp add: deny_notif_def answered_send)

lemma answered_quietly [intro]: "answered io s (fst (send_quietly io r s))" "answered io s (fst (deny_quietly c io s))"
  by (simp_all add: send_quietly_def deny_quietly_def answered_send answered_deny)

lemma answered_after_failure:
  assumes "send_response io r s = (s1, Inl e)" "answered io s1 s2"
  shows "answered io s s2"
proof -
  have f: "io_send io (length (ns_sent s)) r = Inl e" "ns_sent s1 = ns_sent s @ [(r, False)]"
    using assms(1) by (auto simp: send_response_def Let_def)
  obtain rs where rs: "ns_sent s2 = ns_sent s1 @ rs" "rs \<noteq> []" "\<forall>x \<in> set (butlast rs). \<not> snd x"
    using assms(2) by (auto simp: answered_def)
  have "ns_sent s2 = ns_sent s @ ((r, False) # rs)" "\<forall>x \<in> set (butlast ((r, False) # rs)). \<not> snd x"
    using f(2) rs by auto
  moreover have "\<not> (\<forall>n r. io_send io n r = Inr ())" using f(1) by (metis sum.distinct(1))
  ultimately show ?thesis unfolding answered_def by blast
qed

lemma answered_or [intro]:
  "answered io s (fst (answer_or_deny c io r s))" "answered io s (fst (answer_or_propagate c io r s))"
proof -
  obtain s1 out where 1: "send_response io r s = (s1, out)" by fastforce
  have "answered io s s1" using answered_send [of io s r] 1 by simp
  moreover have "answered io s (fst (deny_notif c io s1))" if "out = Inl e" for e
    using answered_after_failure [OF _ answered_deny] 1 that by blast
  ultimately show "answered io s (fst (answer_or_deny c io r s))" "answered io s (fst (answer_or_propagate c io r s))"
    by (auto simp: answer_or_deny_def answer_or_propagate_def deny_quietly_def 1 split: sum.splits)
qed

lemma answered_silent: "ns_sent s1 = ns_sent s \<Longrightarrow> answered io s1 s2 \<Longrightarrow> answered io s s2"
  by (simp add: answered_def)

lemma answered_if_valid:
  assumes "all_valid io" "\<And>s1. answered io s1 (fst (k s1))"
  shows "answered io s (fst (if_valid io k s))"
proof -
  let ?s = "s\<lparr>ns_checks := Suc (ns_checks s)\<rparr>"
  have "answered io s (fst (k ?s))" by (rule answered_silent [OF _ assms(2)]) simp
  with assms(1) show ?thesis by (simp add: if_valid_def notif_id_valid_def all_valid_def)
qed

text \<open>An answer to a fresh notification: a response was sent and the kernel took at most one.\<close>

lemma answered_once:
  assumes "answered io s s'" "ns_sent s = []"
  shows "ns_sent s' \<noteq> [] \<and> length (filter snd (ns_sent s')) \<le> 1
    \<and> ((\<forall>n r. io_send io n r = Inr ()) \<longrightarrow> length (ns_sent s') = 1)"
proof -
  obtain rs where rs: "ns_sent s' = rs" "rs \<noteq> []" "\<forall>x \<in> set (butlast rs). \<not> snd x"
    "(\<forall>n r. io_send io n r = Inr ()) \<longrightarrow> length rs = 1" using assms by (auto simp: answered_def)
  have "filter snd rs = filter snd (butlast rs @ [last rs])" using rs(2) by simp
  also have "\<dots> = filter snd [last rs]" using rs(3) by (simp only: filter_append) simp
  finally have "length (filter snd rs) \<le> 1" by simp
  with rs show ?thesis by simp
qed

lemma answers_if_valid:
  "r \<in> answers (fst (if_valid io k s)) \<Longrightarrow> r \<notin> answers s
     \<Longrightarrow> io_valid io (ns_checks s) = Inr True \<and> r \<in> answers (fst (k (s\<lparr>ns_checks := Suc (ns_checks s)\<rparr>)))"
  by (auto simp: if_valid_def notif_id_valid_def split: sum.splits bool.splits)

end
