(* ===== verification/Supervisor_Net.thy ===== *)
theory Supervisor_Net
  imports Notify_Response
begin

text \<open>
  Mediation of trapped network calls (\<open>nono-cli/src/exec_strategy/supervisor_linux.rs\<close>): the decision for a
  socket address, the approval of Unix sockets, the bookkeeping of denials and the handler of a notification.
\<close>

section \<open>Decisions\<close>

datatype network_decision = DecAllow | DecDeny | DecAsk path unix_socket_op

definition network_notification_out_of_scope :: "sup_consts \<Rightarrow> seccomp_policy \<Rightarrow> u16 \<Rightarrow> bool" where
  "network_notification_out_of_scope c policy family =
     (let is_unix = (family = ucast (AF_UNIX (sc_libc c)))
      in case (sp_proxy_fallback policy, sp_af_unix_mediation policy) of
           (False, True) \<Rightarrow> \<not> is_unix
         | (True, False) \<Rightarrow> is_unix
         | _ \<Rightarrow> False)"

definition unix_socket_op_for_syscall :: "sup_consts \<Rightarrow> u32 \<Rightarrow> unix_socket_op option" where
  "unix_socket_op_for_syscall c syscall =
     (if syscall = SYS_CONNECT (sc_libc c) then Some OpConnect
      else if syscall = SYS_BIND (sc_libc c) then Some OpBind
      else if syscall \<in> {SYS_SENDTO (sc_libc c), SYS_SENDMSG (sc_libc c), SYS_SENDMMSG (sc_libc c)} then Some OpSend
      else None)"

definition unix_socket_allowlist_allows :: "unix_socket_capability list \<Rightarrow> path \<Rightarrow> unix_socket_op \<Rightarrow> bool" where
  "unix_socket_allowlist_allows allowlist path op =
     list_ex (\<lambda>cap. covers cap path \<and> (case op of OpBind \<Rightarrow> permits_bind (us_mode cap) | _ \<Rightarrow> True)) allowlist"

definition canonicalize_unix_socket_bind_path :: "host \<Rightarrow> path \<Rightarrow> io_error + path" where
  "canonicalize_unix_socket_bind_path h path =
     (case canonicalize h path of
        Inr p \<Rightarrow> Inr p
      | Inl NotFound \<Rightarrow>
          and_then (ok_or (InvalidInput ''socket path has no parent directory'') (parent path)) (\<lambda>par.
          and_then (ok_or (InvalidInput ''socket path has no final component'') (file_name path)) (\<lambda>name.
          and_then (canonicalize h par) (\<lambda>resolved_parent.
          if \<not> is_dir h resolved_parent then Inl (InvalidInput ''socket parent is not a directory'')
          else Inr (join resolved_parent name))))
      | Inl e \<Rightarrow> Inl e)"

definition unix_socket_approvable :: "host \<Rightarrow> supervisor_config \<Rightarrow> path \<Rightarrow> unix_socket_op \<Rightarrow> bool" where
  "unix_socket_approvable h config canonical op \<longleftrightarrow>
     sp_capability_elevation (cfg_seccomp_policy config)
     \<and> op \<in> {OpConnect, OpBind}
     \<and> (op \<noteq> OpBind \<or> (case parent canonical of
            Some par \<Rightarrow> path_covered_with_access (cfg_caps config) par Write | None \<Rightarrow> False))
     \<and> overlapping_protected_root h canonical False (cfg_protected_roots config) = None
     \<and> \<not> is_under_deny_path canonical (cfg_deny_paths config)"

definition socket_canonical :: "host \<Rightarrow> unix_socket_op \<Rightarrow> path \<Rightarrow> io_error + path" where
  "socket_canonical h op resolved_path =
     (if op = OpBind then canonicalize_unix_socket_bind_path h resolved_path else canonicalize h resolved_path)"

definition resolve_af_unix_sockaddr_path :: "sup_consts \<Rightarrow> host \<Rightarrow> u32 \<Rightarrow> path \<Rightarrow> path res" where
  "resolve_af_unix_sockaddr_path c h child_pid path =
     resolve_notif_path c h child_pid (word_of_int (sc_AT_FDCWD c)) path"

definition decide_af_unix_pathname ::
  "sup_consts \<Rightarrow> host \<Rightarrow> supervisor_config \<Rightarrow> u32 \<Rightarrow> u32 \<Rightarrow> sockaddr_info \<Rightarrow> network_decision" where
  "decide_af_unix_pathname c h config child_pid syscall sockaddr =
     (case (si_unix_path sockaddr, unix_socket_op_for_syscall c syscall) of
        (Some path, Some op) \<Rightarrow>
          (case resolve_af_unix_sockaddr_path c h child_pid path of
             Inl _ \<Rightarrow> DecDeny
           | Inr resolved_path \<Rightarrow>
          (case socket_canonical h op resolved_path of
             Inl _ \<Rightarrow> DecDeny
           | Inr canonical \<Rightarrow>
               if unix_socket_allowlist_allows (cfg_unix_socket_allowlist config) canonical op then DecAllow
               else if unix_socket_approvable h config canonical op then DecAsk canonical op
               else DecDeny))
      | _ \<Rightarrow> DecDeny)"

definition in_port_ranges :: "u16 \<Rightarrow> (u16 \<times> u16) list \<Rightarrow> bool" where
  "in_port_ranges port ranges = list_ex (\<lambda>(start, fin). start \<le> port \<and> port \<le> fin) ranges"

definition decide_inet :: "sup_consts \<Rightarrow> supervisor_config \<Rightarrow> u32 \<Rightarrow> sockaddr_info \<Rightarrow> network_decision" where
  "decide_inet c config syscall sockaddr =
     (let port = si_port sockaddr; caps = cfg_caps config;
          localhost = (port \<in> set (localhost_ports caps) \<or> in_port_ranges port (localhost_port_ranges caps))
      in if syscall \<in> {SYS_CONNECT (sc_libc c), SYS_SENDTO (sc_libc c), SYS_SENDMSG (sc_libc c), SYS_SENDMMSG (sc_libc c)} then
           (if (syscall = SYS_CONNECT (sc_libc c) \<and> port \<in> set (tcp_connect_ports caps))
               \<or> (si_is_loopback sockaddr \<and> (port = cfg_proxy_port config \<or> localhost))
            then DecAllow else DecDeny)
         else if syscall = SYS_BIND (sc_libc c) then
           (if port \<in> set (cfg_proxy_bind_ports config) \<or> localhost \<or> in_port_ranges port (cfg_proxy_bind_port_ranges config)
            then DecAllow else DecDeny)
         else DecDeny)"

definition decide_network_notification ::
  "sup_consts \<Rightarrow> host \<Rightarrow> supervisor_config \<Rightarrow> u32 \<Rightarrow> u32 \<Rightarrow> sockaddr_info \<Rightarrow> network_decision" where
  "decide_network_notification c h config child_pid syscall sockaddr =
     (if network_notification_out_of_scope c (cfg_seccomp_policy config) (si_family sockaddr) then DecAllow
      else if si_family sockaddr = ucast (AF_UNIX (sc_libc c)) then
        (case si_unix_kind sockaddr of
           Some Pathname \<Rightarrow> decide_af_unix_pathname c h config child_pid syscall sockaddr
         | _ \<Rightarrow> DecDeny)
      else decide_inet c config syscall sockaddr)"

section \<open>Approval of Unix sockets\<close>

definition find_decision :: "path \<Rightarrow> unix_socket_op \<Rightarrow> notif_state \<Rightarrow> approval_decision option" where
  "find_decision path op s =
     map_option snd (List.find (\<lambda>((p, o'), _). path_eq p path \<and> o' = op) (ns_decisions s))"

definition socket_request :: "sup_io \<Rightarrow> supervisor_config \<Rightarrow> u32 \<Rightarrow> path \<Rightarrow> unix_socket_op \<Rightarrow> approval_request" where
  "socket_request io config child path op =
     UnixSocketReq (''unix-socket-'' @ io_request_id io) path op
       (Some ''Sandbox intercepted unix socket operation (seccomp-notify)'') child (cfg_session_id config)"

definition backend_decision :: "sup_io \<Rightarrow> approval_request \<Rightarrow> approval_decision" where
  "backend_decision io request =
     (case io_approve io request of Inr d \<Rightarrow> d | Inl e \<Rightarrow> Denied (''Approval backend error: '' @ io_error_text io e))"

definition request_unix_socket_approval ::
  "sup_io \<Rightarrow> supervisor_config \<Rightarrow> u32 option \<Rightarrow> path \<Rightarrow> unix_socket_op \<Rightarrow> notif_state
   \<Rightarrow> notif_state \<times> approval_decision res" where
  "request_unix_socket_approval io config approval path op s =
     (case approval of
        None \<Rightarrow> (s, Inr (Denied ''approval unavailable after the sandboxed process exited''))
      | Some child \<Rightarrow>
          (case find_decision path op s of
             Some decision \<Rightarrow> (s, Inr decision)
           | None \<Rightarrow>
               (case limiter_acquire io s of
                  (s, False) \<Rightarrow> (s, Inr (Denied ''approval rate limit exceeded''))
                | (s, True) \<Rightarrow>
                    (let request = socket_request io config child path op;
                         decision = backend_decision io request
                     in case io_audit io request decision of
                          Inl e \<Rightarrow> (s, Inl e)
                        | Inr _ \<Rightarrow>
                            (if decision \<in> {GrantedForSession, DeniedForSession}
                             then s\<lparr>ns_decisions := ((path, op), decision) # ns_decisions s\<rparr> else s, Inr decision)))))"

section \<open>Bookkeeping\<close>

definition network_denial_event :: "u64 \<Rightarrow> string \<Rightarrow> u16 option \<Rightarrow> string \<Rightarrow> network_audit_event" where
  "network_denial_event now target port reason =
     \<lparr>na_timestamp_unix_ms = now, na_mode = ModeConnect, na_decision = NetDeny, na_route_id = None,
      na_auth_mechanism = None, na_auth_outcome = None, na_managed_credential_active = None, na_injection_mode = None,
      na_denial_category = Some HostDenied, na_endpoint_policy_action = None, na_endpoint_policy_rule = None,
      na_approval_backend = None, na_credential_capture_action = None, na_credential_capture_name = None,
      na_credential_capture_command = None, na_credential_capture_argv = None,
      na_credential_capture_exit_status = None, na_credential_capture_duration_ms = None,
      na_credential_capture_stdout_bytes = None, na_credential_capture_stderr = None,
      na_credential_capture_cache_scope = None, na_credential_capture_output_format = None,
      na_credential_capture_header_names = None, na_credential_capture_stdin_mode = None,
      na_credential_capture_interactive = None, na_spiffe_context = None, na_target = target, na_upstream = None,
      na_port = port, na_method = None, na_path = None, na_status = None, na_reason = Some reason\<rparr>"

definition push_network_audit_event :: "sup_io \<Rightarrow> network_audit_event \<Rightarrow> notif_state \<Rightarrow> notif_state" where
  "push_network_audit_event io event s =
     (let live_recorded = (io_live io event = Some (Inr ()))
      in if io_buffer io = Some True then s\<lparr>ns_events := ns_events s @ [(event, live_recorded)]\<rparr> else s)"

definition flush_suppressed_network_denials :: "sup_io \<Rightarrow> notif_state \<Rightarrow> notif_state" where
  "flush_suppressed_network_denials io s =
     (let (t, count) = take_suppressed (ns_throttle s); s = s\<lparr>ns_throttle := t\<rparr>
      in if count = 0 then s
         else push_network_audit_event io
                (network_denial_event (io_millis io (length (ns_events s))) ''network syscalls (suppressed)'' None
                   (show_nat (unat count)
                    @ '' network syscall denials were enforced but not individually recorded (audit rate limit exceeded)'')) s)"

definition network_audit_target :: "sup_consts \<Rightarrow> sockaddr_info \<Rightarrow> string" where
  "network_audit_target c sockaddr =
     (if si_family sockaddr = ucast (AF_UNIX (sc_libc c)) then
        (case si_unix_kind sockaddr of
           Some Pathname \<Rightarrow> (case si_unix_path sockaddr of Some p \<Rightarrow> ''unix:'' @ p | None \<Rightarrow> ''unix:<unparsed>'')
         | Some Abstract \<Rightarrow> ''unix:<abstract>''
         | _ \<Rightarrow> ''unix:<unnamed>'')
      else ''family='' @ show_nat (unat (si_family sockaddr)) @ '' loopback='' @ (if si_is_loopback sockaddr then ''true'' else ''false''))"

definition op_text :: "sup_consts \<Rightarrow> u32 \<Rightarrow> string" where
  "op_text c syscall =
     (case unix_socket_op_for_syscall c syscall of Some op \<Rightarrow> socket_op_display op | None \<Rightarrow> ''syscall '' @ show_i32 syscall)"

definition network_audit_denial_reason :: "sup_consts \<Rightarrow> sockaddr_info \<Rightarrow> u32 \<Rightarrow> string" where
  "network_audit_denial_reason c sockaddr syscall =
     (if si_family sockaddr = ucast (AF_UNIX (sc_libc c)) then
        (case si_unix_kind sockaddr of
           Some Pathname \<Rightarrow> ''pathname AF_UNIX '' @ op_text c syscall @ '' denied: no matching unix_socket capability''
         | Some Abstract \<Rightarrow> ''abstract AF_UNIX '' @ op_text c syscall @ '' denied: not covered by pathname capabilities''
         | _ \<Rightarrow> ''unnamed AF_UNIX '' @ op_text c syscall @ '' denied: no pathname to authorize'')
      else ''network syscall '' @ show_i32 syscall @ '' denied for family='' @ show_nat (unat (si_family sockaddr))
           @ '' port='' @ show_nat (unat (si_port sockaddr)))"

definition record_network_audit_denial ::
  "sup_consts \<Rightarrow> sup_io \<Rightarrow> sockaddr_info \<Rightarrow> u32 \<Rightarrow> string option \<Rightarrow> notif_state \<Rightarrow> notif_state" where
  "record_network_audit_denial c io sockaddr syscall approval_denial s =
     push_network_audit_event io
       (network_denial_event (io_millis io (length (ns_events s))) (network_audit_target c sockaddr)
          (if si_port sockaddr = 0 then None else Some (si_port sockaddr))
          (case approval_denial of Some r \<Rightarrow> r | None \<Rightarrow> network_audit_denial_reason c sockaddr syscall)) s"

definition ipc_denial_details ::
  "sup_consts \<Rightarrow> host \<Rightarrow> sockaddr_info \<Rightarrow> u32 \<Rightarrow> unix_socket_op option
   \<Rightarrow> string \<times> string \<times> remediation option \<times> (path \<times> unix_socket_op) option" where
  "ipc_denial_details c h sockaddr child_pid op =
     (case si_unix_kind sockaddr of
        Some Pathname \<Rightarrow>
          (case si_unix_path sockaddr of
             None \<Rightarrow> (''unix:<unparsed-pathname>'', ''pathname not parsed'', None, None)
           | Some path \<Rightarrow>
               (case op of
                  None \<Rightarrow> (path, ''unexpected syscall'', None, None)
                | Some op \<Rightarrow>
                    (let resolved = (case resolve_af_unix_sockaddr_path c h child_pid path of Inr p \<Rightarrow> p | Inl _ \<Rightarrow> path)
                     in case socket_canonical h op resolved of
                          Inl _ \<Rightarrow> (resolved, ''no matching unix_socket capability; target could not be canonicalized'', None, None)
                        | Inr display_path \<Rightarrow>
                            (display_path, ''no matching unix_socket capability'',
                             Some (GrantUnixSocket display_path (op = OpBind)), Some (display_path, op)))))
      | Some Abstract \<Rightarrow> (''unix:<abstract>'', ''abstract namespace is not covered by pathname capabilities'', None, None)
      | _ \<Rightarrow> (''unix:<unnamed>'', ''no pathname to authorize'', None, None))"

definition record_af_unix_ipc_denial ::
  "sup_consts \<Rightarrow> host \<Rightarrow> sockaddr_info \<Rightarrow> u32 \<Rightarrow> u32 \<Rightarrow> string option \<Rightarrow> notif_state \<Rightarrow> notif_state" where
  "record_af_unix_ipc_denial c h sockaddr child_pid syscall approval_denial s =
     (if si_family sockaddr \<noteq> ucast (AF_UNIX (sc_libc c)) then s
      else
        (let (target, reason, rem, path_record) =
               ipc_denial_details c h sockaddr child_pid (unix_socket_op_for_syscall c syscall);
             s = s\<lparr>ns_ipc_denials := ns_ipc_denials s @
               [\<lparr>ir_target = target, ir_operation = op_text c syscall,
                 ir_reason = (case approval_denial of Some r \<Rightarrow> r | None \<Rightarrow> reason), ir_remediation = rem\<rparr>]\<rparr>
         in case path_record of
              None \<Rightarrow> s
            | Some (display_path, op) \<Rightarrow>
                record_denial \<lparr>dr_path = display_path, dr_access = (if op = OpBind then ReadWrite else Read),
                               dr_reason = UnixSocketDenied\<rparr> s))"

section \<open>The handler\<close>

datatype destinations = Unreadable | NoDestination | Destinations "sockaddr_info list"

definition read_all_sockaddrs :: "sup_consts \<Rightarrow> proc_mem \<Rightarrow> u32 \<Rightarrow> (u64 \<times> u64) option list \<Rightarrow> sockaddr_info list res" where
  "read_all_sockaddrs c mem pid dests =
     fold_res (\<lambda>addrs dest. case dest of
         None \<Rightarrow> Inr addrs
       | Some (addr_ptr, addrlen) \<Rightarrow> and_then (read_notif_sockaddr c mem pid addr_ptr addrlen) (\<lambda>info. Inr (addrs @ [info]))) [] dests"

definition destinations_of :: "sockaddr_info list res \<Rightarrow> destinations" where
  "destinations_of r = (case r of Inl _ \<Rightarrow> Unreadable | Inr addrs \<Rightarrow> if addrs = [] then NoDestination else Destinations addrs)"

definition read_destinations :: "sup_consts \<Rightarrow> proc_mem \<Rightarrow> seccomp_notif \<Rightarrow> destinations" where
  "read_destinations c mem notif =
     (let l = sc_libc c; nr = sn_nr notif; pid = sn_pid notif; args = sn_args notif
      in if nr = SYS_CONNECT l \<or> nr = SYS_BIND l then
           destinations_of (read_all_sockaddrs c mem pid [Some (args 1, args 2)])
         else if nr = SYS_SENDTO l then
           (if args 4 = 0 then NoDestination else destinations_of (read_all_sockaddrs c mem pid [Some (args 4, args 5)]))
         else if nr = SYS_SENDMSG l then
           destinations_of (and_then (read_msghdr_dest mem pid (args 1)) (\<lambda>dest. read_all_sockaddrs c mem pid [dest]))
         else if nr = SYS_SENDMMSG l then
           destinations_of (and_then (read_mmsghdr_dests c mem pid (args 1) (args 2)) (read_all_sockaddrs c mem pid))
         else Unreadable)"

definition approval_denial_text :: "approval_decision \<Rightarrow> string option" where
  "approval_denial_text decision =
     (case decision of
        Granted \<Rightarrow> None | GrantedForSession \<Rightarrow> None
      | Denied reason \<Rightarrow> Some (''approval denied: '' @ reason)
      | DeniedForSession \<Rightarrow> Some ''approval denied for this session''
      | Timeout \<Rightarrow> Some ''approval timed out'')"

definition deny_network ::
  "sup_consts \<Rightarrow> sup_io \<Rightarrow> seccomp_notif \<Rightarrow> sockaddr_info \<Rightarrow> string option \<Rightarrow> notif_state \<Rightarrow> notif_state \<times> unit res" where
  "deny_network c io notif sockaddr approval_denial s =
     (let (s, rec) = throttle_admit io s;
          s = (if rec then record_af_unix_ipc_denial c (io_host io) sockaddr (sn_pid notif) (sn_nr notif) approval_denial
                             (flush_suppressed_network_denials io s) else s)
      in case send_response io (Errno (sc_EACCES c)) s of
           (s, Inl e) \<Rightarrow> (s, Inl e)
         | (s, Inr _) \<Rightarrow>
             (if rec then record_network_audit_denial c io sockaddr (sn_nr notif) approval_denial s else s, Inr ()))"

fun network_loop ::
  "sup_consts \<Rightarrow> sup_io \<Rightarrow> supervisor_config \<Rightarrow> u32 option \<Rightarrow> seccomp_notif \<Rightarrow> sockaddr_info list \<Rightarrow> notif_state
   \<Rightarrow> notif_state \<times> unit res" where
  "network_loop c io config approval notif [] s = answer_or_propagate c io Continue s"
| "network_loop c io config approval notif (sockaddr # rest) s =
     (case decide_network_notification c (io_host io) config (sn_pid notif) (sn_nr notif) sockaddr of
        DecAllow \<Rightarrow> network_loop c io config approval notif rest s
      | DecDeny \<Rightarrow> deny_network c io notif sockaddr None s
      | DecAsk path op \<Rightarrow>
          (case request_unix_socket_approval io config approval path op s of
             (s, Inl e) \<Rightarrow> (fst (send_response io (Errno (sc_EACCES c)) s), Inl e)
           | (s, Inr decision) \<Rightarrow>
               if_valid io (\<lambda>s. case approval_denial_text decision of
                   None \<Rightarrow> network_loop c io config approval notif rest s
                 | Some text \<Rightarrow> deny_network c io notif sockaddr (Some text) s) s))"

definition handle_received_network_notification ::
  "sup_consts \<Rightarrow> sup_io \<Rightarrow> supervisor_config \<Rightarrow> u32 option \<Rightarrow> seccomp_notif \<Rightarrow> notif_state \<Rightarrow> notif_state \<times> unit res" where
  "handle_received_network_notification c io config approval notif s =
     (case read_destinations c (io_mem io) notif of
        Unreadable \<Rightarrow> deny_quietly c io s
      | NoDestination \<Rightarrow> answer_or_propagate c io Continue s
      | Destinations sockaddrs \<Rightarrow>
          if list_all (\<lambda>a. network_notification_out_of_scope c (cfg_seccomp_policy config) (si_family a)) sockaddrs
          then answer_or_propagate c io Continue s
          else if_valid io (network_loop c io config approval notif sockaddrs) s)"

section \<open>Every notification is answered\<close>

lemma sent_push [simp]: "ns_sent (push_network_audit_event io e s) = ns_sent s"
  by (simp add: push_network_audit_event_def Let_def)

lemma sent_flush [simp]: "ns_sent (flush_suppressed_network_denials io s) = ns_sent s"
  by (simp add: flush_suppressed_network_denials_def Let_def split: prod.splits)

lemma sent_record [simp]:
  "ns_sent (record_af_unix_ipc_denial c h a p n d s) = ns_sent s"
  "ns_sent (record_network_audit_denial c io a n d s) = ns_sent s"
  by (simp_all add: record_af_unix_ipc_denial_def record_network_audit_denial_def Let_def split: prod.splits option.splits)

lemma sent_request [simp]: "ns_sent (fst (request_unix_socket_approval io config approval path op s)) = ns_sent s"
proof -
  obtain s1 b where 1: "limiter_acquire io s = (s1, b)" by fastforce
  then have "ns_sent s1 = ns_sent s" using sent_acquire(1) [of io s] by simp
  then show ?thesis
    by (auto simp: request_unix_socket_approval_def 1 Let_def split: option.splits bool.splits sum.splits)
qed

text \<open>A denial sends the errno, whatever the throttle decides about the records.\<close>

lemma sent_deny_network:
  "ns_sent (fst (deny_network c io notif a d s)) = ns_sent (fst (send_response io (Errno (sc_EACCES c)) s))"
proof -
  obtain s1 b where 1: "throttle_admit io s = (s1, b)" by fastforce
  then have "ns_sent s1 = ns_sent s" using sent_acquire(2) [of io s] by simp
  then show ?thesis
    by (auto simp: deny_network_def 1 send_response_def Let_def split: sum.splits)
qed

lemma answered_deny_network: "answered io s (fst (deny_network c io notif a d s))"
  using answered_send [of io s "Errno (sc_EACCES c)"] by (simp add: answered_def sent_deny_network)

lemma answered_network_loop: "all_valid io \<Longrightarrow> answered io s (fst (network_loop c io config approval notif addrs s))"
proof (induction addrs arbitrary: s)
  case Nil
  then show ?case by (simp add: answered_or)
next
  case (Cons a addrs)
  show ?case
  proof (cases "decide_network_notification c (io_host io) config (sn_pid notif) (sn_nr notif) a")
    case (DecAsk path op)
    obtain s1 r where 1: "request_unix_socket_approval io config approval path op s = (s1, r)" by fastforce
    then have s1: "ns_sent s1 = ns_sent s" using sent_request [of io config approval path op s] by simp
    have k: "answered io t (fst (case approval_denial_text d of None \<Rightarrow> network_loop c io config approval notif addrs t
        | Some text \<Rightarrow> deny_network c io notif a (Some text) t))" for t d
      using Cons answered_deny_network by (cases "approval_denial_text d") auto
    show ?thesis
    proof (cases r)
      case (Inl e)
      then show ?thesis using answered_silent [OF s1 answered_send] by (simp add: DecAsk 1)
    next
      case (Inr d)
      then show ?thesis using answered_silent [OF s1 answered_if_valid [OF Cons.prems k]] by (simp add: DecAsk 1)
    qed
  qed (use Cons answered_deny_network in auto)
qed

lemma network_answered:
  assumes "all_valid io"
  shows "answered io s (fst (handle_received_network_notification c io config approval notif s))"
  unfolding handle_received_network_notification_def
  by (auto split: destinations.splits intro: answered_if_valid [OF assms] answered_network_loop [OF assms])

section \<open>What is let through\<close>

text \<open>The ports of a configuration, as sets.\<close>

definition range_ports :: "(u16 \<times> u16) list \<Rightarrow> u16 set" where
  "range_ports ranges = (\<Union>(start, fin) \<in> set ranges. {start..fin})"

lemma in_port_ranges_iff: "in_port_ranges port ranges \<longleftrightarrow> port \<in> range_ports ranges"
  by (force simp: in_port_ranges_def range_ports_def list_ex_iff)

definition localhost_set :: "supervisor_config \<Rightarrow> u16 set" where
  "localhost_set config = set (localhost_ports (cfg_caps config)) \<union> range_ports (localhost_port_ranges (cfg_caps config))"

definition bind_set :: "supervisor_config \<Rightarrow> u16 set" where
  "bind_set config = set (cfg_proxy_bind_ports config) \<union> range_ports (cfg_proxy_bind_port_ranges config) \<union> localhost_set config"

text \<open>
  An Internet destination is permitted to a call when it is a granted port of \<open>connect\<close>, a loopback address
  with the proxy's or a localhost port for \<open>connect\<close> and the sends, or a bind port for \<open>bind\<close>.
\<close>

definition inet_permitted :: "sup_consts \<Rightarrow> supervisor_config \<Rightarrow> u32 \<Rightarrow> sockaddr_info \<Rightarrow> bool" where
  "inet_permitted c config nr a \<longleftrightarrow>
     (nr = SYS_CONNECT (sc_libc c) \<and> si_port a \<in> set (tcp_connect_ports (cfg_caps config)))
     \<or> (nr \<in> {SYS_CONNECT (sc_libc c), SYS_SENDTO (sc_libc c), SYS_SENDMSG (sc_libc c), SYS_SENDMMSG (sc_libc c)}
        \<and> si_is_loopback a \<and> si_port a \<in> insert (cfg_proxy_port config) (localhost_set config))
     \<or> (nr = SYS_BIND (sc_libc c)
        \<and> nr \<notin> {SYS_CONNECT (sc_libc c), SYS_SENDTO (sc_libc c), SYS_SENDMSG (sc_libc c), SYS_SENDMMSG (sc_libc c)}
        \<and> si_port a \<in> bind_set config)"

text \<open>The canonical path of a Unix socket address for a call.\<close>

definition socket_target :: "sup_consts \<Rightarrow> host \<Rightarrow> u32 \<Rightarrow> u32 \<Rightarrow> sockaddr_info \<Rightarrow> path \<Rightarrow> unix_socket_op \<Rightarrow> bool" where
  "socket_target c h pid nr a canonical op \<longleftrightarrow>
     si_family a = ucast (AF_UNIX (sc_libc c)) \<and> si_unix_kind a = Some Pathname \<and> unix_socket_op_for_syscall c nr = Some op
     \<and> (\<exists>path resolved. si_unix_path a = Some path \<and> resolve_af_unix_sockaddr_path c h pid path = Inr resolved
          \<and> socket_canonical h op resolved = Inr canonical)"

definition socket_granted :: "supervisor_config \<Rightarrow> path \<Rightarrow> unix_socket_op \<Rightarrow> bool" where
  "socket_granted config canonical op \<longleftrightarrow>
     (\<exists>cap \<in> set (cfg_unix_socket_allowlist config). covers cap canonical \<and> (op = OpBind \<longrightarrow> permits_bind (us_mode cap)))"

lemma allowlist_iff: "unix_socket_allowlist_allows (cfg_unix_socket_allowlist config) p op \<longleftrightarrow> socket_granted config p op"
  by (cases op) (auto simp: unix_socket_allowlist_allows_def socket_granted_def list_ex_iff)

lemma decide_inet_iff: "decide_inet c config nr a = (if inet_permitted c config nr a then DecAllow else DecDeny)"
  by (auto simp: decide_inet_def inet_permitted_def Let_def in_port_ranges_iff localhost_set_def bind_set_def)

lemma decide_af_unix_iff:
  assumes "si_family a = ucast (AF_UNIX (sc_libc c))" "si_unix_kind a = Some Pathname"
  shows "decide_af_unix_pathname c h config pid nr a = DecAllow
      \<longleftrightarrow> (\<exists>p op. socket_target c h pid nr a p op \<and> socket_granted config p op)"
    and "decide_af_unix_pathname c h config pid nr a = DecAsk q op
      \<longleftrightarrow> socket_target c h pid nr a q op \<and> \<not> socket_granted config q op \<and> unix_socket_approvable h config q op"
  using assms
  by (auto simp: decide_af_unix_pathname_def socket_target_def allowlist_iff split: option.splits sum.splits if_splits)

text \<open>
  C12. The decision on a socket address is exactly the policy: without asking, a call goes through when
  its family is out of scope, when its Unix path is granted for the operation, or when its port is permitted;
  it is put to the approval backend exactly for a pathname socket that is not granted, with elevation
  enabled, never for a send, never in a protected root or under a deny path, and for a bind only in a writable directory.
\<close>

theorem network_decision_exact:
  "(decide_network_notification c h config pid nr a = DecAllow \<longleftrightarrow>
      network_notification_out_of_scope c (cfg_seccomp_policy config) (si_family a)
      \<or> (\<exists>p op. socket_target c h pid nr a p op \<and> socket_granted config p op)
      \<or> (si_family a \<noteq> ucast (AF_UNIX (sc_libc c)) \<and> inet_permitted c config nr a))
   \<and> (decide_network_notification c h config pid nr a = DecAsk q op \<longleftrightarrow>
      \<not> network_notification_out_of_scope c (cfg_seccomp_policy config) (si_family a)
      \<and> socket_target c h pid nr a q op \<and> \<not> socket_granted config q op
      \<and> sp_capability_elevation (cfg_seccomp_policy config) \<and> op \<noteq> OpSend
      \<and> (op = OpBind \<longrightarrow> (\<exists>d. parent q = Some d \<and> path_covered_with_access (cfg_caps config) d Write))
      \<and> (\<forall>r \<in> set (cfg_protected_roots config). \<not> overlaps_root h (try_canonicalize h q) False r)
      \<and> (\<forall>d \<in> set (cfg_deny_paths config). \<not> path_starts_with q d))"
proof -
  have u: "unix_socket_approvable h config q op \<longleftrightarrow> sp_capability_elevation (cfg_seccomp_policy config) \<and> op \<noteq> OpSend
      \<and> (op = OpBind \<longrightarrow> (\<exists>d. parent q = Some d \<and> path_covered_with_access (cfg_caps config) d Write))
      \<and> (\<forall>r \<in> set (cfg_protected_roots config). \<not> overlaps_root h (try_canonicalize h q) False r)
      \<and> (\<forall>d \<in> set (cfg_deny_paths config). \<not> path_starts_with q d)"
    by (cases op) (auto simp: unix_socket_approvable_def overlapping_None is_under_deny_path_def list_ex_iff split: option.splits)
  have n: "\<not> socket_target c h pid nr a p op'" if "si_family a \<noteq> ucast (AF_UNIX (sc_libc c)) \<or> si_unix_kind a \<noteq> Some Pathname" for p op'
    using that by (auto simp: socket_target_def)
  show ?thesis
  proof (cases "si_family a = ucast (AF_UNIX (sc_libc c)) \<and> si_unix_kind a = Some Pathname")
    case True
    then show ?thesis
      using decide_af_unix_iff [of a c h config pid nr] by (auto simp: decide_network_notification_def u)
  next
    case False
    then show ?thesis using n
      by (auto simp: decide_network_notification_def decide_inet_iff split: option.splits unix_socket_kind.splits)
  qed
qed

section \<open>Approvals\<close>

text \<open>A granted answer of the backend for the same socket, in this call or remembered for the session.\<close>

definition socket_approved ::
  "sup_io \<Rightarrow> supervisor_config \<Rightarrow> u32 option \<Rightarrow> notif_state \<Rightarrow> path \<Rightarrow> unix_socket_op \<Rightarrow> bool" where
  "socket_approved io config approval s path op \<longleftrightarrow>
     (\<exists>p child d. approval = Some child \<and> path_eq p path \<and> is_granted d
        \<and> (find_decision p op s = Some d \<or> io_approve io (socket_request io config child p op) = Inr d))"

lemma backend_granted:
  "is_granted (backend_decision io r) \<Longrightarrow> io_approve io r = Inr (backend_decision io r)"
  by (auto simp: backend_decision_def is_granted_def split: sum.splits)

lemma limiter_decisions: "limiter_acquire io s = (s1, b) \<Longrightarrow> ns_decisions s1 = ns_decisions s"
  by (auto simp: limiter_acquire_def Let_def split: prod.splits)

lemma request_granted:
  assumes "request_unix_socket_approval io config approval path op s = (s', Inr d)" "is_granted d"
  shows "socket_approved io config approval s path op"
proof (cases approval)
  case None
  then show ?thesis using assms by (auto simp: request_unix_socket_approval_def is_granted_def)
next
  case (Some child)
  then show ?thesis
    using assms backend_granted [of io "socket_request io config child path op"]
    unfolding socket_approved_def request_unix_socket_approval_def
    by (auto simp: Let_def is_granted_def split: option.splits prod.splits bool.splits sum.splits if_splits
        intro!: exI [of _ path])
qed

lemma request_decisions:
  assumes "request_unix_socket_approval io config approval path op s = (s', r)"
  shows "ns_decisions s' = ns_decisions s
    \<or> (\<exists>child. approval = Some child
         \<and> ns_decisions s' = ((path, op), backend_decision io (socket_request io config child path op)) # ns_decisions s)"
  using assms
  by (auto simp: request_unix_socket_approval_def Let_def dest: limiter_decisions
      split: option.splits prod.splits bool.splits sum.splits if_splits)

lemma socket_approved_cong: "ns_decisions s = ns_decisions s' \<Longrightarrow> socket_approved io config approval s = socket_approved io config approval s'"
  by (simp add: socket_approved_def find_decision_def fun_eq_iff)

lemma request_keeps:
  assumes "request_unix_socket_approval io config approval path op s = (s', r)"
    and "socket_approved io config approval s' q op'"
  shows "socket_approved io config approval s q op'"
proof -
  consider "ns_decisions s' = ns_decisions s"
    | child where "approval = Some child"
      "ns_decisions s' = ((path, op), backend_decision io (socket_request io config child path op)) # ns_decisions s"
    using request_decisions [OF assms(1)] by blast
  then show ?thesis
  proof cases
    case 1
    then show ?thesis using assms(2) socket_approved_cong by metis
  next
    case 2
    obtain p d where p: "path_eq p q" "is_granted d"
      "find_decision p op' s' = Some d \<or> io_approve io (socket_request io config child p op') = Inr d"
      using assms(2) 2(1) by (auto simp: socket_approved_def)
    have "find_decision p op' s = Some d \<or> io_approve io (socket_request io config child p op') = Inr d
        \<or> (path_eq path p \<and> op = op' \<and> io_approve io (socket_request io config child path op') = Inr d)"
      using p(2,3) backend_granted [of io "socket_request io config child path op"]
      by (auto simp: find_decision_def 2(2) split: if_splits)
    with p(1,2) 2(1) show ?thesis unfolding socket_approved_def by (metis path_eq_trans)
  qed
qed

text \<open>A destination that may be let through: by policy, or by an approval the policy permits to ask for.\<close>

definition destination_cleared ::
  "sup_consts \<Rightarrow> sup_io \<Rightarrow> supervisor_config \<Rightarrow> u32 option \<Rightarrow> seccomp_notif \<Rightarrow> notif_state \<Rightarrow> sockaddr_info \<Rightarrow> bool" where
  "destination_cleared c io config approval notif s a \<longleftrightarrow>
     (let decision = decide_network_notification c (io_host io) config (sn_pid notif) (sn_nr notif) a
      in decision = DecAllow \<or> (\<exists>path op. decision = DecAsk path op \<and> socket_approved io config approval s path op))"

lemma approval_denial_None: "approval_denial_text d = None \<longleftrightarrow> is_granted d"
  by (cases d) (simp_all add: approval_denial_text_def is_granted_def)

lemma answers_sent: "ns_sent s = ns_sent t \<Longrightarrow> answers s = answers t"
  by (simp add: answers_def)

lemma answers_deny_network: "answers (fst (deny_network c io notif a d s)) = insert (Errno (sc_EACCES c)) (answers s)"
  using answers_sent [OF sent_deny_network] by simp

lemma continue_network_loop:
  assumes "Continue \<in> answers (fst (network_loop c io config approval notif addrs s))" "Continue \<notin> answers s"
  shows "\<forall>a \<in> set addrs. destination_cleared c io config approval notif s a"
  using assms
proof (induction addrs arbitrary: s)
  case (Cons a addrs)
  let ?d = "decide_network_notification c (io_host io) config (sn_pid notif) (sn_nr notif) a"
  show ?case
  proof (cases ?d)
    case DecAllow
    then show ?thesis using Cons by (simp add: destination_cleared_def)
  next
    case DecDeny
    then show ?thesis using Cons.prems by (simp add: answers_deny_network)
  next
    case (DecAsk path op)
    obtain s1 r where 1: "request_unix_socket_approval io config approval path op s = (s1, r)" by fastforce
    then have s1: "answers s1 = answers s" using answers_sent [OF sent_request] by (metis fst_conv)
    obtain d where r: "r = Inr d" using Cons.prems by (cases r) (auto simp: DecAsk 1 s1)
    let ?s = "s1\<lparr>ns_checks := Suc (ns_checks s1)\<rparr>"
    have "Continue \<in> answers (fst (if_valid io (\<lambda>s. case approval_denial_text d of
        None \<Rightarrow> network_loop c io config approval notif addrs s | Some text \<Rightarrow> deny_network c io notif a (Some text) s) s1))"
      using Cons.prems(1) by (simp add: DecAsk 1 r)
    from answers_if_valid [OF this] Cons.prems(2)
    have "Continue \<in> answers (fst (case approval_denial_text d of None \<Rightarrow> network_loop c io config approval notif addrs ?s
        | Some text \<Rightarrow> deny_network c io notif a (Some text) ?s))" by (simp add: s1)
    then have g: "is_granted d" and l: "Continue \<in> answers (fst (network_loop c io config approval notif addrs ?s))"
      using Cons.prems(2) by (auto simp: approval_denial_None [symmetric] answers_deny_network s1 split: option.splits)
    have "socket_approved io config approval ?s q o' \<Longrightarrow> socket_approved io config approval s q o'" for q o'
      using request_keeps [OF 1] socket_approved_cong [of ?s s1] by simp
    then have "\<forall>a \<in> set addrs. destination_cleared c io config approval notif s a"
      using Cons.IH [OF l] Cons.prems(2) by (fastforce simp: destination_cleared_def Let_def s1)
    then show ?thesis using request_granted [OF 1 [unfolded r] g] by (auto simp: destination_cleared_def DecAsk)
  qed
qed simp

text \<open>
  C3. Nothing leaves the sandbox around the policy: when the handler lets a trapped call continue, either
  the call names no destination, or every destination it names, in a vector of messages too, is cleared:
  out of scope, permitted by the policy, or a socket for which the backend's approval could be asked and was granted.
\<close>

theorem network_continue_sound:
  assumes "Continue \<in> answers (fst (handle_received_network_notification c io config approval notif s))" "ns_sent s = []"
  shows "read_destinations c (io_mem io) notif = NoDestination
    \<or> (\<exists>addrs. read_destinations c (io_mem io) notif = Destinations addrs
         \<and> (\<forall>a \<in> set addrs. destination_cleared c io config approval notif s a))"
proof -
  have s: "Continue \<notin> answers s" using assms(2) by (simp add: answers_def)
  show ?thesis
  proof (cases "read_destinations c (io_mem io) notif")
    case Unreadable
    then show ?thesis using assms(1) s by (simp add: handle_received_network_notification_def)
  next
    case (Destinations addrs)
    show ?thesis
    proof (cases "list_all (\<lambda>a. network_notification_out_of_scope c (cfg_seccomp_policy config) (si_family a)) addrs")
      case True
      then show ?thesis
        using Destinations by (auto simp: list_all_iff destination_cleared_def decide_network_notification_def)
    next
      case False
      let ?s = "s\<lparr>ns_checks := Suc (ns_checks s)\<rparr>"
      have "Continue \<in> answers (fst (network_loop c io config approval notif addrs ?s))"
        using assms(1) False Destinations answers_if_valid [OF _ s] by (simp add: handle_received_network_notification_def)
      from continue_network_loop [OF this] s
      have "\<forall>a \<in> set addrs. destination_cleared c io config approval notif ?s a" by simp
      then show ?thesis using Destinations socket_approved_cong [of ?s s] by (simp add: destination_cleared_def)
    qed
  qed simp
qed

section \<open>The throttle\<close>

lemma limiter_throttle:
  "limiter_acquire io (s\<lparr>ns_throttle := t\<rparr>) = map_prod (\<lambda>s. s\<lparr>ns_throttle := t\<rparr>) id (limiter_acquire io s)"
  by (simp add: limiter_acquire_def Let_def split: prod.splits)

lemma request_throttle:
  "request_unix_socket_approval io config approval path op (s\<lparr>ns_throttle := t\<rparr>)
     = map_prod (\<lambda>s. s\<lparr>ns_throttle := t\<rparr>) id (request_unix_socket_approval io config approval path op s)"
  by (auto simp: request_unix_socket_approval_def find_decision_def limiter_throttle Let_def
      split: option.splits prod.splits bool.splits sum.splits)

definition same_outcome :: "notif_state \<times> 'a \<Rightarrow> notif_state \<times> 'a \<Rightarrow> bool" where
  "same_outcome x y \<longleftrightarrow> ns_sent (fst x) = ns_sent (fst y) \<and> snd x = snd y"

lemma deny_network_outcome:
  "same_outcome (deny_network c io notif a d s) (map_prod id (map_sum id (\<lambda>_. ())) (send_response io (Errno (sc_EACCES c)) s))"
proof -
  obtain s1 b where 1: "throttle_admit io s = (s1, b)" by fastforce
  then have "ns_sent s1 = ns_sent s" using sent_acquire(2) [of io s] by simp
  then show ?thesis
    by (auto simp: same_outcome_def deny_network_def 1 send_response_def Let_def split: sum.splits)
qed

lemma same_outcome_sent:
  assumes "ns_sent s = ns_sent t"
  shows "same_outcome (send_response io r s) (send_response io r t)"
    and "same_outcome (answer_or_propagate c io r s) (answer_or_propagate c io r t)"
    and "same_outcome (deny_network c io notif a d s) (deny_network c io notif a d t)"
proof -
  show "same_outcome (send_response io r s) (send_response io r t)" for r
    using assms by (simp add: same_outcome_def send_response_def Let_def)
  from this [of "Errno (sc_EACCES c)"] show "same_outcome (deny_network c io notif a d s) (deny_network c io notif a d t)"
    using deny_network_outcome [of c io notif a d s] deny_network_outcome [of c io notif a d t] by (simp add: same_outcome_def)
  show "same_outcome (answer_or_propagate c io r s) (answer_or_propagate c io r t)"
    using assms by (cases "io_send io (length (ns_sent t)) r")
      (simp_all add: same_outcome_def answer_or_propagate_def deny_notif_def send_response_def Let_def)
qed

lemma if_valid_throttle:
  assumes "\<And>s. same_outcome (k (s\<lparr>ns_throttle := t\<rparr>)) (k s)"
  shows "same_outcome (if_valid io k (s\<lparr>ns_throttle := t\<rparr>)) (if_valid io k s)"
proof -
  let ?n = "Suc (ns_checks s)"
  have e: "s\<lparr>ns_throttle := t, ns_checks := ?n\<rparr> = s\<lparr>ns_checks := ?n\<rparr>\<lparr>ns_throttle := t\<rparr>" by (cases s) simp
  have "same_outcome (k (s\<lparr>ns_throttle := t, ns_checks := ?n\<rparr>)) (k (s\<lparr>ns_checks := ?n\<rparr>))"
    by (subst e) (rule assms)
  then show ?thesis
    by (auto simp: same_outcome_def if_valid_def notif_id_valid_def split: sum.splits bool.splits)
qed

lemma network_loop_throttle:
  "same_outcome (network_loop c io config approval notif addrs (s\<lparr>ns_throttle := t\<rparr>)) (network_loop c io config approval notif addrs s)"
proof (induction addrs arbitrary: s)
  case Nil
  then show ?case by (simp add: same_outcome_sent)
next
  case (Cons a addrs)
  show ?case
  proof (cases "decide_network_notification c (io_host io) config (sn_pid notif) (sn_nr notif) a")
    case (DecAsk path op)
    obtain s1 r where 1: "request_unix_socket_approval io config approval path op s = (s1, r)" by fastforce
    show ?thesis
    proof (cases r)
      case (Inl e)
      then show ?thesis
        using same_outcome_sent(1) [of "s1\<lparr>ns_throttle := t\<rparr>" s1] by (simp add: DecAsk request_throttle 1 same_outcome_def)
    next
      case (Inr d)
      show ?thesis
        using Cons.IH by (auto simp: DecAsk request_throttle 1 Inr same_outcome_sent intro!: if_valid_throttle split: option.splits)
    qed
  qed (use Cons.IH same_outcome_sent in auto)
qed

text \<open>
  C20. The throttle on records never touches enforcement: whatever state it is in, the handler sends
  the same responses with the same outcomes and returns the same result.
\<close>

theorem throttle_never_enforces:
  "ns_sent (fst (handle_received_network_notification c io config approval notif (s\<lparr>ns_throttle := t\<rparr>)))
     = ns_sent (fst (handle_received_network_notification c io config approval notif s))
   \<and> snd (handle_received_network_notification c io config approval notif (s\<lparr>ns_throttle := t\<rparr>))
     = snd (handle_received_network_notification c io config approval notif s)"
proof -
  have "same_outcome (handle_received_network_notification c io config approval notif (s\<lparr>ns_throttle := t\<rparr>))
      (handle_received_network_notification c io config approval notif s)"
  proof (cases "read_destinations c (io_mem io) notif")
    case Unreadable
    then show ?thesis
      by (simp add: handle_received_network_notification_def same_outcome_def deny_quietly_def deny_notif_def send_response_def Let_def)
  next
    case NoDestination
    then show ?thesis by (simp add: handle_received_network_notification_def same_outcome_sent)
  next
    case (Destinations addrs)
    then show ?thesis
      by (simp add: handle_received_network_notification_def same_outcome_sent if_valid_throttle network_loop_throttle)
  qed
  then show ?thesis by (simp add: same_outcome_def)
qed

section \<open>An example\<close>

definition demo_io :: sup_io where
  "demo_io =
     \<lparr>io_host = demo_host,
      io_mem = demo_mem,
      io_files = demo_open_io, io_sha = (\<lambda>s. bytes32_of []), io_send = (\<lambda>n r. Inr ()), io_valid = (\<lambda>n. Inr True),
      io_now = (\<lambda>n. 0), io_millis = (\<lambda>n. 0), io_request_id = ''1'', io_approve = (\<lambda>r. Inr Granted),
      io_audit = (\<lambda>r d. Inr ()), io_error_text = (\<lambda>e. []), io_status = (\<lambda>tid. None), io_trust = (\<lambda>p. None),
      io_open_comm = (\<lambda>p a. Inl NotFound), io_live = (\<lambda>e. None), io_buffer = Some True\<rparr>"

definition demo_config :: supervisor_config where
  "demo_config =
     \<lparr>cfg_protected_roots = [''/home/.nono''], cfg_deny_paths = [''/etc''], cfg_session_id = ''s'', cfg_caps = new_caps,
      cfg_seccomp_policy = \<lparr>sp_capability_elevation = True, sp_proxy_fallback = True, sp_af_unix_mediation = True, sp_proc_comm_notify = False\<rparr>,
      cfg_proxy_port = 8080, cfg_proxy_bind_ports = [], cfg_proxy_bind_port_ranges = [], cfg_unix_socket_allowlist = [],
      cfg_open_url_origins = [''https://example.com''], cfg_open_url_allow_localhost = False\<rparr>"

definition demo_state :: notif_state where
  "demo_state =
     \<lparr>ns_sent = [], ns_checks = 0, ns_clock = 0, ns_limiter = rate_limiter_new 0 10 5, ns_denials = [], ns_ipc_denials = [],
      ns_throttle = throttle_new 0 10 5, ns_decisions = [], ns_events = []\<rparr>"

definition demo_connect :: seccomp_notif where
  "demo_connect = \<lparr>sn_pid = 7, sn_nr = 42, sn_args = (\<lambda>i. if i = 1 then 4096 else if i = 2 then 16 else 0)\<rparr>"

lemma demo_decision: "decide_network_notification demo_consts demo_host demo_config 7 42 demo_addr = DecAllow"
  by (simp add: decide_network_notification_def network_notification_out_of_scope_def decide_inet_def demo_consts_def demo_config_def
      linux_x86_64_def)

lemma demo_destinations: "read_destinations demo_consts (io_mem demo_io) demo_connect = Destinations [demo_addr]"
  using demo_read by (simp add: demo_io_def read_destinations_def demo_connect_def read_all_sockaddrs_def destinations_of_def demo_consts_def linux_x86_64_def)

lemma demo_continues:
  "Continue \<in> answers (fst (handle_received_network_notification demo_consts demo_io demo_config (Some 7) demo_connect demo_state))"
  using demo_decision
  by (simp add: handle_received_network_notification_def demo_destinations network_notification_out_of_scope_def)
    (simp add: demo_config_def demo_connect_def demo_io_def if_valid_def notif_id_valid_def answer_or_propagate_def
      send_response_def answers_def)

theorem network_continue_sound_witness:
  "destination_cleared demo_consts demo_io demo_config (Some 7) demo_connect demo_state demo_addr"
proof -
  have "ns_sent demo_state = []" by (simp add: demo_state_def)
  from network_continue_sound [OF demo_continues this] show ?thesis by (simp add: demo_destinations)
qed

theorem network_decision_exact_witness:
  "inet_permitted demo_consts demo_config 42 demo_addr \<and> si_family demo_addr \<noteq> ucast (AF_UNIX (sc_libc demo_consts))
   \<and> decide_network_notification demo_consts demo_host demo_config 7 42 demo_addr = DecAllow"
proof -
  have "inet_permitted demo_consts demo_config 42 demo_addr" "si_family demo_addr \<noteq> ucast (AF_UNIX (sc_libc demo_consts))"
    by (simp_all add: inet_permitted_def demo_consts_def demo_config_def linux_x86_64_def)
  then show ?thesis using network_decision_exact [of demo_consts demo_host demo_config 7 42 demo_addr] by blast
qed

end
