(* ===== verification/Supervisor_Files.thy ===== *)
theory Supervisor_Files
  imports Supervisor_Net
begin

text \<open>
  Mediation of trapped \<open>openat\<close> calls and the dispatch of notifications
  (\<open>nono-cli/src/exec_strategy/supervisor_linux.rs\<close>).  The check of instruction files
  (\<open>trust_intercept.rs\<close>) is a parameter.  All checks of one notification see one file system, the one
  in which the descriptor is opened may differ (\<open>openat_contract\<close>).
\<close>

section \<open>The initial capability set\<close>

record initial_capability =
  ic_path :: path
  ic_access :: access_mode
  ic_is_file :: bool

datatype initial_capability_match = Sufficient initial_capability | Insufficient initial_capability | NoMatch

definition grants_exact_file :: "path \<Rightarrow> access_mode \<Rightarrow> initial_capability list \<Rightarrow> bool" where
  "grants_exact_file path requested initial_caps =
     list_ex (\<lambda>cap. ic_is_file cap \<and> path_eq (ic_path cap) path \<and> contains (ic_access cap) requested) initial_caps"

definition initial_covers :: "path \<Rightarrow> initial_capability \<Rightarrow> bool" where
  "initial_covers path cap =
     (if ic_is_file cap then path_eq path (ic_path cap) else path_starts_with path (ic_path cap))"

text \<open>One candidate with its score; a later capability wins on a tie.\<close>

definition better_match :: "initial_capability \<Rightarrow> initial_capability option \<times> nat \<Rightarrow> initial_capability option \<times> nat" where
  "better_match cap best = (if snd best \<le> length (ic_path cap) then (Some cap, length (ic_path cap)) else best)"

definition initial_step ::
  "path \<Rightarrow> access_mode \<Rightarrow> initial_capability \<Rightarrow> (initial_capability option \<times> nat) \<times> (initial_capability option \<times> nat)
   \<Rightarrow> (initial_capability option \<times> nat) \<times> (initial_capability option \<times> nat)" where
  "initial_step path requested cap best =
     (if \<not> initial_covers path cap then best
      else (better_match cap (fst best), if contains (ic_access cap) requested then better_match cap (snd best) else snd best))"

definition match_initial_capability :: "path \<Rightarrow> access_mode \<Rightarrow> initial_capability list \<Rightarrow> initial_capability_match" where
  "match_initial_capability path requested initial_caps =
     (case fold (initial_step path requested) initial_caps ((None, 0), (None, 0)) of
        (_, (Some cap, _)) \<Rightarrow> Sufficient cap
      | ((Some cap, _), (None, _)) \<Rightarrow> Insufficient cap
      | ((None, _), (None, _)) \<Rightarrow> NoMatch)"

section \<open>The requesting process\<close>

definition str_lines :: "string \<Rightarrow> string list" where
  "str_lines s =
     (let segs = split_on newline s
      in map chomp_cr (butlast segs) @ (if last segs = [] then [] else [last segs]))"

definition parse_u32 :: "string \<Rightarrow> u32 option" where
  "parse_u32 s = map_option of_nat (parse_digits (2 ^ 32) (case strip_prefix ''+'' s of Some t \<Rightarrow> t | None \<Rightarrow> s))"

definition tgid_label :: string where
  "tgid_label = ''Tgid:'' @ [CHR 0x09]"

definition read_tgid :: "sup_io \<Rightarrow> u32 \<Rightarrow> u32" where
  "read_tgid io tid =
     (case io_status io tid of
        None \<Rightarrow> tid
      | Some status \<Rightarrow>
          (case List.find (\<lambda>l. starts_with l tgid_label) (str_lines status) of
             None \<Rightarrow> tid
           | Some l \<Rightarrow> (case parse_u32 (trim_str (drop (length tgid_label) l)) of Some tgid \<Rightarrow> tgid | None \<Rightarrow> tid)))"

definition is_proc_task_comm_for_tgid :: "path \<Rightarrow> u32 \<Rightarrow> bool" where
  "is_proc_task_comm_for_tgid path expected_tgid =
     (let number = (\<lambda>s. if list_all is_ascii_digit s then map_option of_nat (parse_digits (2 ^ 32) s) else None)
      in case components path of
           [RootDir, Normal proc, Normal tgid, Normal task, Normal tid, Normal comm] \<Rightarrow>
             proc = ''proc'' \<and> number tgid = Some expected_tgid \<and> task = ''task''
             \<and> (number tid :: u32 option) \<noteq> None \<and> comm = ''comm''
         | _ \<Rightarrow> False)"

definition open_proc_comm_for_access :: "sup_io \<Rightarrow> path \<Rightarrow> access_mode \<Rightarrow> io_error + int" where
  "open_proc_comm_for_access io path access =
     (if access = Read then Inl (OtherIo ''proc comm notify handles write-capable opens only'')
      else io_open_comm io path access)"

text \<open>
  The key of the policy lookup: the directory of a descendant in \<open>/proc\<close> stands for that of the direct
  child, from which the initial set was built.
\<close>

definition cap_check_path :: "u32 \<Rightarrow> u32 \<Rightarrow> path \<Rightarrow> path" where
  "cap_check_path child_pid notifying_tgid canonicalized =
     (if notifying_tgid \<noteq> child_pid then
        (case strip_prefix_comps canonicalized (''/proc/'' @ show_u32 notifying_tgid) of
           Some rel \<Rightarrow> foldl push_procfs_component (''/proc/'' @ show_u32 child_pid) rel
         | None \<Rightarrow> canonicalized)
      else canonicalized)"

section \<open>The handler\<close>

definition requested_path :: "sup_consts \<Rightarrow> sup_io \<Rightarrow> seccomp_notif \<Rightarrow> path res" where
  "requested_path c io notif =
     and_then (read_notif_path (io_mem io) (sn_pid notif) (sn_args notif 1))
       (resolve_notif_path c (io_host io) (sn_pid notif) (sn_args notif 0))"

definition requested_access :: "sup_consts \<Rightarrow> sup_io \<Rightarrow> seccomp_notif \<Rightarrow> access_mode option" where
  "requested_access c io notif =
     (if sn_nr notif = SYS_OPENAT (sc_arch c) then Some (classify_access_from_flags (sc_libc c) (ucast (sn_args notif 2)))
      else if sn_nr notif = SYS_OPENAT2 (sc_arch c) then
        (if \<not> validate_openat2_size (sn_args notif 3) then None
         else case read_open_how (io_mem io) (sn_pid notif) (sn_args notif 2) of
                Inr how \<Rightarrow> Some (classify_access_from_flags (sc_libc c) (ucast (oh_flags how)))
              | Inl _ \<Rightarrow> None)
      else None)"

definition procfs_context_for :: "sup_io \<Rightarrow> u32 \<Rightarrow> seccomp_notif \<Rightarrow> procfs_access_context" where
  "procfs_context_for io child_pid notif =
     \<lparr>pc_process_pid = (if sn_pid notif = child_pid then child_pid else read_tgid io (sn_pid notif)),
      pc_thread_pid = Some (sn_pid notif)\<rparr>"

definition deny_recorded ::
  "sup_consts \<Rightarrow> sup_io \<Rightarrow> path \<Rightarrow> access_mode \<Rightarrow> denial_reason \<Rightarrow> notif_state \<Rightarrow> notif_state \<times> unit res" where
  "deny_recorded c io path access reason s =
     deny_quietly c io (record_denial \<lparr>dr_path = path, dr_access = access, dr_reason = reason\<rparr> s)"

definition open_for_child ::
  "sup_consts \<Rightarrow> sup_io \<Rightarrow> supervisor_config \<Rightarrow> path \<Rightarrow> access_mode \<Rightarrow> string option \<Rightarrow> procfs_access_context
   \<Rightarrow> open_path_error + int" where
  "open_for_child c io config path access digest ctx =
     open_path_for_access (sc_errno c) (io_host io) (io_files io) (io_sha io) path access
       (cfg_protected_roots config) (cfg_deny_paths config) digest (Some ctx)"

definition file_request :: "sup_io \<Rightarrow> supervisor_config \<Rightarrow> u32 \<Rightarrow> path \<Rightarrow> access_mode \<Rightarrow> approval_request" where
  "file_request io config child path access =
     CapabilityReq (''seccomp-'' @ io_request_id io) path access
       (Some ''Sandbox intercepted file operation (seccomp-notify)'') child (cfg_session_id config)"

definition act_on_decision ::
  "sup_consts \<Rightarrow> sup_io \<Rightarrow> supervisor_config \<Rightarrow> path \<Rightarrow> access_mode \<Rightarrow> procfs_access_context \<Rightarrow> string option
   \<Rightarrow> approval_decision \<Rightarrow> notif_state \<Rightarrow> notif_state \<times> unit res" where
  "act_on_decision c io config path access ctx verified_digest decision s =
     (if is_granted decision then
        (case open_for_child c io config path access verified_digest ctx of
           Inr file \<Rightarrow> answer_or_deny c io (Inject file) s
         | Inl e \<Rightarrow> if oe_policy_blocked e then deny_quietly c io s else send_quietly io (Errno (oe_errno e)) s)
      else deny_quietly c io s)"

definition ask_backend ::
  "sup_consts \<Rightarrow> sup_io \<Rightarrow> supervisor_config \<Rightarrow> u32 \<Rightarrow> path \<Rightarrow> path \<Rightarrow> access_mode \<Rightarrow> procfs_access_context \<Rightarrow> string option
   \<Rightarrow> notif_state \<Rightarrow> notif_state \<times> unit res" where
  "ask_backend c io config child path canonicalized access ctx verified_digest s =
     (let request = file_request io config child path access
      in case io_approve io request of
           Inl e \<Rightarrow>
             (let s = record_denial \<lparr>dr_path = canonicalized, dr_access = access, dr_reason = BackendError\<rparr> s;
                  (s, deny_result) = deny_notif c io s;
                  audit_result = io_audit io request (Denied (''Approval backend error: '' @ io_error_text io e))
              in (s, and_then deny_result (\<lambda>_. audit_result)))
         | Inr decision \<Rightarrow>
             (let s = (if is_denied decision
                       then record_denial \<lparr>dr_path = canonicalized, dr_access = access, dr_reason = UserDenied\<rparr> s else s)
              in case io_audit io request decision of
                   Inl audit_error \<Rightarrow> (fst (deny_notif c io s), Inl audit_error)
                 | Inr _ \<Rightarrow>
                     if_valid io (act_on_decision c io config path access ctx verified_digest decision) s))"

definition ask_about_file ::
  "sup_consts \<Rightarrow> sup_io \<Rightarrow> supervisor_config \<Rightarrow> u32 \<Rightarrow> path \<Rightarrow> path \<Rightarrow> access_mode \<Rightarrow> procfs_access_context
   \<Rightarrow> notif_state \<Rightarrow> notif_state \<times> unit res" where
  "ask_about_file c io config child path canonicalized access ctx s =
     (case limiter_acquire io s of
        (s, False) \<Rightarrow> deny_recorded c io canonicalized access RateLimited s
      | (s, True) \<Rightarrow>
          (case io_trust io path of
             Some (Inl _) \<Rightarrow> deny_recorded c io canonicalized access PolicyBlocked s
           | Some (Inr digest) \<Rightarrow> ask_backend c io config child path canonicalized access ctx (Some digest) s
           | None \<Rightarrow> ask_backend c io config child path canonicalized access ctx None s))"

definition mediate_new_file ::
  "sup_consts \<Rightarrow> sup_io \<Rightarrow> supervisor_config \<Rightarrow> u32 \<Rightarrow> path \<Rightarrow> path \<Rightarrow> path \<Rightarrow> access_mode \<Rightarrow> procfs_access_context
   \<Rightarrow> notif_state \<Rightarrow> notif_state \<times> unit res" where
  "mediate_new_file c io config child path resolved_path canonicalized access ctx s =
     (if symlink_metadata (io_host io) path \<in> {Inl NotFound, Inl NotADirectory} then
        if_valid io (answer_or_deny c io Continue) s
      else if is_under_deny_path path (cfg_deny_paths config) \<or> is_under_deny_path resolved_path (cfg_deny_paths config)
              \<or> is_under_deny_path canonicalized (cfg_deny_paths config) then
        deny_recorded c io canonicalized access PolicyBlocked s
      else if procfs_access_never_grantable (sc_errno c) resolved_path canonicalized ctx then
        deny_recorded c io canonicalized access PolicyBlocked s
      else if \<not> sp_capability_elevation (cfg_seccomp_policy config) then
        deny_recorded c io canonicalized access PolicyBlocked s
      else ask_about_file c io config child path canonicalized access ctx s)"

definition mediate_file ::
  "sup_consts \<Rightarrow> sup_io \<Rightarrow> supervisor_config \<Rightarrow> initial_capability list \<Rightarrow> u32 \<Rightarrow> path \<Rightarrow> path \<Rightarrow> access_mode
   \<Rightarrow> procfs_access_context \<Rightarrow> notif_state \<Rightarrow> notif_state \<times> unit res" where
  "mediate_file c io config initial_caps child path resolved_path access ctx s =
     (let h = io_host io;
          canonicalized = try_canonicalize h resolved_path;
          check_path = cap_check_path child (pc_process_pid ctx) canonicalized
      in if (overlapping_protected_root h canonicalized False (cfg_protected_roots config) \<noteq> None
             \<or> overlapping_protected_root h resolved_path False (cfg_protected_roots config) \<noteq> None)
            \<and> \<not> grants_exact_file check_path access initial_caps then
           deny_recorded c io canonicalized access PolicyBlocked s
         else if sp_proc_comm_notify (cfg_seccomp_policy config) \<and> access \<in> {Write, ReadWrite}
                 \<and> is_proc_task_comm_for_tgid canonicalized (pc_process_pid ctx) then
           (case open_proc_comm_for_access io canonicalized access of
              Inr file \<Rightarrow> if_valid io (answer_or_deny c io (Inject file)) s
            | Inl e \<Rightarrow> send_quietly io (Errno (case oi_errno (io_files io) e of Some n \<Rightarrow> n | None \<Rightarrow> errno_EIO (sc_errno c))) s)
         else
           (case match_initial_capability check_path access initial_caps of
              Insufficient _ \<Rightarrow> deny_recorded c io canonicalized access InsufficientAccess s
            | Sufficient _ \<Rightarrow>
                if path_starts_with canonicalized ''/proc'' then
                  (case open_for_child c io config path access None ctx of
                     Inr file \<Rightarrow> if_valid io (answer_or_deny c io (Inject file)) s
                   | Inl e \<Rightarrow> if oe_policy_blocked e then deny_recorded c io canonicalized access PolicyBlocked s
                              else send_quietly io (Errno (oe_errno e)) s)
                else if_valid io (answer_or_deny c io Continue) s
            | NoMatch \<Rightarrow> mediate_new_file c io config child path resolved_path canonicalized access ctx s))"

definition mediate_requested ::
  "sup_consts \<Rightarrow> sup_io \<Rightarrow> supervisor_config \<Rightarrow> initial_capability list \<Rightarrow> u32 \<Rightarrow> seccomp_notif \<Rightarrow> path \<Rightarrow> notif_state
   \<Rightarrow> notif_state \<times> unit res" where
  "mediate_requested c io config initial_caps child notif path s =
     (case requested_access c io notif of
        None \<Rightarrow> deny_quietly c io s
      | Some access \<Rightarrow>
          (let ctx = procfs_context_for io child notif
           in case resolve_procfs_path_for_child path (Some ctx) of
                Inl _ \<Rightarrow> deny_quietly c io s
              | Inr resolved_path \<Rightarrow> mediate_file c io config initial_caps child path resolved_path access ctx s))"

definition handle_received_filesystem_notification ::
  "sup_consts \<Rightarrow> sup_io \<Rightarrow> supervisor_config \<Rightarrow> initial_capability list \<Rightarrow> u32 \<Rightarrow> seccomp_notif \<Rightarrow> notif_state
   \<Rightarrow> notif_state \<times> unit res" where
  "handle_received_filesystem_notification c io config initial_caps child notif s =
     (case requested_path c io notif of
        Inl _ \<Rightarrow> deny_quietly c io s
      | Inr path \<Rightarrow> if_valid io (mediate_requested c io config initial_caps child notif path) s)"

definition handle_combined_notification ::
  "sup_consts \<Rightarrow> sup_io \<Rightarrow> supervisor_config \<Rightarrow> initial_capability list \<Rightarrow> u32 \<Rightarrow> seccomp_notif \<Rightarrow> notif_state
   \<Rightarrow> notif_state \<times> unit res" where
  "handle_combined_notification c io config initial_caps child notif s =
     (if sn_nr notif \<in> {SYS_OPENAT (sc_arch c), SYS_OPENAT2 (sc_arch c)} then
        (if \<not> needs_openat_notify (cfg_seccomp_policy config) then deny_notif c io s
         else handle_received_filesystem_notification c io config initial_caps child notif s)
      else handle_received_network_notification c io config (Some child) notif s)"

section \<open>Matching the initial set\<close>

text \<open>A candidate after a scan: of greatest score among the capabilities seen that satisfy \<open>P\<close>.\<close>

definition best_of :: "(initial_capability \<Rightarrow> bool) \<Rightarrow> initial_capability list \<Rightarrow> initial_capability option \<times> nat \<Rightarrow> bool" where
  "best_of P caps b \<longleftrightarrow>
     (case b of
        (None, n) \<Rightarrow> n = 0 \<and> (\<forall>x \<in> set caps. \<not> P x)
      | (Some x, n) \<Rightarrow> x \<in> set caps \<and> P x \<and> n = length (ic_path x)
          \<and> (\<forall>y \<in> set caps. P y \<longrightarrow> length (ic_path y) \<le> length (ic_path x)))"

lemma best_of_snoc:
  assumes "best_of P caps b"
  shows "best_of P (caps @ [x]) (if P x then better_match x b else b)"
  using assms by (cases b; cases "fst b") (auto simp: best_of_def better_match_def)

lemma initial_scan:
  "best_of (initial_covers path) caps (fst (fold (initial_step path requested) caps ((None, 0), (None, 0))))
   \<and> best_of (\<lambda>x. initial_covers path x \<and> contains (ic_access x) requested) caps
       (snd (fold (initial_step path requested) caps ((None, 0), (None, 0))))"
proof (induction caps rule: rev_induct)
  case Nil
  then show ?case by (simp add: best_of_def)
next
  case (snoc x caps)
  then show ?case
    using best_of_snoc [OF conjunct1 [OF snoc.IH], of x] best_of_snoc [OF conjunct2 [OF snoc.IH], of x]
    by (auto simp: initial_step_def [of path requested x])
qed

lemma match_initial_cases:
  shows match_Sufficient: "match_initial_capability path requested caps = Sufficient cap
      \<Longrightarrow> best_of (\<lambda>x. initial_covers path x \<and> contains (ic_access x) requested) caps (Some cap, length (ic_path cap))"
    and match_Insufficient: "match_initial_capability path requested caps = Insufficient cap
      \<Longrightarrow> best_of (initial_covers path) caps (Some cap, length (ic_path cap))
          \<and> best_of (\<lambda>x. initial_covers path x \<and> contains (ic_access x) requested) caps (None, 0)"
    and match_NoMatch: "match_initial_capability path requested caps = NoMatch \<Longrightarrow> best_of (initial_covers path) caps (None, 0)"
proof -
  obtain a n b m where f: "fold (initial_step path requested) caps ((None, 0), (None, 0)) = ((a, n), (b, m))"
    by (metis prod.exhaust)
  note defs = match_initial_capability_def f best_of_def
  show "match_initial_capability path requested caps = Sufficient cap
      \<Longrightarrow> best_of (\<lambda>x. initial_covers path x \<and> contains (ic_access x) requested) caps (Some cap, length (ic_path cap))"
    "match_initial_capability path requested caps = Insufficient cap
      \<Longrightarrow> best_of (initial_covers path) caps (Some cap, length (ic_path cap))
          \<and> best_of (\<lambda>x. initial_covers path x \<and> contains (ic_access x) requested) caps (None, 0)"
    "match_initial_capability path requested caps = NoMatch \<Longrightarrow> best_of (initial_covers path) caps (None, 0)"
    using initial_scan [of path caps requested] by (cases a; cases b; auto simp: defs)+
qed

text \<open>
  The lookup in the initial set is complete: it reports sufficient exactly when some capability
  covers the path with the requested access, insufficient exactly when the path is covered but never with that
  access, nothing exactly when it is not covered, and the capability it reports has the longest path of its kind.
\<close>

theorem match_initial_capability_correct:
  "case match_initial_capability path requested caps of
     Sufficient cap \<Rightarrow> cap \<in> set caps \<and> initial_covers path cap \<and> contains (ic_access cap) requested
       \<and> (\<forall>y \<in> set caps. initial_covers path y \<and> contains (ic_access y) requested \<longrightarrow> length (ic_path y) \<le> length (ic_path cap))
   | Insufficient cap \<Rightarrow> cap \<in> set caps \<and> initial_covers path cap
       \<and> (\<forall>y \<in> set caps. initial_covers path y \<longrightarrow> \<not> contains (ic_access y) requested \<and> length (ic_path y) \<le> length (ic_path cap))
   | NoMatch \<Rightarrow> (\<forall>y \<in> set caps. \<not> initial_covers path y)"
proof (cases "match_initial_capability path requested caps")
  case (Sufficient cap)
  then show ?thesis using match_Sufficient [OF Sufficient] by (simp add: best_of_def)
next
  case (Insufficient cap)
  then show ?thesis using match_Insufficient [OF Insufficient] by (auto simp: best_of_def)
next
  case NoMatch
  then show ?thesis using match_NoMatch [OF NoMatch] by (simp add: best_of_def)
qed

section \<open>Every notification is answered\<close>

lemma answered_deny_recorded: "answered io s (fst (deny_recorded c io p a r s))"
  by (rule answered_silent [OF _ answered_quietly(2), of "record_denial \<lparr>dr_path = p, dr_access = a, dr_reason = r\<rparr> s",
        unfolded deny_recorded_def [symmetric]]) simp

lemma answered_after_record: "answered io (record_denial r s) s' \<Longrightarrow> answered io s s'"
  by (rule answered_silent [of "record_denial r s"]) simp_all

lemma answered_act: "answered io s (fst (act_on_decision c io config path access ctx digest d s))"
  by (auto simp: act_on_decision_def split: sum.splits)

lemma answered_ask_backend:
  assumes "all_valid io"
  shows "answered io s (fst (ask_backend c io config child path can access ctx digest s))"
proof (cases "io_approve io (file_request io config child path access)")
  case (Inl e)
  then show ?thesis
    using answered_after_record [OF answered_deny] by (simp add: ask_backend_def Let_def split: prod.splits) (metis fst_conv)
next
  case (Inr d)
  let ?s = "if is_denied d then record_denial \<lparr>dr_path = can, dr_access = access, dr_reason = UserDenied\<rparr> s else s"
  have "answered io ?s (fst (ask_backend c io config child path can access ctx digest s))"
    using Inr answered_if_valid [OF assms answered_act] answered_deny [of io ?s c]
    by (cases "io_audit io (file_request io config child path access) d") (simp_all add: ask_backend_def Let_def)
  then show ?thesis using answered_after_record by (cases "is_denied d") auto
qed

lemma answered_ask_about_file:
  assumes "all_valid io"
  shows "answered io s (fst (ask_about_file c io config child path can access ctx s))"
proof -
  obtain s1 b where 1: "limiter_acquire io s = (s1, b)" by fastforce
  then have "ns_sent s1 = ns_sent s" using sent_acquire(1) [of io s] by simp
  then show ?thesis
    by (auto simp: ask_about_file_def 1 split: bool.splits option.splits sum.splits
        intro: answered_silent [of s1] answered_deny_recorded answered_ask_backend [OF assms])
qed

lemma answered_mediate_file:
  assumes "all_valid io"
  shows "answered io s (fst (mediate_file c io config caps child path resolved access ctx s))"
proof -
  have new: "answered io s (fst (mediate_new_file c io config child path resolved can access ctx s))" for can
    by (simp add: mediate_new_file_def answered_deny_recorded answered_ask_about_file [OF assms]
        answered_if_valid [OF assms] answered_or)
  show ?thesis
    unfolding mediate_file_def Let_def
    by (auto intro: new answered_deny_recorded answered_if_valid [OF assms] split: sum.splits initial_capability_match.splits)
qed

lemma answered_filesystem:
  assumes "all_valid io"
  shows "answered io s (fst (handle_received_filesystem_notification c io config caps child notif s))"
proof -
  have k: "answered io s (fst (mediate_requested c io config caps child notif path s))" for path s
    by (auto simp: mediate_requested_def Let_def answered_mediate_file [OF assms] split: option.splits sum.splits)
  show ?thesis
    unfolding handle_received_filesystem_notification_def
    using answered_if_valid [OF assms k] by (auto split: sum.splits)
qed

text \<open>
  C5. No trapped call is left hanging: while its notification stays valid, the supervisor always sends a
  response, for files and for the network; it sends another one only after a failure, so the kernel takes
  at most one, and exactly one is sent when sending does not fail.
\<close>

theorem notification_answered:
  assumes "all_valid io" "ns_sent s = []"
    and "s' = fst (handle_combined_notification c io config caps child notif s)"
  shows "ns_sent s' \<noteq> [] \<and> length (filter snd (ns_sent s')) \<le> 1
    \<and> ((\<forall>n r. io_send io n r = Inr ()) \<longrightarrow> length (ns_sent s') = 1)"
proof (rule answered_once)
  show "answered io s s'"
    unfolding assms(3) handle_combined_notification_def
    using answered_filesystem [OF assms(1)] network_answered [OF assms(1)] answered_deny by simp
qed (rule assms(2))

theorem notification_answered_witness:
  "length (ns_sent (fst (handle_combined_notification demo_consts demo_io demo_config [] 7 demo_connect demo_state))) = 1"
proof -
  have "all_valid demo_io" "ns_sent demo_state = []" "\<forall>n r. io_send demo_io n r = Inr ()"
    by (simp_all add: all_valid_def demo_io_def demo_state_def)
  then show ?thesis using notification_answered [OF _ _ refl] by blast
qed

section \<open>What the child gets\<close>

lemma new_answer_or_deny:
  "x \<in> answers (fst (answer_or_deny c io r s)) \<Longrightarrow> x \<notin> answers s \<Longrightarrow> x = r \<or> (\<exists>e. x = Errno e)"
  using answers_or(1) [of c io r s] by auto

lemma answers_deny_recorded:
  "answers (fst (deny_recorded c io p a r s)) = insert (Errno (errno_EPERM (sc_errno c))) (answers s)"
  by (simp add: deny_recorded_def)

text \<open>
  A descriptor opened after an approval: the policy permits to ask, the file is either no instruction
  file or a verified one, and the backend granted the request.
\<close>

definition approved_open ::
  "sup_consts \<Rightarrow> sup_io \<Rightarrow> supervisor_config \<Rightarrow> u32 \<Rightarrow> path \<Rightarrow> access_mode \<Rightarrow> procfs_access_context \<Rightarrow> int \<Rightarrow> bool" where
  "approved_open c io config child path access ctx fd \<longleftrightarrow>
     (\<exists>digest d. io_trust io path = map_option Inr digest \<and> io_approve io (file_request io config child path access) = Inr d
        \<and> is_granted d \<and> open_for_child c io config path access digest ctx = Inr fd)"

lemma new_act:
  assumes "x \<in> answers (fst (act_on_decision c io config path access ctx digest d s))" "x \<notin> answers s"
  shows "(\<exists>e. x = Errno e) \<or> (\<exists>fd. x = Inject fd \<and> is_granted d \<and> open_for_child c io config path access digest ctx = Inr fd)"
  using assms by (auto simp: act_on_decision_def dest: new_answer_or_deny split: if_splits sum.splits)

lemma new_ask_backend:
  assumes "x \<in> answers (fst (ask_backend c io config child path can access ctx digest s))" "x \<notin> answers s"
    and "io_trust io path = map_option Inr digest"
  shows "(\<exists>e. x = Errno e) \<or> (\<exists>fd. x = Inject fd \<and> approved_open c io config child path access ctx fd)"
proof (cases "io_approve io (file_request io config child path access)")
  case (Inl e)
  let ?s = "record_denial \<lparr>dr_path = can, dr_access = access, dr_reason = BackendError\<rparr> s"
  obtain s1 r where 1: "deny_notif c io ?s = (s1, r)" by fastforce
  then have "answers s1 = insert (Errno (errno_EPERM (sc_errno c))) (answers s)" using answers_deny [of c io ?s] by simp
  then show ?thesis using assms(1,2) by (auto simp: ask_backend_def Let_def Inl 1)
next
  case (Inr d)
  let ?s = "if is_denied d then record_denial \<lparr>dr_path = can, dr_access = access, dr_reason = UserDenied\<rparr> s else s"
  have n: "x \<notin> answers ?s" using assms(2) by simp
  show ?thesis
  proof (cases "io_audit io (file_request io config child path access) d")
    case (Inl e)
    then show ?thesis using assms(1) n by (auto simp: ask_backend_def Let_def Inr)
  next
    case (Inr u)
    have "x \<in> answers (fst (if_valid io (act_on_decision c io config path access ctx digest d) ?s))"
      using assms(1) \<open>io_approve _ _ = _\<close> Inr by (simp add: ask_backend_def Let_def)
    from answers_if_valid [OF this n] n
    have "x \<in> answers (fst (act_on_decision c io config path access ctx digest d (?s\<lparr>ns_checks := Suc (ns_checks ?s)\<rparr>)))"
      "x \<notin> answers (?s\<lparr>ns_checks := Suc (ns_checks ?s)\<rparr>)" by simp_all
    from new_act [OF this] show ?thesis using assms(3) \<open>io_approve _ _ = _\<close> unfolding approved_open_def by blast
  qed
qed

lemma new_ask_about_file:
  assumes "x \<in> answers (fst (ask_about_file c io config child path can access ctx s))" "x \<notin> answers s"
  shows "(\<exists>e. x = Errno e) \<or> (\<exists>fd. x = Inject fd \<and> approved_open c io config child path access ctx fd)"
proof -
  obtain s1 b where 1: "limiter_acquire io s = (s1, b)" by fastforce
  then have "answers s1 = answers s" using answers_sent [OF sent_acquire(1) [of io s]] by simp
  with assms show ?thesis
    using new_ask_backend [of x c io config child path can access ctx _ s1]
    by (auto simp: ask_about_file_def 1 answers_deny_recorded split: bool.splits option.splits sum.splits)
qed

text \<open>What a response other than an error may be, in terms of the policy.\<close>

definition initially_granted :: "initial_capability list \<Rightarrow> path \<Rightarrow> access_mode \<Rightarrow> bool" where
  "initially_granted caps key access \<longleftrightarrow> (\<exists>cap \<in> set caps. initial_covers key cap \<and> contains (ic_access cap) access)"

definition outside_roots :: "host \<Rightarrow> supervisor_config \<Rightarrow> path \<Rightarrow> bool" where
  "outside_roots h config path \<longleftrightarrow> (\<forall>r \<in> set (cfg_protected_roots config). \<not> overlaps_root h (try_canonicalize h path) False r)"

definition file_permitted ::
  "sup_consts \<Rightarrow> sup_io \<Rightarrow> supervisor_config \<Rightarrow> initial_capability list \<Rightarrow> u32 \<Rightarrow> path \<Rightarrow> path \<Rightarrow> access_mode
   \<Rightarrow> procfs_access_context \<Rightarrow> notif_response \<Rightarrow> bool" where
  "file_permitted c io config caps child path resolved access ctx x \<longleftrightarrow>
     (let h = io_host io; can = try_canonicalize h resolved; key = cap_check_path child (pc_process_pid ctx) can
      in ((outside_roots h config can \<and> outside_roots h config resolved) \<or> grants_exact_file key access caps)
         \<and> (case x of
              Errno _ \<Rightarrow> True
            | Continue \<Rightarrow> initially_granted caps key access
                \<or> ((\<forall>cap \<in> set caps. \<not> initial_covers key cap) \<and> symlink_metadata h path \<in> {Inl NotFound, Inl NotADirectory})
            | Inject fd \<Rightarrow>
                (sp_proc_comm_notify (cfg_seccomp_policy config) \<and> access \<noteq> Read
                  \<and> is_proc_task_comm_for_tgid can (pc_process_pid ctx) \<and> io_open_comm io can access = Inr fd)
                \<or> (initially_granted caps key access \<and> open_for_child c io config path access None ctx = Inr fd)
                \<or> ((\<forall>cap \<in> set caps. \<not> initial_covers key cap) \<and> sp_capability_elevation (cfg_seccomp_policy config)
                    \<and> (\<forall>d \<in> set (cfg_deny_paths config). \<not> path_starts_with path d \<and> \<not> path_starts_with resolved d \<and> \<not> path_starts_with can d)
                    \<and> approved_open c io config child path access ctx fd)))"

lemma new_if_valid_answer:
  assumes "x \<in> answers (fst (if_valid io (answer_or_deny c io r) s))" "x \<notin> answers s"
  shows "x = r \<or> (\<exists>e. x = Errno e)"
  using answers_if_valid [OF assms] new_answer_or_deny [of x c io r "s\<lparr>ns_checks := Suc (ns_checks s)\<rparr>"] assms(2) by simp

lemma new_mediate_new_file:
  assumes "x \<in> answers (fst (mediate_new_file c io config child path resolved can access ctx s))" "x \<notin> answers s"
  shows "(\<exists>e. x = Errno e)
    \<or> (x = Continue \<and> symlink_metadata (io_host io) path \<in> {Inl NotFound, Inl NotADirectory})
    \<or> (\<exists>fd. x = Inject fd \<and> sp_capability_elevation (cfg_seccomp_policy config)
        \<and> (\<forall>d \<in> set (cfg_deny_paths config). \<not> path_starts_with path d \<and> \<not> path_starts_with resolved d \<and> \<not> path_starts_with can d)
        \<and> approved_open c io config child path access ctx fd)"
  using assms unfolding mediate_new_file_def
  by (auto simp: answers_deny_recorded is_under_deny_path_def list_ex_iff dest: new_if_valid_answer new_ask_about_file
      split: if_splits)

lemma overlap_outside: "overlapping_protected_root h p False (cfg_protected_roots config) = None \<longleftrightarrow> outside_roots h config p"
  by (simp add: overlapping_None outside_roots_def)

lemma new_mediate_file:
  assumes "x \<in> answers (fst (mediate_file c io config caps child path resolved access ctx s))" "x \<notin> answers s"
    and "\<forall>e. x \<noteq> Errno e"
  shows "file_permitted c io config caps child path resolved access ctx x"
proof -
  let ?can = "try_canonicalize (io_host io) resolved"
  let ?key = "cap_check_path child (pc_process_pid ctx) ?can"
  have root: "(outside_roots (io_host io) config ?can \<and> outside_roots (io_host io) config resolved) \<or> grants_exact_file ?key access caps"
    using assms by (auto simp: mediate_file_def Let_def answers_deny_recorded overlap_outside split: if_splits)
  show ?thesis
  proof (cases "sp_proc_comm_notify (cfg_seccomp_policy config) \<and> access \<in> {Write, ReadWrite}
      \<and> is_proc_task_comm_for_tgid ?can (pc_process_pid ctx)")
    case True
    then show ?thesis
      using assms root unfolding mediate_file_def file_permitted_def Let_def
      by (auto simp: overlap_outside open_proc_comm_for_access_def dest: new_if_valid_answer split: sum.splits if_splits)
  next
    case False
    then have m: "x \<in> answers (fst (case match_initial_capability ?key access caps of
              Insufficient _ \<Rightarrow> deny_recorded c io ?can access InsufficientAccess s
            | Sufficient _ \<Rightarrow>
                if path_starts_with ?can ''/proc'' then
                  (case open_for_child c io config path access None ctx of
                     Inr file \<Rightarrow> if_valid io (answer_or_deny c io (Inject file)) s
                   | Inl e \<Rightarrow> if oe_policy_blocked e then deny_recorded c io ?can access PolicyBlocked s
                              else send_quietly io (Errno (oe_errno e)) s)
                else if_valid io (answer_or_deny c io Continue) s
            | NoMatch \<Rightarrow> mediate_new_file c io config child path resolved ?can access ctx s))"
      using assms(1) root unfolding mediate_file_def Let_def overlap_outside by (simp only: simp_thms if_False) (auto split: if_splits)
    show ?thesis
    proof (cases "match_initial_capability ?key access caps")
      case (Sufficient cap)
      then have "initially_granted caps ?key access" using match_Sufficient by (fastforce simp: best_of_def initially_granted_def)
      with Sufficient show ?thesis
        using m assms(2,3) root unfolding file_permitted_def Let_def
        by (auto simp: answers_deny_recorded dest: new_if_valid_answer split: if_splits sum.splits)
    next
      case (Insufficient cap)
      then show ?thesis using m assms(2,3) by (simp add: answers_deny_recorded)
    next
      case NoMatch
      then have "\<forall>cap \<in> set caps. \<not> initial_covers ?key cap" using match_NoMatch by (fastforce simp: best_of_def)
      with NoMatch show ?thesis
        using m assms(2,3) root new_mediate_new_file [of x c io config child path resolved ?can access ctx s]
        unfolding file_permitted_def Let_def by auto
    qed
  qed
qed

text \<open>
  C4. A trapped open gets only what the policy gives: the response is an error, or the call continues
  because the initial set already grants the path or the path does not exist, or a descriptor is injected,
  which was opened for the requested path because the initial set grants it or because, with elevation
  enabled and no deny path above it, the backend granted the request and an instruction file was verified
  (or it is the child's own thread name file); and inside the protected state roots only a file granted exactly.
\<close>

theorem file_response_sound:
  assumes "x \<in> answers (fst (handle_received_filesystem_notification c io config caps child notif s))" "ns_sent s = []"
    and "\<forall>e. x \<noteq> Errno e" "ctx = procfs_context_for io child notif"
  shows "\<exists>path access resolved. requested_path c io notif = Inr path \<and> requested_access c io notif = Some access
    \<and> resolve_procfs_path_for_child path (Some ctx) = Inr resolved
    \<and> file_permitted c io config caps child path resolved access ctx x"
proof -
  have n: "x \<notin> answers s" using assms(2) by (simp add: answers_def)
  obtain path where p: "requested_path c io notif = Inr path"
    using assms(1,3) n by (cases "requested_path c io notif") (auto simp: handle_received_filesystem_notification_def)
  let ?s = "s\<lparr>ns_checks := Suc (ns_checks s)\<rparr>"
  have "x \<in> answers (fst (if_valid io (mediate_requested c io config caps child notif path) s))"
    using assms(1) by (simp add: handle_received_filesystem_notification_def p)
  from answers_if_valid [OF this n] have "x \<in> answers (fst (mediate_requested c io config caps child notif path ?s))" by simp
  then obtain access resolved where r: "requested_access c io notif = Some access"
    "resolve_procfs_path_for_child path (Some ctx) = Inr resolved"
    and m: "x \<in> answers (fst (mediate_file c io config caps child path resolved access ctx ?s))"
    using assms(3,4) n by (auto simp: mediate_requested_def Let_def split: option.splits sum.splits)
  have "x \<notin> answers ?s" using n by simp
  from new_mediate_file [OF m this assms(3)] p r show ?thesis by blast
qed

text \<open>A child that opens \<open>/tmp\<close> for reading, with \<open>/tmp\<close> in its initial set.\<close>

definition demo_file_io :: sup_io where
  "demo_file_io = demo_io\<lparr>io_mem := (\<lambda>pid. Inr (\<lambda>addr.
     Inr \<lparr>mr_read = (\<lambda>n. Inr (''/tmp'' @ [CHR 0x00])), mr_read_exact = (\<lambda>n. Inl NotFound)\<rparr>))\<rparr>"

definition demo_openat :: seccomp_notif where
  "demo_openat = \<lparr>sn_pid = 7, sn_nr = 257, sn_args = (\<lambda>i. 0)\<rparr>"

definition demo_initial :: "initial_capability list" where
  "demo_initial = [\<lparr>ic_path = ''/tmp'', ic_access = Read, ic_is_file = False\<rparr>]"

lemma demo_requested:
  "requested_path demo_consts demo_file_io demo_openat = Inr ''/tmp''"
  "requested_access demo_consts demo_file_io demo_openat = Some Read"
  "procfs_context_for demo_file_io 7 demo_openat = \<lparr>pc_process_pid = 7, pc_thread_pid = Some 7\<rparr>"
proof -
  have "until_nul (''/tmp'' @ [CHR 0x00]) = ''/tmp''" "valid_utf8 ''/tmp''" "is_absolute ''/tmp''" by code_simp+
  then show "requested_path demo_consts demo_file_io demo_openat = Inr ''/tmp''"
    by (simp add: requested_path_def read_notif_path_def open_mem_def demo_file_io_def resolve_notif_path_def Let_def)
qed (simp_all add: requested_access_def procfs_context_for_def demo_openat_def demo_consts_def classify_access_from_flags_def linux_x86_64_def)

lemma demo_file_continues:
  "Continue \<in> answers (fst (handle_received_filesystem_notification demo_consts demo_file_io demo_config demo_initial 7 demo_openat demo_state))"
proof -
  have r: "resolve_procfs_path_for_child ''/tmp'' (Some \<lparr>pc_process_pid = 7, pc_thread_pid = Some 7\<rparr>) = Inr ''/tmp''" by code_simp
  have c: "try_canonicalize demo_host ''/tmp'' = ''/tmp''" "\<not> path_starts_with ''/tmp'' ''/proc''"
    "overlapping_protected_root demo_host ''/tmp'' False [''/home/.nono''] = None"
    "match_initial_capability ''/tmp'' Read demo_initial = Sufficient \<lparr>ic_path = ''/tmp'', ic_access = Read, ic_is_file = False\<rparr>"
    by code_simp+
  have d: "io_host demo_file_io = demo_host" "cfg_protected_roots demo_config = [''/home/.nono'']"
    "\<not> sp_proc_comm_notify (cfg_seccomp_policy demo_config)"
    by (simp_all add: demo_file_io_def demo_io_def demo_config_def)
  have "mediate_requested demo_consts demo_file_io demo_config demo_initial 7 demo_openat ''/tmp'' s
      = if_valid demo_file_io (answer_or_deny demo_consts demo_file_io Continue) s" for s
    using c d by (simp add: mediate_requested_def demo_requested r mediate_file_def cap_check_path_def Let_def)
  then show ?thesis
    by (simp add: handle_received_filesystem_notification_def demo_requested)
      (simp add: demo_file_io_def demo_io_def if_valid_def notif_id_valid_def answer_or_deny_def send_response_def answers_def)
qed

theorem file_response_sound_witness:
  "\<exists>resolved. resolve_procfs_path_for_child ''/tmp'' (Some \<lparr>pc_process_pid = 7, pc_thread_pid = Some 7\<rparr>) = Inr resolved
     \<and> file_permitted demo_consts demo_file_io demo_config demo_initial 7 ''/tmp'' resolved Read
         \<lparr>pc_process_pid = 7, pc_thread_pid = Some 7\<rparr> Continue"
proof -
  have "ns_sent demo_state = []" by (simp add: demo_state_def)
  from file_response_sound [OF demo_file_continues this _ refl] show ?thesis by (auto simp: demo_requested)
qed

theorem match_initial_capability_correct_witness:
  "\<exists>cap. match_initial_capability ''/tmp/x'' Read demo_initial = Sufficient cap \<and> initial_covers ''/tmp/x'' cap
     \<and> contains (ic_access cap) Read"
proof -
  have "match_initial_capability ''/tmp/x'' Read demo_initial = Sufficient \<lparr>ic_path = ''/tmp'', ic_access = Read, ic_is_file = False\<rparr>"
    by code_simp
  with match_initial_capability_correct [of demo_initial "''/tmp/x''" Read] show ?thesis by simp
qed

end
