(* ===== verification/Broker_Path.thy ===== *)
theory Broker_Path
  imports Nono_Path Capability
begin

text \<open>
  The sanitisation of \<open>PATH\<close> for programs that the supervisor starts outside the sandbox
  (\<open>nono/src/broker_path.rs\<close>).
\<close>

section \<open>Walking symbolic links\<close>

definition grants_write :: "capability_set \<Rightarrow> path \<Rightarrow> bool" where
  "grants_write caps path =
     list_ex (\<lambda>cap. contains (fc_access cap) Write
       \<and> (if fc_is_file cap then path_eq (fc_resolved cap) path else path_starts_with path (fc_resolved cap))) (fs caps)"

definition canonical_current :: "path \<Rightarrow> path \<Rightarrow> path" where
  "canonical_current canonical_parent current =
     (case file_name current of Some name \<Rightarrow> join canonical_parent name | None \<Rightarrow> canonical_parent)"

text \<open>
  The loop of \<open>walk_chain_with_budget\<close>, which returns the hops left beside its result, and the loop over
  the ancestors that a link's target introduces.  The minima make the budget's decrease visible;
  no call ever returns more hops than it was given (\<open>walk_budget\<close> below).
\<close>

function walk_chain_with_budget :: "host \<Rightarrow> capability_set \<Rightarrow> path \<Rightarrow> nat \<Rightarrow> bool option \<times> nat"
  and walk_ancestors :: "host \<Rightarrow> capability_set \<Rightarrow> path list \<Rightarrow> nat \<Rightarrow> bool option \<times> nat" where
  "walk_chain_with_budget h caps current remaining_hops =
     (case parent current of
        None \<Rightarrow> (None, remaining_hops)
      | Some par \<Rightarrow>
          (let canonical_parent = try_canonicalize h par
           in if grants_write caps canonical_parent \<or> grants_write caps (canonical_current canonical_parent current)
              then (Some True, remaining_hops)
              else case symlink_metadata h current of
                Inr (LinkN _) \<Rightarrow>
                  (if remaining_hops = 0 then (None, 0)
                   else case read_link h current of
                     Inl _ \<Rightarrow> (None, remaining_hops - 1)
                   | Inr target \<Rightarrow>
                       (let current = (if is_absolute target then target else join canonical_parent target)
                        in case walk_ancestors h caps (filter (\<lambda>a. parent a \<noteq> None) (tl (ancestors current))) (remaining_hops - 1) of
                             (Some False, left) \<Rightarrow> walk_chain_with_budget h caps current (min left (remaining_hops - 1))
                           | (r, left) \<Rightarrow> (r, left)))
              | _ \<Rightarrow> (Some False, remaining_hops)))"
| "walk_ancestors h caps [] remaining_hops = (Some False, remaining_hops)"
| "walk_ancestors h caps (a # as) remaining_hops =
     (case walk_chain_with_budget h caps a remaining_hops of
        (Some False, left) \<Rightarrow> walk_ancestors h caps as (min left remaining_hops)
      | (r, left) \<Rightarrow> (r, left))"
  by pat_completeness auto
termination
  by (relation "measures [\<lambda>x. case x of Inl (_, _, _, n) \<Rightarrow> n | Inr (_, _, _, n) \<Rightarrow> n,
                          \<lambda>x. case x of Inl _ \<Rightarrow> 0 | Inr (_, _, as, _) \<Rightarrow> Suc (length as)]") auto

declare walk_chain_with_budget.simps [simp del]

definition walk_chain :: "host \<Rightarrow> capability_set \<Rightarrow> path \<Rightarrow> bool option" where
  "walk_chain h caps path = fst (walk_chain_with_budget h caps path 40)"

section \<open>Entries\<close>

definition is_entry_safe :: "host \<Rightarrow> capability_set \<Rightarrow> path \<Rightarrow> bool" where
  "is_entry_safe h outer_caps entry \<longleftrightarrow>
     entry \<noteq> [] \<and> is_absolute entry \<and> CHR 0x00 \<notin> set entry \<and> walk_chain h outer_caps entry = Some False"

text \<open>\<open>split_paths\<close> cuts at every colon, so that joining the entries kept cannot fail.\<close>

definition filter_path :: "string \<Rightarrow> (path \<Rightarrow> bool) \<Rightarrow> string" where
  "filter_path path_value keep = join_with '':'' (filter keep (split_on (CHR 0x3A) path_value))"

definition sanitize_broker_path :: "host \<Rightarrow> string \<Rightarrow> capability_set \<Rightarrow> string" where
  "sanitize_broker_path h path_value outer_caps = filter_path path_value (is_entry_safe h outer_caps)"

definition sanitize_broker_path_for_binary :: "host \<Rightarrow> string \<Rightarrow> string \<Rightarrow> capability_set \<Rightarrow> string" where
  "sanitize_broker_path_for_binary h path_value binary_name outer_caps =
     filter_path path_value (\<lambda>entry. is_entry_safe h outer_caps entry \<and> walk_chain h outer_caps (join entry binary_name) = Some False)"

definition safe_broker_path_for_binary :: "host \<Rightarrow> string \<Rightarrow> string \<Rightarrow> capability_set \<Rightarrow> string option" where
  "safe_broker_path_for_binary h path_value binary_name outer_caps =
     (let safe_path = sanitize_broker_path_for_binary h path_value binary_name outer_caps
      in if safe_path \<noteq> [] then Some safe_path else None)"

definition writable_path_dirs :: "host \<Rightarrow> string \<Rightarrow> capability_set \<Rightarrow> path list" where
  "writable_path_dirs h path_value outer_caps =
     concat (map (\<lambda>entry.
       if \<not> is_entry_safe h outer_caps entry then [entry]
       else map fc_resolved (filter (\<lambda>cap. fc_is_file cap \<and> contains (fc_access cap) Write
              \<and> (case parent (fc_resolved cap) of Some p \<Rightarrow> path_eq p (try_canonicalize h entry) | None \<Rightarrow> False)) (fs outer_caps)))
       (split_on (CHR 0x3A) path_value))"

definition path_writable_by :: "host \<Rightarrow> path \<Rightarrow> capability_set \<Rightarrow> bool" where
  "path_writable_by h path caps \<longleftrightarrow>
     \<not> is_absolute path \<or> CHR 0x00 \<in> set path
     \<or> list_ex (\<lambda>ancestor. walk_chain h caps ancestor \<noteq> Some False) (filter (\<lambda>a. parent a \<noteq> None) (ancestors path))"

text \<open>A link inside a directory that the sandbox may write.\<close>

definition broker_host :: host where
  "broker_host =
     \<lparr>nodes = map_of [([''w''], DirN), ([''w'', ''cur''], LinkN ''/opt/v1''), ([''opt''], DirN),
        ([''opt'', ''v1''], DirN), ([''opt'', ''v1'', ''bin''], DirN)],
      no_search = (\<lambda>_. False), cwd = []\<rparr>"

definition broker_caps :: capability_set where
  "broker_caps = new_caps\<lparr>fs :=
     [\<lparr>fc_original = ''/w'', fc_resolved = ''/w'', fc_access = ReadWrite, fc_is_file = False, fc_source = User\<rparr>]\<rparr>"

section \<open>Budget\<close>

lemma walk_budget:
  "snd (walk_chain_with_budget h caps current n) \<le> n" "snd (walk_ancestors h caps as n) \<le> n"
proof (induction h caps current n and h caps as n rule: walk_chain_with_budget_walk_ancestors.induct)
  case (1 h caps current n)
  show ?case
    using 1 by (subst walk_chain_with_budget.simps)
      (fastforce simp: Let_def split: option.splits sum.splits node.splits prod.splits bool.splits if_splits)
next
  case (3 h caps a as n)
  then show ?case by (fastforce split: prod.splits option.splits bool.splits)
qed simp

section \<open>What a walk looks at\<close>

definition link_target :: "host \<Rightarrow> path \<Rightarrow> path \<Rightarrow> bool" where
  "link_target h p t \<longleftrightarrow>
     (\<exists>par m raw. parent p = Some par \<and> symlink_metadata h p = Inr (LinkN m) \<and> read_link h p = Inr raw
        \<and> t = (if is_absolute raw then raw else join (try_canonicalize h par) raw))"

text \<open>The paths a lookup of \<open>p\<close> goes through: the targets of its links and the directories above these.\<close>

inductive reached :: "host \<Rightarrow> path \<Rightarrow> path \<Rightarrow> bool" for h p where
  here: "reached h p p"
| target: "reached h p q \<Longrightarrow> link_target h q t \<Longrightarrow> reached h p t"
| above: "reached h p q \<Longrightarrow> link_target h q t \<Longrightarrow> a \<in> set (tl (ancestors t)) \<Longrightarrow> parent a \<noteq> None \<Longrightarrow> reached h p a"

definition walks_clean :: "host \<Rightarrow> capability_set \<Rightarrow> path \<Rightarrow> bool" where
  "walks_clean h caps p \<longleftrightarrow> (\<exists>n. fst (walk_chain_with_budget h caps p n) = Some False)"

lemma walk_ancestors_clean:
  "fst (walk_ancestors h caps as n) = Some False \<Longrightarrow> a \<in> set as \<Longrightarrow> walks_clean h caps a"
proof (induction as arbitrary: n)
  case (Cons b as)
  obtain r l where w: "walk_chain_with_budget h caps b n = (r, l)" by fastforce
  with Cons.prems(1) have "r = Some False" by (auto split: option.splits bool.splits)
  with w Cons show ?case by (auto simp: walks_clean_def intro: exI [of _ n])
qed simp

lemma walks_clean_step:
  assumes "walks_clean h caps p" "link_target h p t"
  shows "walks_clean h caps t" "a \<in> set (tl (ancestors t)) \<Longrightarrow> parent a \<noteq> None \<Longrightarrow> walks_clean h caps a"
proof -
  obtain n where n: "fst (walk_chain_with_budget h caps p n) = Some False" using assms(1) by (auto simp: walks_clean_def)
  obtain par m raw where l: "parent p = Some par" "symlink_metadata h p = Inr (LinkN m)" "read_link h p = Inr raw"
    "t = (if is_absolute raw then raw else join (try_canonicalize h par) raw)"
    using assms(2) by (auto simp: link_target_def)
  let ?as = "filter (\<lambda>a. parent a \<noteq> None) (tl (ancestors t))"
  obtain r left where w: "walk_ancestors h caps ?as (n - 1) = (r, left)" by fastforce
  have "r = Some False \<and> fst (walk_chain_with_budget h caps t (min left (n - 1))) = Some False"
    using n w by (subst (asm) walk_chain_with_budget.simps)
      (auto simp: l(1-3) l(4) [symmetric] Let_def split: if_splits option.splits bool.splits)
  then show "walks_clean h caps t" "a \<in> set (tl (ancestors t)) \<Longrightarrow> parent a \<noteq> None \<Longrightarrow> walks_clean h caps a"
    using w walk_ancestors_clean [of h caps ?as "n - 1" a] by (auto simp: walks_clean_def)
qed

lemma walks_clean_not_writable:
  assumes "walks_clean h caps p" "parent p = Some par"
  shows "\<not> grants_write caps (try_canonicalize h par) \<and> \<not> grants_write caps (canonical_current (try_canonicalize h par) p)"
  using assms by (auto simp: walks_clean_def walk_chain_with_budget.simps [of h caps p] Let_def split: if_splits)

lemma reached_clean: "reached h p q \<Longrightarrow> walks_clean h caps p \<Longrightarrow> walks_clean h caps q"
  by (induction rule: reached.induct) (auto dest: walks_clean_step)

lemma walk_chain_clean: "walk_chain h caps p = Some False \<Longrightarrow> walks_clean h caps p"
  by (auto simp: walk_chain_def walks_clean_def)

lemma filter_path_entries:
  assumes "filter_path path_value keep \<noteq> []"
  shows "split_on (CHR 0x3A) (filter_path path_value keep) = filter keep (split_on (CHR 0x3A) path_value)"
  using assms by (auto simp: filter_path_def intro!: split_on_join_with dest: split_on_parts)

text \<open>
  CX. Every directory that survives in the sanitised \<open>PATH\<close> is absolute, and neither it, nor the binary
  looked up in it, nor any link, target or directory above a target that the lookup of either goes
  through, nor the directory that contains one of these, is covered by a write grant of the sandbox.
\<close>

theorem broker_path_not_writable:
  assumes "safe_broker_path_for_binary h path_value binary caps = Some safe_path" "entry \<in> set (split_on (CHR 0x3A) safe_path)"
    and "p \<in> {entry, join entry binary}" "reached h p q" "parent q = Some par"
  shows "entry \<in> set (split_on (CHR 0x3A) path_value) \<and> is_absolute entry
    \<and> \<not> grants_write caps (try_canonicalize h par) \<and> \<not> grants_write caps (canonical_current (try_canonicalize h par) q)"
proof -
  let ?keep = "\<lambda>entry. is_entry_safe h caps entry \<and> walk_chain h caps (join entry binary) = Some False"
  have s: "safe_path = filter_path path_value ?keep" "safe_path \<noteq> []"
    using assms(1) by (auto simp: safe_broker_path_for_binary_def sanitize_broker_path_for_binary_def Let_def split: if_splits)
  then have "entry \<in> set (split_on (CHR 0x3A) path_value)" "?keep entry"
    using assms(2) filter_path_entries [of path_value ?keep] by auto
  moreover from this have "walks_clean h caps p" using assms(3) by (auto simp: is_entry_safe_def walk_chain_clean)
  from walks_clean_not_writable [OF reached_clean [OF assms(4) this] assms(5)] calculation show ?thesis
    by (simp add: is_entry_safe_def)
qed

lemma broker_path_not_writable_witness:
  "\<not> grants_write broker_caps (try_canonicalize broker_host ''/opt/v1'')
   \<and> \<not> grants_write broker_caps (canonical_current (try_canonicalize broker_host ''/opt/v1'') ''/opt/v1/bin'')"
proof -
  have "safe_broker_path_for_binary broker_host ''/w/x:/opt/v1/bin'' ''op'' broker_caps = Some ''/opt/v1/bin''" by code_simp
  moreover have "''/opt/v1/bin'' \<in> set (split_on (CHR 0x3A) ''/opt/v1/bin'')" by code_simp
  moreover have "parent ''/opt/v1/bin'' = Some ''/opt/v1''" by code_simp
  ultimately show ?thesis
    using broker_path_not_writable [of broker_host "''/w/x:/opt/v1/bin''" "''op''" broker_caps "''/opt/v1/bin''" "''/opt/v1/bin''"
        "''/opt/v1/bin''" "''/opt/v1/bin''" "''/opt/v1''"] reached.here by blast
qed

text \<open>
  CX. A path that \<open>path_writable_by\<close> clears cannot be created, replaced or redirected by the sandbox: no
  write grant covers the path, one of the directories above it, or a link, target or directory above a
  target that the lookup of one of these goes through, nor the directory that contains such a one.
\<close>

theorem path_writable_by_sound:
  assumes "\<not> path_writable_by h path caps" "a \<in> set (ancestors path)" "parent a \<noteq> None" "reached h a q" "parent q = Some par"
  shows "is_absolute path \<and> \<not> grants_write caps (try_canonicalize h par)
    \<and> \<not> grants_write caps (canonical_current (try_canonicalize h par) q)"
proof -
  have "is_absolute path" "walk_chain h caps a = Some False"
    using assms(1-3) by (auto simp: path_writable_by_def list_ex_iff)
  then show ?thesis
    using walks_clean_not_writable [OF reached_clean [OF assms(4) walk_chain_clean] assms(5)] by blast
qed

lemma path_writable_by_sound_witness:
  "\<not> grants_write broker_caps (try_canonicalize broker_host ''/opt'')
   \<and> \<not> grants_write broker_caps (canonical_current (try_canonicalize broker_host ''/opt'') ''/opt/v1'')"
proof -
  have "\<not> path_writable_by broker_host ''/opt/v1/bin'' broker_caps" by code_simp
  moreover have "''/opt/v1'' \<in> set (ancestors ''/opt/v1/bin'')" "parent ''/opt/v1'' = Some ''/opt''" by code_simp+
  ultimately show ?thesis
    using path_writable_by_sound [of broker_host "''/opt/v1/bin''" broker_caps "''/opt/v1''" "''/opt/v1''" "''/opt''"] reached.here
    by simp
qed

section \<open>Links above an entry\<close>

text \<open>
  CX. The directories above an entry are only seen in canonical form: with \<open>/w\<close> writable and the link
  \<open>/w/cur\<close> in it, the sandbox may point \<open>/w/cur\<close> elsewhere, which \<open>path_writable_by\<close> reports, and still
  \<open>/w/cur/bin\<close> is kept in the sanitised \<open>PATH\<close>.
\<close>

theorem broker_path_retargetable_entry:
  "grants_write broker_caps ''/w/cur'' \<and> path_writable_by broker_host ''/w/cur/bin'' broker_caps
   \<and> safe_broker_path_for_binary broker_host ''/w/cur/bin'' ''op'' broker_caps = Some ''/w/cur/bin''"
proof (intro conjI)
  show "grants_write broker_caps ''/w/cur''" by code_simp
  show "path_writable_by broker_host ''/w/cur/bin'' broker_caps" by code_simp
  show "safe_broker_path_for_binary broker_host ''/w/cur/bin'' ''op'' broker_caps = Some ''/w/cur/bin''" by code_simp
qed

end
