(* ===== verification/Spec2Isabelle.thy ===== *)
theory Spec2Isabelle
  imports Sandbox_State Glob Net_Filter Audit_Ledger Landlock Supervisor_Files Broker_Path
begin

text \<open>
  A verification development for \<open>nono\<close>, a capability based sandbox for agents (\<open>src/crates/nono\<close>).

  \<^bold>\<open>The program.\<close>  A caller builds a \<open>CapabilitySet\<close>: grants on files and directories, Unix sockets,
  ports and the network.  The set is deduplicated and handed to a kernel backend; \<open>query.rs\<close> answers
  what the set permits; \<open>state.rs\<close> stores it in a file for the sandboxed child and loads it back.  The
  network proxy decides on host names with the filter of \<open>net_filter.rs\<close>.  While a session runs, events
  are scrubbed of secrets (\<open>scrub.rs\<close>) and appended to a hash-chained log (\<open>audit.rs\<close>), and snapshots of
  the tracked files commit to their content by a Merkle root (\<open>undo/merkle.rs\<close>).

  \<^bold>\<open>The model.\<close>  Rust's \<open>Result\<close> is a sum with the error on the left, \<open>str\<close> and \<open>Path\<close> are byte lists
  (\<open>string\<close>), machine integers are words, structs are records and enums are datatypes.  A \<open>HashMap\<close> or
  \<open>Vec\<close> is a list, a \<open>BTreeSet\<close> a set.  The target is Linux.  Operations that mutate take and return the
  state.  What is not under \<open>src\<close> is an argument of the definitions that use it: SHA-256 (\<open>sha256\<close>, whose
  32-byte result is part of its type), IDNA mapping of host names, the constants of \<open>libc\<close> and the
  flag sets of the \<open>landlock\<close> crate, JSON encoding (\<open>audit_json\<close> and
  \<open>ledger_json\<close> with the hypotheses \<open>json_ok\<close> and \<open>ledger_json_ok\<close>), and the outcomes of
  writes and system calls.

  \<^bold>\<open>Foundations.\<close>
  \<^item> \<open>Nono_Prelude\<close>: words with saturating and checked arithmetic, \<open>Result\<close> combinators, byte strings and
    the string functions of the standard library.
  \<^item> \<open>Rust_Path\<close>: \<open>std::path\<close> (components, parent, join); \<open>Host_FS\<close>: a host file system with symbolic
    links, canonicalisation and its laws; \<open>Rust_Io\<close>: UTF-8, line readers, writes that fail midway.
  \<^item> \<open>Nono_Error\<close>: \<open>error.rs\<close> and \<open>diagnostic/codes.rs\<close>.

  \<^bold>\<open>Capabilities.\<close>
  \<^item> \<open>Port_Ranges\<close>, \<open>Platform_Rule\<close>, \<open>Resource\<close>: the merging of port ranges, the check of macOS rules and
    the limits of \<open>capability.rs\<close> and \<open>resource/mod.rs\<close>.  The merge keeps the set of ports and yields
    its canonical form; rule acceptance is characterised on tokens; sizes parse within 64 bits.
  \<^item> \<open>Capability\<close>: the capability set, its constructors, mutators and queries (\<open>capability.rs\<close>).
    Construction of a directory grant is exact on every branch; covering is a prefix of components.
  \<^item> \<open>Cap_Dedup\<close>: deduplication of grants and the rewriting of \<open>/proc\<close> paths.  The locale \<open>keyed_dedup\<close> is
    the contract of a deduplication by key, interpreted for files and three times for sockets.
  \<^item> \<open>Nono_Path\<close>, \<open>Query\<close>: \<open>path.rs\<close> and \<open>query.rs\<close>.  The query is characterised completely and sound for
    paths that canonicalise; symlink hops are bounded by the fuel 40 of the source.
  \<^item> \<open>Sandbox_State\<close>: the conversion of \<open>state.rs\<close>; a stored set loads back to an equivalent one.

  \<^bold>\<open>Kernel enforcement.\<close>
  \<^item> \<open>Seccomp\<close>: the BPF programs of \<open>sandbox/linux.rs\<close> as instruction lists, their interpreter and the
    choice among them.  The decision of every program is given for every architecture, system call and
    argument; composition keeps decisions, and every program returns.
  \<^item> \<open>Landlock\<close>: ABI levels, rights, rules, the prepared sandbox, its raw application and the direct
    application of \<open>sandbox/linux.rs\<close>.  Rules grant exactly what the policy says, network policies fail
    closed, both ways of applying a policy agree, descriptors are closed.

  \<^bold>\<open>Network.\<close>
  \<^item> \<open>Glob\<close>: the star patterns of \<open>env_glob.rs\<close> and \<open>trust/types.rs\<close>, equal to a reference semantics.
  \<^item> \<open>Net_Filter\<close>: \<open>net_filter.rs\<close>.  The decision for every host, filter and address list; metadata hosts
    are denied by every filter that can be built; patterns in terms of labels.

  \<^bold>\<open>Records and hashes.\<close>
  \<^item> \<open>Scrub\<close>: \<open>scrub.rs\<close>.  Redacted output does not depend on the redacted secret.
  \<^item> \<open>Content_Hash\<close>: \<open>ContentHash\<close> of \<open>undo/types.rs\<close>; display and parsing.
  \<^item> \<open>Hash_Tree\<close>: binary hash trees over lists, with the locales \<open>node_encoding\<close> and \<open>leaf_encoding\<close> for
    the injectivity of the hashed byte strings; interpreted for the snapshot tree (\<open>undo\<close>), for the
    event log (\<open>alog\<close>) and for its inner nodes (\<open>audit\<close>).
  \<^item> \<open>Undo_Merkle\<close>: \<open>undo/merkle.rs\<close> and the snapshot types.  The root commits to paths and hashes.
  \<^item> \<open>Audit_Types\<close>: the data of \<open>supervisor/types.rs\<close>, \<open>undo/types.rs\<close> and \<open>audit.rs\<close>.
  \<^item> \<open>Audit_Merkle\<close>: hashing, Merkle root and inclusion proofs of \<open>audit.rs\<close>: proofs are complete and sound.
  \<^item> \<open>Audit_Log\<close>: recorder, rollup and verifier of \<open>audit.rs\<close>.  What is recorded verifies, verified logs
    agree, the rollup refines counting, the end of a session seals the log.
  \<^item> \<open>Audit_Ledger\<close>: session digests and the session ledger of \<open>audit.rs\<close>.  An append keeps a verified
    ledger verified, and the head commits to every record.

  Statements on hashes never assume that SHA-256 is injective, which no function into 32 bytes is:
  they assume it only of the byte strings that were in fact hashed (\<open>inj_on\<close> a finite set).

  \<^bold>\<open>Loops.\<close>  Loops are recursive functions with termination proofs.  Fuel occurs only where the source
  has it (40 symlink hops); \<open>Host_FS\<close> bounds path resolution as the kernel does.

  \<^bold>\<open>Not modelled.\<close>  The macOS backend and the namespace set-up (\<open>sandbox/\<close>), the socket transport of the
  supervisor, the keystore and the signing code act through system calls and other crates.  \<open>manifest.rs\<close> is generated
  at build time.  The proxy's connections, TLS and OAuth code (\<open>nono-proxy\<close>) and the command line
  (\<open>nono-cli\<close>) are asynchronous or interactive input and output around the library.
\<close>

end
